(* ===== verification/Prelude.thy ===== *)
theory Prelude
  imports Main "HOL-Library.AList" "HOL-Library.Sublist"
begin

text \<open>
  Shared vocabulary of the development.

  \<^item> Go's \<^verbatim>\<open>int64\<close> arithmetic: \<open>wrap64\<close> is the two's complement wrap-around of
    \<^verbatim>\<open>+\<close>, \<^verbatim>\<open>-\<close> and \<^verbatim>\<open>*\<close>, \<open>sat64\<close> the saturation of \<^verbatim>\<open>time.Time.Sub\<close>,
    \<open>quot64\<close> the truncating division by a positive constant.
  \<^item> Time: a \<^verbatim>\<open>time.Time\<close> is an \<open>int\<close> counting nanoseconds from Go's zero time, so
    \<^verbatim>\<open>IsZero\<close> is \<open>t = 0\<close>; a \<^verbatim>\<open>time.Duration\<close> is an \<open>int\<close> that the operations
    keep inside the 64-bit range with \<open>wrap64\<close>.
  \<^item> Go maps: an association list read with \<open>mget\<close> and written with \<open>mput\<close> and
    \<open>mdel\<close>. Its order stands for the iteration order Go leaves unspecified, so a
    statement about an iteration holds for every order.
  \<^item> Go strings are byte sequences, which is what \<open>string\<close> is.
\<close>

named_theorems gomap_simps "reading a map after a write"
named_theorems dur_defs "the duration constants"

section \<open>64-bit integers and time\<close>

type_synonym time = int
type_synonym duration = int

definition wrap64 :: "int \<Rightarrow> int" where
  "wrap64 x = (x + 2 ^ 63) mod 2 ^ 64 - 2 ^ 63"

definition sat64 :: "int \<Rightarrow> int" where
  "sat64 x = max (- (2 ^ 63)) (min (2 ^ 63 - 1) x)"

definition in64 :: "int \<Rightarrow> bool" where
  "in64 x \<longleftrightarrow> - (2 ^ 63) \<le> x \<and> x < 2 ^ 63"

text \<open>Go's \<^verbatim>\<open>/\<close> rounds towards zero; every divisor in the source is a positive constant.\<close>

definition quot64 :: "int \<Rightarrow> int \<Rightarrow> int" where
  "quot64 a b = (if a < 0 then - ((- a) div b) else a div b)"

lemma in64_wrap64 [simp, intro]: "in64 (wrap64 x)"
proof -
  have "0 \<le> (x + 2 ^ 63) mod 2 ^ 64" and "(x + 2 ^ 63) mod 2 ^ 64 < (2 ^ 64 :: int)"
    by simp_all
  then show ?thesis by (simp add: in64_def wrap64_def)
qed

lemma wrap64_id: "in64 x \<Longrightarrow> wrap64 x = x"
  by (simp add: in64_def wrap64_def)

lemma wrap64_idem [simp]: "wrap64 (wrap64 x) = wrap64 x"
  by (rule wrap64_id) simp

lemma in64_sat64 [simp, intro]: "in64 (sat64 x)"
  by (auto simp: in64_def sat64_def)

lemma sat64_id: "in64 x \<Longrightarrow> sat64 x = x"
  by (auto simp: in64_def sat64_def)

lemma quot64_nonneg: "0 \<le> a \<Longrightarrow> quot64 a b = a div b"
  by (simp add: quot64_def)

lemma quot64_neg_le: "a \<le> 0 \<Longrightarrow> 0 < b \<Longrightarrow> quot64 a b \<le> 0"
  by (cases "a = 0") (simp_all add: quot64_def pos_imp_zdiv_nonneg_iff)

definition Nanosecond :: duration where [dur_defs]: "Nanosecond = 1"
definition Microsecond :: duration where [dur_defs]: "Microsecond = 1000"
definition Millisecond :: duration where [dur_defs]: "Millisecond = 1000000"
definition Second :: duration where [dur_defs]: "Second = 1000000000"
definition Minute :: duration where [dur_defs]: "Minute = 60000000000"
definition Hour :: duration where [dur_defs]: "Hour = 3600000000000"

text \<open>The operations of package \<^verbatim>\<open>time\<close> the source uses.\<close>

definition IsZero :: "time \<Rightarrow> bool" where
  "IsZero t \<longleftrightarrow> t = 0"

definition time_Add :: "time \<Rightarrow> duration \<Rightarrow> time" where
  "time_Add t d = t + d"

definition time_Sub :: "time \<Rightarrow> time \<Rightarrow> duration" where
  "time_Sub t u = sat64 (t - u)"

section \<open>Go maps\<close>

type_synonym ('k, 'v) gomap = "('k \<times> 'v) list"

definition mget :: "('k, 'v) gomap \<Rightarrow> 'k \<Rightarrow> 'v option" where
  "mget m k = map_of m k"

definition mput :: "'k \<Rightarrow> 'v \<Rightarrow> ('k, 'v) gomap \<Rightarrow> ('k, 'v) gomap" where
  "mput k v m = AList.update k v m"

definition mdel :: "'k \<Rightarrow> ('k, 'v) gomap \<Rightarrow> ('k, 'v) gomap" where
  "mdel k m = AList.delete k m"

definition mkeys :: "('k, 'v) gomap \<Rightarrow> 'k list" where
  "mkeys m = map fst m"

definition mwf :: "('k, 'v) gomap \<Rightarrow> bool" where
  "mwf m \<longleftrightarrow> distinct (mkeys m)"

lemma mget_Nil [simp]: "mget [] k = None"
  by (simp add: mget_def)

lemma mget_Cons: "mget ((k, v) # m) k' = (if k' = k then Some v else mget m k')"
  by (auto simp: mget_def)

lemma mget_mput [simp, gomap_simps]: "mget (mput k v m) k' = (if k' = k then Some v else mget m k')"
  by (simp add: mget_def mput_def update_conv')

lemma mget_mdel [simp, gomap_simps]: "mget (mdel k m) k' = (if k' = k then None else mget m k')"
  by (simp add: mget_def mdel_def delete_conv')

lemma mget_mput_fun: "mget (mput k v m) = (mget m)(k \<mapsto> v)"
  by (rule ext) simp

lemma mget_mdel_fun: "mget (mdel k m) = (mget m)(k := None)"
  by (rule ext) simp

lemma mkeys_Nil [simp]: "mkeys [] = []"
  by (simp add: mkeys_def)

lemma mwf_Nil [simp]: "mwf []"
  by (simp add: mwf_def mkeys_def)

lemma mwf_mput [simp]: "mwf m \<Longrightarrow> mwf (mput k v m)"
  by (simp add: mwf_def mkeys_def mput_def distinct_update)

lemma mwf_mdel [simp]: "mwf m \<Longrightarrow> mwf (mdel k m)"
  by (simp add: mwf_def mkeys_def mdel_def distinct_delete)

lemma mget_mem: "mget m k = Some v \<Longrightarrow> (k, v) \<in> set m"
  by (simp add: mget_def map_of_SomeD)

lemma mget_iff_mem: "mwf m \<Longrightarrow> mget m k = Some v \<longleftrightarrow> (k, v) \<in> set m"
  by (auto simp: mget_def mwf_def mkeys_def)

lemma mget_None_iff: "mget m k = None \<longleftrightarrow> k \<notin> set (mkeys m)"
  by (auto simp: mget_def mkeys_def map_of_eq_None_iff)

lemma set_mkeys_mput [simp]: "set (mkeys (mput k v m)) = insert k (set (mkeys m))"
  by (simp add: mkeys_def mput_def dom_update)

lemma set_mkeys_mdel [simp]: "set (mkeys (mdel k m)) = set (mkeys m) - {k}"
  unfolding mkeys_def mdel_def delete_keys by auto

lemma length_mput: "length (mput k v m) = (if k \<in> set (mkeys m) then length m else Suc (length m))"
  by (induction m) (auto simp: mput_def mkeys_def)

lemma length_mdel:
  "mwf m \<Longrightarrow> length (mdel k m) = (if k \<in> set (mkeys m) then length m - 1 else length m)"
proof (induction m)
  case Nil
  then show ?case by (simp add: mdel_def)
next
  case (Cons p m)
  have "k \<notin> fst ` set m \<Longrightarrow> AList.delete k m = m" by simp
  moreover have "k \<in> fst ` set m \<Longrightarrow> length m \<noteq> 0" by auto
  ultimately show ?case using Cons
    by (cases p) (auto simp: mdel_def mwf_def mkeys_def)
qed

lemma mdel_id: "mget m k = None \<Longrightarrow> mdel k m = m"
  by (auto simp: mget_None_iff mdel_def mkeys_def)

lemma mdel_mput_fresh: "mget m k = None \<Longrightarrow> mdel k (mput k v m) = m"
  by (simp add: mdel_def mput_def delete_update_same mget_None_iff mkeys_def)

section \<open>Results\<close>

text \<open>A fallible call returns \<open>'e + 'a\<close>; \<open>Inl\<close> is the error.\<close>

fun is_ok :: "'e + 'a \<Rightarrow> bool" where
  "is_ok (Inl e) = False"
| "is_ok (Inr a) = True"

lemma is_ok_iff: "is_ok r \<longleftrightarrow> (\<exists>a. r = Inr a)"
  by (cases r) auto

section \<open>Strings\<close>

definition strings_HasPrefix :: "string \<Rightarrow> string \<Rightarrow> bool" where
  "strings_HasPrefix s p \<longleftrightarrow> take (length p) s = p"

definition strings_TrimPrefix :: "string \<Rightarrow> string \<Rightarrow> string" where
  "strings_TrimPrefix s p = (if strings_HasPrefix s p then drop (length p) s else s)"

fun strings_Join :: "string list \<Rightarrow> string \<Rightarrow> string" where
  "strings_Join [] sep = []"
| "strings_Join [x] sep = x"
| "strings_Join (x # y # ys) sep = x @ sep @ strings_Join (y # ys) sep"

text \<open>\<^verbatim>\<open>strings.Split\<close> and \<^verbatim>\<open>strings.SplitSeq\<close> on a one-byte separator.\<close>

fun split_char :: "char \<Rightarrow> string \<Rightarrow> string list" where
  "split_char c [] = [[]]"
| "split_char c (x # xs) =
     (if x = c then [] # split_char c xs
      else (case split_char c xs of [] \<Rightarrow> [[x]] | w # ws \<Rightarrow> (x # w) # ws))"

lemma split_char_nonempty [simp]: "split_char c s \<noteq> []"
  by (induction s) (auto split: list.splits)

lemma split_char_absent: "c \<notin> set s \<Longrightarrow> split_char c s = [s]"
  by (induction s) auto

lemma strings_HasPrefix_append [simp]: "strings_HasPrefix (p @ s) p"
  by (simp add: strings_HasPrefix_def)

lemma strings_HasPrefix_iff: "strings_HasPrefix s p \<longleftrightarrow> (\<exists>t. s = p @ t)"
  by (auto simp: strings_HasPrefix_def) (metis append_take_drop_id)

text \<open>\<^verbatim>\<open>strconv.Itoa\<close> and \<^verbatim>\<open>FormatInt\<close> in base 10.\<close>

definition digit_char :: "nat \<Rightarrow> char" where
  "digit_char d = char_of (48 + d)"

fun utoa :: "nat \<Rightarrow> string" where
  "utoa n = (if n < 10 then [digit_char n] else utoa (n div 10) @ [digit_char (n mod 10)])"

declare utoa.simps [simp del]

definition itoa :: "int \<Rightarrow> string" where
  "itoa i = (if i < 0 then CHR ''-'' # utoa (nat (- i)) else utoa (nat i))"

lemma of_char_digit_char: "d < 10 \<Longrightarrow> of_char (digit_char d) = 48 + d"
  by (simp add: digit_char_def)

lemma digit_char_inj: "d < 10 \<Longrightarrow> e < 10 \<Longrightarrow> digit_char d = digit_char e \<longleftrightarrow> d = e"
proof
  assume "d < 10" "e < 10" "digit_char d = digit_char e"
  then have "(of_char (digit_char d) :: nat) = of_char (digit_char e)" by simp
  with \<open>d < 10\<close> \<open>e < 10\<close> show "d = e" by (simp only: of_char_digit_char)
qed simp

lemma utoa_nonempty [simp]: "utoa n \<noteq> []" "[] \<noteq> utoa n"
  by (subst utoa.simps, simp)+

lemma utoa_inj: "utoa m = utoa n \<longleftrightarrow> m = n"
proof
  show "utoa m = utoa n \<Longrightarrow> m = n"
  proof (induction m arbitrary: n rule: utoa.induct)
    case (1 m)
    have eq: "(if m < 10 then [digit_char m] else utoa (m div 10) @ [digit_char (m mod 10)])
      = (if n < 10 then [digit_char n] else utoa (n div 10) @ [digit_char (n mod 10)])"
      by (rule trans [OF sym [OF utoa.simps [of m]] trans [OF "1.prems" utoa.simps [of n]]])
    show ?case
    proof (cases "m < 10")
      case True
      with eq have "n < 10" by (cases "n < 10") simp_all
      with True eq show ?thesis by (simp add: digit_char_inj)
    next
      case False
      with eq have "\<not> n < 10" by (cases "n < 10") simp_all
      with False eq have "utoa (m div 10) = utoa (n div 10)"
        and "digit_char (m mod 10) = digit_char (n mod 10)" by simp_all
      with "1.IH" [OF False] have "m div 10 = n div 10" and "m mod 10 = n mod 10"
        by (simp_all add: digit_char_inj)
      then show ?thesis by (metis div_mult_mod_eq)
    qed
  qed
qed simp

section \<open>Lists\<close>

lemma in_set_filter_map: "y \<in> set (map f (filter P xs)) \<longleftrightarrow> (\<exists>x \<in> set xs. P x \<and> y = f x)"
  by auto

end
