(* ===== verification/Domain.thy ===== *)
theory Domain
  imports Prelude
begin

text \<open>
  The domain model, \<^verbatim>\<open>internal/core/domain\<close>: the query state machine
  (\<^verbatim>\<open>models.go\<close>), the client-supplied options and their validation, query errors and
  records, and the typed errors (\<^verbatim>\<open>errors.go\<close>) the transports map to status codes.

  A Go \<^verbatim>\<open>error\<close> is a value of \<open>go_error\<close>: the typed errors of the source, the sentinel
  errors it compares with \<^verbatim>\<open>errors.Is\<close>, \<open>ErrorString\<close> for an error known by its text only
  (\<^verbatim>\<open>errors.New\<close>, or an error a library returned) and \<open>Wrapf p e\<close> for
  \<^verbatim>\<open>fmt.Errorf("p: %w", e)\<close>. \<open>root\<close> follows the wrapping chain, which is what
  \<^verbatim>\<open>errors.Is\<close> and \<^verbatim>\<open>errors.AsType\<close> do.
\<close>

section \<open>Errors\<close>

datatype go_error =
    DrainingError
  | ValidationError string string
  | NotFoundError string string
  | UnavailableError string
  | ResourceExhaustedError string
  | ErrNotFound
  | ErrUnauthenticated
  | ErrForbidden
  | Canceled
  | DeadlineExceeded
  | EOF
  | ErrorString string
  | Wrapf string go_error

fun error_text :: "go_error \<Rightarrow> string" where
  "error_text DrainingError = ''service is draining: new queries are not accepted''"
| "error_text (ValidationError field reason) = ''invalid '' @ field @ '': '' @ reason"
| "error_text (NotFoundError resource i) = resource @ '' '' @ i @ '' not found''"
| "error_text (UnavailableError resource) = resource @ '' is unreachable''"
| "error_text (ResourceExhaustedError reason) = ''resource exhausted: '' @ reason"
| "error_text ErrNotFound = ''query not found''"
| "error_text ErrUnauthenticated = ''missing or invalid credentials''"
| "error_text ErrForbidden = ''insufficient scope''"
| "error_text Canceled = ''context canceled''"
| "error_text DeadlineExceeded = ''context deadline exceeded''"
| "error_text EOF = ''EOF''"
| "error_text (ErrorString s) = s"
| "error_text (Wrapf p e) = p @ '': '' @ error_text e"

fun root :: "go_error \<Rightarrow> go_error" where
  "root (Wrapf p e) = root e"
| "root e = e"

definition errors_Is :: "go_error \<Rightarrow> go_error \<Rightarrow> bool" where
  "errors_Is e target \<longleftrightarrow> root e = target"

text \<open>
  \<^verbatim>\<open>strconv.Quote\<close>, the \<^verbatim>\<open>%q\<close> verb: a quote and a backslash are escaped, control
  characters become escape sequences, other bytes are kept (the arguments the source
  quotes into an error a client can see are ASCII names).
\<close>

definition hex_char :: "nat \<Rightarrow> char" where
  "hex_char d = (if d < 10 then char_of (48 + d) else char_of (87 + d))"

definition quote_byte :: "char \<Rightarrow> string" where
  "quote_byte c =
     (if c = CHR 0x22 then [CHR 0x5C, CHR 0x22]
      else if c = CHR 0x5C then [CHR 0x5C, CHR 0x5C]
      else if c = CHR 0x07 then [CHR 0x5C, CHR ''a'']
      else if c = CHR 0x08 then [CHR 0x5C, CHR ''b'']
      else if c = CHR 0x0C then [CHR 0x5C, CHR ''f'']
      else if c = CHR 0x0A then [CHR 0x5C, CHR ''n'']
      else if c = CHR 0x0D then [CHR 0x5C, CHR ''r'']
      else if c = CHR 0x09 then [CHR 0x5C, CHR ''t'']
      else if c = CHR 0x0B then [CHR 0x5C, CHR ''v'']
      else if (of_char c :: nat) < 32 \<or> c = CHR 0x7F
        then [CHR 0x5C, CHR ''x'', hex_char (of_char c div 16), hex_char (of_char c mod 16)]
      else [c])"

definition strconv_Quote :: "string \<Rightarrow> string" where
  "strconv_Quote s = [CHR 0x22] @ concat (map quote_byte s) @ [CHR 0x22]"

record ReloadReport =
  rr_Added :: "string list"
  rr_Removed :: "string list"
  rr_Updated :: "string list"
  rr_Ignored :: "string list"
  rr_Failures :: "string list"

section \<open>The query state machine\<close>

text \<open>
  \<^verbatim>\<open>QueryState\<close> is a string type, so a value read from another system may be none of the
  six constants: \<open>OtherState\<close> holds it, and takes the \<^verbatim>\<open>default\<close> branches of the source.
\<close>

datatype QueryState =
    StatePending | StateRunning | StateSucceeded | StateFailed | StateCanceled | StateExpired
  | OtherState string

fun state_string :: "QueryState \<Rightarrow> string" where
  "state_string StatePending = ''PENDING''"
| "state_string StateRunning = ''RUNNING''"
| "state_string StateSucceeded = ''SUCCEEDED''"
| "state_string StateFailed = ''FAILED''"
| "state_string StateCanceled = ''CANCELED''"
| "state_string StateExpired = ''EXPIRED''"
| "state_string (OtherState s) = s"

definition state_of_string :: "string \<Rightarrow> QueryState" where
  "state_of_string s =
     (if s = ''PENDING'' then StatePending
      else if s = ''RUNNING'' then StateRunning
      else if s = ''SUCCEEDED'' then StateSucceeded
      else if s = ''FAILED'' then StateFailed
      else if s = ''CANCELED'' then StateCanceled
      else if s = ''EXPIRED'' then StateExpired
      else OtherState s)"

fun IsTerminal :: "QueryState \<Rightarrow> bool" where
  "IsTerminal StateSucceeded = True"
| "IsTerminal StateFailed = True"
| "IsTerminal StateCanceled = True"
| "IsTerminal StateExpired = True"
| "IsTerminal _ = False"

definition CanTransitionTo :: "QueryState \<Rightarrow> QueryState \<Rightarrow> bool" where
  "CanTransitionTo s nxt =
     (if s = nxt then True
      else case s of
        StatePending \<Rightarrow> nxt = StateRunning \<or> nxt = StateCanceled \<or> nxt = StateFailed
      | StateRunning \<Rightarrow> nxt = StateSucceeded \<or> nxt = StateFailed \<or> nxt = StateCanceled
      | StateSucceeded \<Rightarrow> nxt = StateExpired
      | StateFailed \<Rightarrow> nxt = StateExpired
      | StateCanceled \<Rightarrow> nxt = StateExpired
      | StateExpired \<Rightarrow> False
      | OtherState _ \<Rightarrow> False)"

section \<open>Options\<close>

record QueryOptions =
  opt_Timeout :: duration
  opt_Mode :: string
  opt_ResultTTL :: duration
  opt_IdempotencyKey :: string
  opt_ResultFormat :: string
  opt_StorageBackend :: string

definition ValidResultFormats :: "string list" where
  "ValidResultFormats = [''jsonl'', ''csv'', ''parquet'']"

definition ValidModes :: "string list" where
  "ValidModes = [''async'', ''sync'']"

definition Validate :: "QueryOptions \<Rightarrow> go_error option" where
  "Validate o' =
     (if opt_Mode o' \<notin> set ValidModes
        then Some (ValidationError ''mode'' (''must be one of '' @ strings_Join ValidModes '', ''))
      else if opt_ResultFormat o' \<notin> set ValidResultFormats
        then Some (ValidationError ''result_format''
               (''must be one of '' @ strings_Join ValidResultFormats '', ''))
      else if opt_Timeout o' < 0
        then Some (ValidationError ''timeout_ms'' ''must not be negative'')
      else if opt_ResultTTL o' < 0
        then Some (ValidationError ''result_ttl_seconds'' ''must not be negative'')
      else None)"

section \<open>Query errors, statistics, results and records\<close>

datatype QueryErrorCode =
    ErrCodeDBExecFailed | ErrCodeQueryTimeout | ErrCodeStorageInitFailed
  | ErrCodeStorageWriterFailed | ErrCodeStorageFinalizeFailed | ErrCodeStreamEncodeFailed
  | ErrCodeOwnerLost

fun code_string :: "QueryErrorCode \<Rightarrow> string" where
  "code_string ErrCodeDBExecFailed = ''DB_EXEC_FAILED''"
| "code_string ErrCodeQueryTimeout = ''QUERY_TIMEOUT''"
| "code_string ErrCodeStorageInitFailed = ''STORAGE_INIT_FAILED''"
| "code_string ErrCodeStorageWriterFailed = ''STORAGE_WRITER_FAILED''"
| "code_string ErrCodeStorageFinalizeFailed = ''STORAGE_FINALIZE_FAILED''"
| "code_string ErrCodeStreamEncodeFailed = ''STREAM_ENCODE_FAILED''"
| "code_string ErrCodeOwnerLost = ''OWNER_LOST''"

definition maxQueryErrorMessage :: nat where
  "maxQueryErrorMessage = 512"

record QueryError =
  qe_Code :: QueryErrorCode
  qe_Message :: string
  qe_Retryable :: bool

text \<open>The ellipsis is three bytes of UTF-8.\<close>

definition ellipsis :: string where
  "ellipsis = [CHR 0xE2, CHR 0x80, CHR 0xA6]"

definition NewQueryError :: "QueryErrorCode \<Rightarrow> string \<Rightarrow> bool \<Rightarrow> QueryError" where
  "NewQueryError code message retryable =
     (let message = (if length message > maxQueryErrorMessage
                     then take maxQueryErrorMessage message @ ellipsis else message)
      in \<lparr>qe_Code = code, qe_Message = message, qe_Retryable = retryable\<rparr>)"

definition QueryError_Error :: "QueryError \<Rightarrow> string" where
  "QueryError_Error e =
     ''['' @ code_string (qe_Code e) @ ''] '' @ qe_Message e @ '' (retryable: '' @
     (if qe_Retryable e then ''true'' else ''false'') @ '')''"

record QueryStats =
  st_RowsRead :: int
  st_BytesWritten :: int
  st_DBExecDuration :: duration
  st_StorageWriteDuration :: duration
  st_TotalDuration :: duration

definition zero_stats :: QueryStats where
  "zero_stats = \<lparr>st_RowsRead = 0, st_BytesWritten = 0, st_DBExecDuration = 0,
     st_StorageWriteDuration = 0, st_TotalDuration = 0\<rparr>"

record ResultRef =
  ref_Backend :: string
  ref_Locator :: string
  ref_SizeBytes :: int
  ref_RowCount :: int
  ref_Format :: string
  ref_Checksum :: string

record QueryRecord =
  qr_ID :: string
  qr_DatabaseID :: string
  qr_SQL :: string
  qr_Options :: QueryOptions
  qr_State :: QueryState
  qr_OwnerInstanceID :: string
  qr_CreatedAt :: time
  qr_StartedAt :: time
  qr_FinishedAt :: time
  qr_Error :: "QueryError option"
  qr_Stats :: QueryStats
  qr_Result :: "ResultRef option"
  qr_IdempotencyKey :: string
  qr_LeaseDeadline :: time
  qr_Subject :: string

record DatabaseInfo =
  di_ID :: string
  di_Engine :: string
  di_DisplayName :: string
  di_Healthy :: bool

section \<open>Properties of the state machine\<close>

lemma state_of_string_inverse [simp]:
  "(\<And>t. s \<noteq> OtherState t) \<Longrightarrow> state_of_string (state_string s) = s"
  by (cases s) (auto simp: state_of_string_def)

lemma state_string_of_string [simp]: "state_string (state_of_string s) = s"
  by (auto simp: state_of_string_def)

lemma CanTransitionTo_refl [simp]: "CanTransitionTo s s"
  by (simp add: CanTransitionTo_def)

lemma CanTransitionTo_terminal:
  "CanTransitionTo s t \<Longrightarrow> IsTerminal s \<Longrightarrow> IsTerminal t"
  by (cases s) (auto simp: CanTransitionTo_def split: if_splits)

lemma CanTransitionTo_terminal_iff:
  "IsTerminal s \<Longrightarrow> CanTransitionTo s t \<longleftrightarrow> t = s \<or> t = StateExpired"
  by (cases s) (auto simp: CanTransitionTo_def)

text \<open>How far a state is along the machine. Every proper transition increases it.\<close>

fun state_rank :: "QueryState \<Rightarrow> nat" where
  "state_rank StatePending = 0"
| "state_rank StateRunning = 1"
| "state_rank StateExpired = 3"
| "state_rank (OtherState _) = 0"
| "state_rank _ = 2"

lemma state_rank_le: "state_rank s \<le> 3"
  by (cases s) auto

lemma CanTransitionTo_rank: "CanTransitionTo s t \<Longrightarrow> s \<noteq> t \<Longrightarrow> state_rank s < state_rank t"
  by (cases s) (auto simp: CanTransitionTo_def)

text \<open>A history of a record: each state can follow the one before it.\<close>

fun legal_history :: "QueryState list \<Rightarrow> bool" where
  "legal_history [] = True"
| "legal_history [s] = True"
| "legal_history (s # t # ts) = (CanTransitionTo s t \<and> legal_history (t # ts))"

lemma legal_history_ranks:
  "legal_history ss \<Longrightarrow> sorted_wrt (<) (map state_rank (remdups_adj ss))"
proof (induction ss rule: legal_history.induct)
  case (3 s t ts)
  have IH: "sorted_wrt (<) (map state_rank (remdups_adj (t # ts)))"
    using 3 by simp
  show ?case
  proof (cases "s = t")
    case True
    then show ?thesis using IH by simp
  next
    case False
    obtain us where us: "remdups_adj (t # ts) = t # us"
      by (metis remdups_adj_Cons' list.exhaust remdups_adj.simps(2) hd_remdups_adj
          list.sel(1) remdups_adj_Nil_iff list.distinct(1))
    have "state_rank s < state_rank t"
      using 3 False by (simp add: CanTransitionTo_rank)
    with False IH us show ?thesis by auto
  qed
qed simp_all

lemma legal_history_terminal:
  "legal_history (s # ss) \<Longrightarrow> IsTerminal s \<Longrightarrow> list_all IsTerminal ss"
  by (induction ss arbitrary: s) (auto dest: CanTransitionTo_terminal)

lemma legal_history_expired:
  "legal_history (StateExpired # ss) \<Longrightarrow> set ss \<subseteq> {StateExpired}"
  by (induction ss) (auto simp: CanTransitionTo_def split: if_splits)

lemma sorted_wrt_less_bounded_length:
  fixes ns :: "nat list"
  assumes "sorted_wrt (<) ns" and "\<forall>n \<in> set ns. n \<le> k"
  shows "length ns \<le> Suc k"
proof -
  have "distinct ns" using assms(1) by (simp add: strict_sorted_iff)
  then have "length ns = card (set ns)" by (simp add: distinct_card)
  also have "\<dots> \<le> card {0..k}" using assms(2) by (intro card_mono) auto
  finally show ?thesis by simp
qed



section \<open>Properties of the options and of query errors\<close>

lemma Validate_None_iff:
  "Validate o' = None \<longleftrightarrow>
     opt_Mode o' \<in> set ValidModes \<and> opt_ResultFormat o' \<in> set ValidResultFormats \<and>
     0 \<le> opt_Timeout o' \<and> 0 \<le> opt_ResultTTL o'"
  by (auto simp: Validate_def)

lemma Validate_Some_field:
  "Validate o' = Some e \<Longrightarrow> \<exists>f r. e = ValidationError f r"
  by (auto simp: Validate_def split: if_splits)

lemma valid_format_lowercase:
  "f \<in> set ValidResultFormats \<Longrightarrow> f \<noteq> [] \<and> (\<forall>c \<in> set f. 97 \<le> (of_char c :: nat) \<and> of_char c \<le> (122 :: nat))"
  by (auto simp: ValidResultFormats_def)

lemma NewQueryError_message_bound: "length (qe_Message (NewQueryError c m r)) \<le> 515"
  by (auto simp: NewQueryError_def Let_def maxQueryErrorMessage_def ellipsis_def)

lemma root_idem [simp]: "root (root e) = root e"
  by (induction e) auto

lemma root_not_Wrapf [simp]: "root e \<noteq> Wrapf p e'"
  by (induction e) auto

end
