(* ===== verification/Lifecycle.thy ===== *)
theory Lifecycle
  imports Prelude
begin

text \<open>
  The instance lifecycle, \<^verbatim>\<open>internal/lifecycle/manager.go\<close>: \<open>SERVING\<close>, \<open>DRAINING\<close>,
  \<open>STOPPABLE\<close>. The mutex makes each method one atomic step on the state.
\<close>

datatype LState = StateServing | StateDraining | StateStoppable

fun lstate_string :: "LState \<Rightarrow> string" where
  "lstate_string StateServing = ''SERVING''"
| "lstate_string StateDraining = ''DRAINING''"
| "lstate_string StateStoppable = ''STOPPABLE''"

record LManager =
  lm_state :: LState

definition NewLManager :: LManager where
  "NewLManager = \<lparr>lm_state = StateServing\<rparr>"

definition SetState :: "LState \<Rightarrow> LManager \<Rightarrow> LManager" where
  "SetState s m = m\<lparr>lm_state := s\<rparr>"

definition GetState :: "LManager \<Rightarrow> LState" where
  "GetState m = lm_state m"

definition IsDraining :: "LManager \<Rightarrow> bool" where
  "IsDraining m = (let s = GetState m in s = StateDraining \<or> s = StateStoppable)"

definition Advance :: "nat \<Rightarrow> LManager \<Rightarrow> LState \<times> LManager" where
  "Advance inFlight m =
     (let m' = (case lm_state m of
                  StateDraining \<Rightarrow> if inFlight = 0 then m\<lparr>lm_state := StateStoppable\<rparr> else m
                | StateStoppable \<Rightarrow> if inFlight > 0 then m\<lparr>lm_state := StateDraining\<rparr> else m
                | StateServing \<Rightarrow> m)
      in (lm_state m', m'))"

lemma IsDraining_iff: "IsDraining m \<longleftrightarrow> lm_state m \<noteq> StateServing"
  by (cases "lm_state m") (auto simp: IsDraining_def GetState_def Let_def)

lemma fst_Advance: "fst (Advance n m) = lm_state (snd (Advance n m))"
  by (simp add: Advance_def Let_def)

lemma Advance_state:
  "lm_state (snd (Advance n m)) =
     (if lm_state m = StateServing then StateServing
      else if n = 0 then StateStoppable else StateDraining)"
  by (cases "lm_state m") (auto simp: Advance_def Let_def)

lemma IsDraining_Advance [simp]: "IsDraining (snd (Advance n m)) = IsDraining m"
  by (simp add: IsDraining_iff Advance_state)

text \<open>
  The transitions the process makes: \<^verbatim>\<open>drain\<close> of \<^verbatim>\<open>cmd/dbbridge/shutdown.go\<close> sets
  \<open>DRAINING\<close>; the shutdown loop and \<^verbatim>\<open>CanIBeStopped\<close> call \<open>Advance\<close> with the number
  of queries in flight.
\<close>

datatype lifecycle_event = Drained | Polled nat

fun lifecycle_run :: "lifecycle_event list \<Rightarrow> LManager \<Rightarrow> LManager" where
  "lifecycle_run [] m = m"
| "lifecycle_run (Drained # es) m = lifecycle_run es (SetState StateDraining m)"
| "lifecycle_run (Polled n # es) m = lifecycle_run es (snd (Advance n m))"

lemma lifecycle_run_append:
  "lifecycle_run (es @ fs) m = lifecycle_run fs (lifecycle_run es m)"
  by (induction es m rule: lifecycle_run.induct) auto

lemma lifecycle_run_draining:
  "IsDraining (lifecycle_run es m) \<longleftrightarrow> IsDraining m \<or> Drained \<in> set es"
  by (induction es m rule: lifecycle_run.induct) (auto simp: IsDraining_iff SetState_def Advance_state)

text \<open>
  Lifecycle of an instance. Over any sequence of drains and polls from a fresh manager
  the instance refuses queries exactly once it has been drained, for good; it reports
  \<open>STOPPABLE\<close> exactly when it has been drained before and the last event was a poll that
  saw nothing in flight, and a poll that sees work takes it back to \<open>DRAINING\<close>.
\<close>

theorem lifecycle_states:
  "IsDraining (lifecycle_run es NewLManager) = (Drained \<in> set es)
   \<and> (lm_state (lifecycle_run (es @ [Polled n]) NewLManager) = StateStoppable)
       = (Drained \<in> set es \<and> n = 0)
   \<and> (lm_state (lifecycle_run (es @ [Polled n]) NewLManager) = StateDraining)
       = (Drained \<in> set es \<and> 0 < n)
   \<and> lm_state (lifecycle_run (es @ [Drained]) NewLManager) = StateDraining"
proof -
  have d: "IsDraining (lifecycle_run es NewLManager) = (Drained \<in> set es)"
    using lifecycle_run_draining [of es NewLManager] by (simp add: IsDraining_iff NewLManager_def)
  then show ?thesis
    by (auto simp: lifecycle_run_append Advance_state IsDraining_iff SetState_def)
qed

end
