(* ===== verification/Authn.thy ===== *)
theory Authn
  imports Domain
begin

text \<open>
  Authentication, \<^verbatim>\<open>internal/authn/authn.go\<close>: static bearer tokens with scopes, the identity
  a request carries, and the subject check of the read paths.

  The environment \<^verbatim>\<open>New\<close> reads is the argument \<open>getenv\<close>. A request context is modelled by
  what the source stores in it, an \<open>Identity option\<close>: \<open>None\<close> is a context without the key.
  A \<^verbatim>\<open>Scope\<close> is a string type; \<open>TokenSpec\<close> scopes are raw strings until \<^verbatim>\<open>New\<close> has checked
  them.
\<close>

section \<open>Scopes, tokens and identities\<close>

type_synonym Scope = string

definition ScopeRead :: Scope where "ScopeRead = ''read''"
definition ScopeWrite :: Scope where "ScopeWrite = ''write''"
definition ScopeAdmin :: Scope where "ScopeAdmin = ''admin''"

definition ValidScopes :: "Scope list" where
  "ValidScopes = [ScopeRead, ScopeWrite, ScopeAdmin]"

lemmas scope_defs = ScopeRead_def ScopeWrite_def ScopeAdmin_def

record TokenSpec =
  ts_Subject :: string
  ts_Value :: string
  ts_ValueEnv :: string
  ts_Scopes :: "string list"

record token =
  tk_value :: string
  tk_subject :: string
  tk_scopes :: "Scope list"

record Identity =
  id_Subject :: string
  id_Scopes :: "Scope list"

definition Has :: "Identity \<Rightarrow> Scope \<Rightarrow> bool" where
  "Has i s =
     (if ScopeAdmin \<in> set (id_Scopes i) then True
      else if s = ScopeRead \<and> ScopeWrite \<in> set (id_Scopes i) then True
      else s \<in> set (id_Scopes i))"

definition IsAdmin :: "Identity \<Rightarrow> bool" where
  "IsAdmin i \<longleftrightarrow> ScopeAdmin \<in> set (id_Scopes i)"

record Authenticator =
  au_tokens :: "token list"

section \<open>Building an authenticator\<close>

definition token_err :: "nat \<Rightarrow> string \<Rightarrow> string \<Rightarrow> go_error" where
  "token_err i subject what =
     ErrorString (''auth token '' @ utoa i @ '' ('' @ subject @ ''): '' @ what)"

text \<open>The inner loop over the scopes of one spec.\<close>

fun check_scopes :: "nat \<Rightarrow> string \<Rightarrow> string list \<Rightarrow> go_error + Scope list" where
  "check_scopes i subject [] = Inr []"
| "check_scopes i subject (raw # raws) =
     (if raw \<notin> set ValidScopes then Inl (token_err i subject (''unknown scope '' @ strconv_Quote raw))
      else case check_scopes i subject raws of Inl e \<Rightarrow> Inl e | Inr ss \<Rightarrow> Inr (raw # ss))"

text \<open>The value a spec resolves to: the environment variable wins over the inline value.\<close>

definition resolve_value :: "(string \<Rightarrow> string) \<Rightarrow> nat \<Rightarrow> TokenSpec \<Rightarrow> go_error + string" where
  "resolve_value getenv i spec =
     (if ts_ValueEnv spec \<noteq> []
      then (let value = getenv (ts_ValueEnv spec) in
            if value = [] then Inl (token_err i (ts_Subject spec)
                 (''environment variable '' @ ts_ValueEnv spec @ '' is empty''))
            else Inr value)
      else if ts_Value spec = [] then Inl (token_err i (ts_Subject spec) ''no value or value_env'')
      else Inr (ts_Value spec))"

text \<open>The loop of \<^verbatim>\<open>New\<close>: \<open>i\<close> is the index, \<open>seen\<close> the values so far.\<close>

fun New_loop :: "(string \<Rightarrow> string) \<Rightarrow> nat \<Rightarrow> string list \<Rightarrow> TokenSpec list \<Rightarrow> go_error + token list" where
  "New_loop getenv i seen [] = Inr []"
| "New_loop getenv i seen (spec # specs) =
     (case resolve_value getenv i spec of
        Inl e \<Rightarrow> Inl e
      | Inr value \<Rightarrow>
          if value \<in> set seen then Inl (token_err i (ts_Subject spec) ''duplicate value'')
          else if ts_Subject spec = []
            then Inl (ErrorString (''auth token '' @ utoa i @ '': subject must not be empty''))
          else if ts_Scopes spec = []
            then Inl (token_err i (ts_Subject spec) ''at least one scope is required'')
          else (case check_scopes i (ts_Subject spec) (ts_Scopes spec) of
              Inl e \<Rightarrow> Inl e
            | Inr scopes \<Rightarrow>
                (case New_loop getenv (Suc i) (value # seen) specs of
                   Inl e \<Rightarrow> Inl e
                 | Inr toks \<Rightarrow>
                     Inr (\<lparr>tk_value = value, tk_subject = ts_Subject spec, tk_scopes = scopes\<rparr> # toks))))"

definition New :: "(string \<Rightarrow> string) \<Rightarrow> TokenSpec list \<Rightarrow> go_error + Authenticator" where
  "New getenv specs =
     (if specs = [] then Inl (ErrorString ''auth is configured but no tokens are defined'')
      else case New_loop getenv 0 [] specs of
             Inl e \<Rightarrow> Inl e
           | Inr toks \<Rightarrow> Inr \<lparr>au_tokens = toks\<rparr>)"

section \<open>Authenticating\<close>

text \<open>
  The loop compares every token and keeps the last index that matched;
  \<^verbatim>\<open>ConstantTimeCompare\<close> is equality of the byte strings.
\<close>

fun match_loop :: "token list \<Rightarrow> string \<Rightarrow> nat \<Rightarrow> nat option \<Rightarrow> nat option" where
  "match_loop [] given i m = m"
| "match_loop (t # ts) given i m =
     match_loop ts given (Suc i) (if tk_value t = given then Some i else m)"

definition Authenticate :: "Authenticator \<Rightarrow> string \<Rightarrow> go_error + Identity" where
  "Authenticate a credential =
     (case match_loop (au_tokens a) credential 0 None of
        None \<Rightarrow> Inl ErrUnauthenticated
      | Some m \<Rightarrow> Inr \<lparr>id_Subject = tk_subject (au_tokens a ! m), id_Scopes = tk_scopes (au_tokens a ! m)\<rparr>)"

text \<open>
  \<^verbatim>\<open>strings.EqualFold\<close> of the seven bytes of the header with \<^verbatim>\<open>"Bearer "\<close>. Fold equality
  is case-insensitive on the ASCII letters; the only other characters that fold to a letter
  of the prefix are outside ASCII and longer than one byte, so they cannot occur in a
  seven-byte string equal to it under folding.
  \<^verbatim>\<open>strings.TrimSpace\<close> is given here on ASCII space.
\<close>

definition ascii_lower :: "char \<Rightarrow> char" where
  "ascii_lower c = (if 65 \<le> (of_char c :: nat) \<and> of_char c \<le> (90 :: nat) then char_of ((of_char c :: nat) + 32) else c)"

definition is_ascii_space :: "char \<Rightarrow> bool" where
  "is_ascii_space c \<longleftrightarrow> c = CHR '' '' \<or> c = CHR 0x09 \<or> c = CHR 0x0A \<or> c = CHR 0x0B \<or> c = CHR 0x0C \<or> c = CHR 0x0D"

definition TrimSpace :: "string \<Rightarrow> string" where
  "TrimSpace s = rev (dropWhile is_ascii_space (rev (dropWhile is_ascii_space s)))"

definition BearerToken :: "string \<Rightarrow> string" where
  "BearerToken header =
     (if length header < length ''Bearer '' \<or>
         map ascii_lower (take (length ''Bearer '') header) \<noteq> map ascii_lower ''Bearer '' then []
      else TrimSpace (drop (length ''Bearer '') header))"

section \<open>The identity in the request context\<close>

type_synonym Context = "Identity option"

definition WithIdentity :: "Context \<Rightarrow> Identity \<Rightarrow> Context" where
  "WithIdentity ctx i = Some i"

definition FromContext :: "Context \<Rightarrow> Identity option" where
  "FromContext ctx = ctx"

definition AuthorizeSubject :: "Context \<Rightarrow> string \<Rightarrow> go_error option" where
  "AuthorizeSubject ctx owner =
     (case FromContext ctx of
        None \<Rightarrow> None
      | Some i \<Rightarrow>
          if IsAdmin i then None
          else if owner \<noteq> [] \<and> owner = id_Subject i then None
          else Some ErrForbidden)"

definition SubjectFromContext :: "Context \<Rightarrow> string" where
  "SubjectFromContext ctx = (case FromContext ctx of None \<Rightarrow> [] | Some i \<Rightarrow> id_Subject i)"

section \<open>Properties\<close>

text \<open>What every authenticator \<^verbatim>\<open>New\<close> returns satisfies.\<close>

definition wf_token :: "token \<Rightarrow> bool" where
  "wf_token t \<longleftrightarrow> tk_value t \<noteq> [] \<and> tk_subject t \<noteq> [] \<and> tk_scopes t \<noteq> [] \<and>
     set (tk_scopes t) \<subseteq> set ValidScopes"

definition wf_authenticator :: "Authenticator \<Rightarrow> bool" where
  "wf_authenticator a \<longleftrightarrow>
     au_tokens a \<noteq> [] \<and> distinct (map tk_value (au_tokens a)) \<and> (\<forall>t \<in> set (au_tokens a). wf_token t)"

lemma check_scopes_ok: "check_scopes i s raws = Inr ss \<Longrightarrow> ss = raws \<and> set raws \<subseteq> set ValidScopes"
  by (induction raws arbitrary: ss) (auto split: if_splits sum.splits)

lemma resolve_value_ok: "resolve_value getenv i spec = Inr v \<Longrightarrow> v \<noteq> []"
  by (auto simp: resolve_value_def Let_def split: if_splits)

lemma New_loop_Cons_ok:
  assumes "New_loop getenv i seen (spec # specs) = Inr toks"
  obtains v toks' where "v \<noteq> []" "v \<notin> set seen" "ts_Subject spec \<noteq> []"
    "ts_Scopes spec \<noteq> []" "set (ts_Scopes spec) \<subseteq> set ValidScopes"
    "New_loop getenv (Suc i) (v # seen) specs = Inr toks'"
    "toks = \<lparr>tk_value = v, tk_subject = ts_Subject spec, tk_scopes = ts_Scopes spec\<rparr> # toks'"
  using assms by (auto split: if_splits sum.splits dest!: check_scopes_ok dest: resolve_value_ok)

lemma New_loop_ok:
  assumes "New_loop getenv i seen specs = Inr toks"
  shows "distinct (map tk_value toks) \<and> tk_value ` set toks \<inter> set seen = {} \<and> (\<forall>t \<in> set toks. wf_token t)
    \<and> map tk_subject toks = map ts_Subject specs"
  using assms
proof (induction specs arbitrary: i seen toks)
  case Nil
  then show ?case by simp
next
  case (Cons spec specs)
  from Cons.prems show ?case
  proof (rule New_loop_Cons_ok)
    fix v toks'
    assume v: "v \<noteq> []" "v \<notin> set seen" "ts_Subject spec \<noteq> []" "ts_Scopes spec \<noteq> []"
      "set (ts_Scopes spec) \<subseteq> set ValidScopes"
      and loop: "New_loop getenv (Suc i) (v # seen) specs = Inr toks'"
      and toks: "toks = \<lparr>tk_value = v, tk_subject = ts_Subject spec, tk_scopes = ts_Scopes spec\<rparr> # toks'"
    from Cons.IH [OF loop] v toks show ?case by (auto simp: wf_token_def)
  qed
qed

lemma New_ok:
  assumes "New getenv specs = Inr a"
  shows "au_tokens a \<noteq> [] \<and> distinct (map tk_value (au_tokens a)) \<and> (\<forall>t \<in> set (au_tokens a). wf_token t)
    \<and> map tk_subject (au_tokens a) = map ts_Subject specs"
proof -
  from assms have ne: "specs \<noteq> []" and loop: "New_loop getenv 0 [] specs = Inr (au_tokens a)"
    by (auto simp: New_def split: if_splits sum.splits)
  from New_loop_ok [OF loop] ne show ?thesis by auto
qed

lemma New_wf: "New getenv specs = Inr a \<Longrightarrow> wf_authenticator a"
  using New_ok [of getenv specs a] by (simp add: wf_authenticator_def)

lemma match_loop_None:
  "match_loop ts g i m = None \<longleftrightarrow> m = None \<and> (\<forall>t \<in> set ts. tk_value t \<noteq> g)"
  by (induction ts arbitrary: i m) auto

lemma match_loop_Some:
  "match_loop ts g i m = Some k \<Longrightarrow>
     (\<exists>j < length ts. k = i + j \<and> tk_value (ts ! j) = g) \<or> m = Some k"
proof (induction ts arbitrary: i m)
  case (Cons t ts)
  from Cons.IH [of "Suc i" "if tk_value t = g then Some i else m"] Cons.prems
  consider j where "j < length ts" "k = Suc i + j" "tk_value (ts ! j) = g"
    | "(if tk_value t = g then Some i else m) = Some k"
    by auto
  then show ?case
  proof cases
    case 1
    then show ?thesis by (intro disjI1 exI [of _ "Suc j"]) simp
  next
    case 2
    then show ?thesis by (cases "tk_value t = g") (auto intro!: exI [of _ "0::nat"])
  qed
qed simp

lemma Authenticate_cases:
  "Authenticate a c = Inl ErrUnauthenticated \<and> (\<forall>t \<in> set (au_tokens a). tk_value t \<noteq> c) \<or>
   (\<exists>t \<in> set (au_tokens a). tk_value t = c \<and>
      Authenticate a c = Inr \<lparr>id_Subject = tk_subject t, id_Scopes = tk_scopes t\<rparr>)"
proof (cases "match_loop (au_tokens a) c 0 None")
  case None
  then have "Authenticate a c = Inl ErrUnauthenticated" by (simp add: Authenticate_def)
  moreover from None have "\<forall>t \<in> set (au_tokens a). tk_value t \<noteq> c" by (simp add: match_loop_None)
  ultimately show ?thesis by simp
next
  case (Some m)
  then have "m < length (au_tokens a)" and "tk_value (au_tokens a ! m) = c"
    by (auto dest: match_loop_Some)
  with Some show ?thesis by (auto simp: Authenticate_def intro!: bexI [of _ "au_tokens a ! m"])
qed

lemma wf_authenticator_unique:
  "wf_authenticator a \<Longrightarrow> t \<in> set (au_tokens a) \<Longrightarrow> u \<in> set (au_tokens a) \<Longrightarrow>
     tk_value t = tk_value u \<Longrightarrow> t = u"
  by (auto simp: wf_authenticator_def distinct_map inj_on_def)



lemma AuthorizeSubject_None_iff:
  "AuthorizeSubject ctx owner = None \<longleftrightarrow>
     (case ctx of None \<Rightarrow> True | Some i \<Rightarrow> IsAdmin i \<or> (owner \<noteq> [] \<and> owner = id_Subject i))"
  by (auto simp: AuthorizeSubject_def FromContext_def split: option.splits)

lemma Has_admin: "IsAdmin i \<Longrightarrow> Has i s"
  by (simp add: Has_def IsAdmin_def)

lemma Has_write_read: "Has i ScopeWrite \<Longrightarrow> Has i ScopeRead"
  by (auto simp: Has_def scope_defs split: if_splits)

lemma Has_ScopeAdmin_iff: "Has i ScopeAdmin \<longleftrightarrow> IsAdmin i"
  by (auto simp: Has_def IsAdmin_def scope_defs)

end
