(* ===== verification/Utf8.thy ===== *)
theory Utf8
  imports Prelude
begin

text \<open>
  Go's conversions between byte strings and runes: UTF-8 decoding in which every byte that starts
  no valid encoding becomes U+FFFD, and encoding. A rune is its code point.
\<close>

type_synonym rune = nat

abbreviation rn :: "char \<Rightarrow> rune" where
  "rn c \<equiv> of_char c"

section \<open>Runes\<close>

definition RuneError :: rune where
  "RuneError = 65533"

definition cont_byte :: "nat \<Rightarrow> bool" where
  "cont_byte b \<longleftrightarrow> 128 \<le> b \<and> b \<le> 191"

text \<open>The lowest and highest second byte a leading byte accepts, as in \<^verbatim>\<open>unicode/utf8\<close>.\<close>

definition second_ok :: "nat \<Rightarrow> nat \<Rightarrow> bool" where
  "second_ok b0 b1 =
     (if b0 = 224 then 160 \<le> b1 \<and> b1 \<le> 191
      else if b0 = 237 then 128 \<le> b1 \<and> b1 \<le> 159
      else if b0 = 240 then 144 \<le> b1 \<and> b1 \<le> 191
      else if b0 = 244 then 128 \<le> b1 \<and> b1 \<le> 143
      else cont_byte b1)"

fun decode_rune :: "nat list \<Rightarrow> rune \<times> nat list" where
  "decode_rune [] = (RuneError, [])"
| "decode_rune (b0 # bs) =
     (if b0 < 128 then (b0, bs)
      else if 194 \<le> b0 \<and> b0 \<le> 223 then
        (case bs of b1 # bs' \<Rightarrow>
           if cont_byte b1 then ((b0 - 192) * 64 + (b1 - 128), bs') else (RuneError, bs)
         | [] \<Rightarrow> (RuneError, bs))
      else if 224 \<le> b0 \<and> b0 \<le> 239 then
        (case bs of b1 # b2 # bs' \<Rightarrow>
           if second_ok b0 b1 \<and> cont_byte b2
           then ((b0 - 224) * 4096 + (b1 - 128) * 64 + (b2 - 128), bs') else (RuneError, bs)
         | _ \<Rightarrow> (RuneError, bs))
      else if 240 \<le> b0 \<and> b0 \<le> 244 then
        (case bs of b1 # b2 # b3 # bs' \<Rightarrow>
           if second_ok b0 b1 \<and> cont_byte b2 \<and> cont_byte b3
           then ((b0 - 240) * 262144 + (b1 - 128) * 4096 + (b2 - 128) * 64 + (b3 - 128), bs')
           else (RuneError, bs)
         | _ \<Rightarrow> (RuneError, bs))
      else (RuneError, bs))"

lemma decode_rune_length: "bs \<noteq> [] \<Longrightarrow> length (snd (decode_rune bs)) < length bs"
  by (cases bs) (auto split: list.splits)

function decode_runes :: "nat list \<Rightarrow> rune list" where
  "decode_runes [] = []"
| "decode_runes (b # bs) = (let (r, rest) = decode_rune (b # bs) in r # decode_runes rest)"
  by pat_completeness auto
termination
proof (relation "measure length")
  fix b :: nat and bs x r rest
  assume "x = decode_rune (b # bs)" "(r, rest) = x"
  then have "rest = snd (decode_rune (b # bs))" by (metis snd_conv)
  then show "(rest, b # bs) \<in> measure length"
    using decode_rune_length [of "b # bs"] by simp
qed simp

definition runes_of :: "string \<Rightarrow> rune list" where
  "runes_of s = decode_runes (map of_char s)"

lemma decode_runes_ascii: "(\<forall>b \<in> set bs. b < 128) \<Longrightarrow> decode_runes bs = bs"
  by (induction bs) auto

lemma runes_of_ascii: "(\<forall>c \<in> set s. (of_char c :: nat) < 128) \<Longrightarrow> runes_of s = map of_char s"
  by (simp add: runes_of_def decode_runes_ascii)

definition IsSpace :: "rune \<Rightarrow> bool" where
  "IsSpace r =
     (if r \<le> 255 then (9 \<le> r \<and> r \<le> 13) \<or> r = 32 \<or> r = 133 \<or> r = 160
      else r = 5760 \<or> (8192 \<le> r \<and> r \<le> 8202) \<or> r = 8232 \<or> r = 8233 \<or> r = 8239 \<or> r = 8287 \<or> r = 12288)"

text \<open>\<^verbatim>\<open>string(runes)\<close>: UTF-8 encoding, a surrogate or out-of-range value as U+FFFD.\<close>

definition encode_rune :: "rune \<Rightarrow> string" where
  "encode_rune r0 =
     (let r = (if (55296 \<le> r0 \<and> r0 \<le> 57343) \<or> 1114111 < r0 then RuneError else r0) in
      if r < 128 then [char_of r]
      else if r < 2048 then [char_of (192 + r div 64), char_of (128 + r mod 64)]
      else if r < 65536 then [char_of (224 + r div 4096), char_of (128 + r div 64 mod 64), char_of (128 + r mod 64)]
      else [char_of (240 + r div 262144), char_of (128 + r div 4096 mod 64),
            char_of (128 + r div 64 mod 64), char_of (128 + r mod 64)])"

definition utf8 :: "rune list \<Rightarrow> string" where
  "utf8 rs = concat (map encode_rune rs)"

end
