(* ===== verification/Sqlguard.thy ===== *)
theory Sqlguard
  imports Domain Utf8
begin

text \<open>
  The read-only statement guard, \<^verbatim>\<open>internal/sqlguard/sqlguard.go\<close>.

  A rune is its code point. \<open>runes_of\<close> is the conversion \<^verbatim>\<open>[]rune(sql)\<close>: UTF-8 decoding in
  which every byte that starts no valid encoding becomes U+FFFD. The position \<open>i\<close> the source
  keeps into \<^verbatim>\<open>src\<close> is represented by the remaining input \<^verbatim>\<open>src[i:]\<close>, so a function of the
  source that returns an index returns the rest of the input here. Words stay rune sequences:
  \<^verbatim>\<open>word.String()\<close> encodes them back, and distinct rune sequences have distinct encodings.

  The Unicode tables beyond Latin-1 (generated data of package \<^verbatim>\<open>unicode\<close>) are the argument
  \<open>u\<close> of the definitions; nothing below depends on their contents.
\<close>

record unicode_tables =
  tbl_Letter :: "rune \<Rightarrow> bool"
  tbl_Digit :: "rune \<Rightarrow> bool"
  tbl_Upper :: "rune \<Rightarrow> rune"

definition IsLetter :: "unicode_tables \<Rightarrow> rune \<Rightarrow> bool" where
  "IsLetter u r =
     (if r \<le> 255 then (65 \<le> r \<and> r \<le> 90) \<or> (97 \<le> r \<and> r \<le> 122) \<or> r = 170 \<or> r = 181 \<or> r = 186 \<or>
        (192 \<le> r \<and> r \<noteq> 215 \<and> r \<noteq> 247)
      else tbl_Letter u r)"

definition IsDigit :: "unicode_tables \<Rightarrow> rune \<Rightarrow> bool" where
  "IsDigit u r = (if r \<le> 255 then 48 \<le> r \<and> r \<le> 57 else tbl_Digit u r)"

definition ToUpper_rune :: "unicode_tables \<Rightarrow> rune \<Rightarrow> rune" where
  "ToUpper_rune u r = (if r < 128 then (if 97 \<le> r \<and> r \<le> 122 then r - 32 else r) else tbl_Upper u r)"

definition ToUpper :: "unicode_tables \<Rightarrow> rune list \<Rightarrow> rune list" where
  "ToUpper u w = map (ToUpper_rune u) w"

section \<open>The keyword tables\<close>

definition runes :: "string \<Rightarrow> rune list" where
  "runes s = map of_char s"

definition writeKeywords :: "rune list list" where
  "writeKeywords = map runes
     [''ALTER'', ''ANALYZE'', ''ATTACH'', ''BEGIN'', ''CALL'',
      ''COMMIT'', ''COPY'', ''CREATE'', ''DEALLOCATE'', ''DELETE'',
      ''DETACH'', ''DO'', ''DROP'', ''EXEC'', ''EXECUTE'',
      ''GRANT'', ''HANDLER'', ''IMPORT'', ''INSERT'', ''INTO'',
      ''KILL'', ''LOAD'', ''LOCK'', ''MERGE'', ''OPTIMIZE'',
      ''PREPARE'', ''RENAME'', ''REPLACE'', ''REVOKE'', ''ROLLBACK'',
      ''SAVEPOINT'', ''SET'', ''START'', ''SYSTEM'', ''TRUNCATE'',
      ''UPDATE'', ''UPSERT'', ''USE'', ''VACUUM'']"

definition readVerbs :: "rune list list" where
  "readVerbs = map runes
     [''SELECT'', ''WITH'', ''SHOW'', ''EXPLAIN'', ''DESC'',
      ''DESCRIBE'', ''TABLE'', ''VALUES'']"

section \<open>Scanning\<close>

definition word_rune :: "unicode_tables \<Rightarrow> rune \<Rightarrow> bool" where
  "word_rune u r \<longleftrightarrow> IsLetter u r \<or> IsDigit u r \<or> r = rn CHR ''_''"

text \<open>The rest after a literal: the argument starts just past the opening quote.\<close>

fun skipQuoted :: "rune \<Rightarrow> rune list \<Rightarrow> rune list" where
  "skipQuoted quote [] = []"
| "skipQuoted quote [x] = []"
| "skipQuoted quote (x # y # xs) =
     (if x = rn CHR 0x5C \<and> quote = rn CHR 0x27 then skipQuoted quote xs
      else if x = quote then (if y = quote then skipQuoted quote xs else y # xs)
      else skipQuoted quote (y # xs))"

text \<open>The rest after a block comment of nesting depth \<open>d\<close>.\<close>

fun skip_block :: "nat \<Rightarrow> rune list \<Rightarrow> rune list" where
  "skip_block 0 xs = xs"
| "skip_block (Suc d) [] = []"
| "skip_block (Suc d) [x] = []"
| "skip_block (Suc d) (x # y # xs) =
     (if x = rn CHR ''/'' \<and> y = rn CHR ''*'' then skip_block (Suc (Suc d)) xs
      else if x = rn CHR ''*'' \<and> y = rn CHR ''/'' then skip_block d xs
      else skip_block (Suc d) (y # xs))"

text \<open>The tag of a dollar quote opened at the head of the input, and the rest after it.\<close>

definition dollarTag :: "unicode_tables \<Rightarrow> rune list \<Rightarrow> (rune list \<times> rune list) option" where
  "dollarTag u src =
     (case src of [] \<Rightarrow> None
      | d # xs \<Rightarrow>
          (case dropWhile (word_rune u) xs of
             y # ys \<Rightarrow> if y = rn CHR ''$'' then Some (d # takeWhile (word_rune u) xs @ [y], ys) else None
           | [] \<Rightarrow> None))"

fun skipDollarQuoted :: "rune list \<Rightarrow> rune list \<Rightarrow> rune list" where
  "skipDollarQuoted [] tag = []"
| "skipDollarQuoted (x # xs) tag =
     (if take (length tag) (x # xs) = tag then drop (length tag) (x # xs)
      else skipDollarQuoted xs tag)"

record scan_state =
  ss_words :: "rune list list"
  ss_statements :: nat
  ss_word :: "rune list"
  ss_pending :: bool

definition flush :: "scan_state \<Rightarrow> scan_state" where
  "flush st = (if ss_word st \<noteq> [] then st\<lparr>ss_words := ss_words st @ [ss_word st], ss_word := []\<rparr> else st)"

lemma skipQuoted_length: "length (skipQuoted q xs) \<le> length xs"
  by (induction q xs rule: skipQuoted.induct) auto

lemma skip_block_length: "length (skip_block d xs) \<le> length xs"
  by (induction d xs rule: skip_block.induct) auto

lemma skipDollarQuoted_length: "length (skipDollarQuoted xs tag) \<le> length xs"
  by (induction xs tag rule: skipDollarQuoted.induct) auto

lemma dollarTag_length: "dollarTag u (c # rest) = Some (tag, after) \<Longrightarrow> length after < Suc (length rest)"
proof -
  assume "dollarTag u (c # rest) = Some (tag, after)"
  then obtain y where y: "dropWhile (word_rune u) rest = y # after"
    by (auto simp: dollarTag_def split: list.splits if_splits)
  have "length (dropWhile (word_rune u) rest) \<le> length rest" by (rule length_dropWhile_le)
  with y show ?thesis by simp
qed

function scan_loop :: "unicode_tables \<Rightarrow> rune list \<Rightarrow> scan_state \<Rightarrow> scan_state" where
  "scan_loop u [] st = st"
| "scan_loop u (c # rest) st =
     (if (c = rn CHR ''-'' \<and> take 1 rest = [rn CHR ''-'']) \<or> c = rn CHR ''#'' then
        scan_loop u (dropWhile (\<lambda>r. r \<noteq> 10) rest) (flush st)
      else if c = rn CHR ''/'' \<and> take 1 rest = [rn CHR ''*''] then
        scan_loop u (skip_block 1 (drop 1 rest)) (flush st)
      else if c = rn CHR ''$'' then
        (case dollarTag u (c # rest) of
           Some (tag, after) \<Rightarrow>
             scan_loop u (skipDollarQuoted after tag) ((flush st)\<lparr>ss_pending := True\<rparr>)
         | None \<Rightarrow> scan_loop u rest (st\<lparr>ss_word := ss_word st @ [c]\<rparr>))
      else if c = rn CHR 0x27 \<or> c = rn CHR 0x22 \<or> c = rn CHR 0x60 then
        scan_loop u (skipQuoted c rest) ((flush st)\<lparr>ss_pending := True\<rparr>)
      else if c = rn CHR '';'' then
        scan_loop u rest
          (let st = flush st in
           if ss_pending st then st\<lparr>ss_statements := Suc (ss_statements st), ss_pending := False\<rparr> else st)
      else if word_rune u c then
        scan_loop u rest (st\<lparr>ss_word := ss_word st @ [c], ss_pending := True\<rparr>)
      else
        scan_loop u rest
          (let st = flush st in if \<not> IsSpace c then st\<lparr>ss_pending := True\<rparr> else st))"
  by pat_completeness auto
termination
proof (relation "measure (\<lambda>(u, src, st). length src)", goal_cases)
  case 1 show ?case by simp
next
  case (2 u c rest st)
  have "length (dropWhile (\<lambda>r. r \<noteq> (10::nat)) rest) \<le> length rest" by (rule length_dropWhile_le)
  then show ?case by simp
next
  case (3 u c rest st)
  have "length (skip_block 1 (drop 1 rest)) \<le> length (drop 1 rest)" by (rule skip_block_length)
  then show ?case by simp
next
  case (5 u c rest st x2 tag after)
  then have "length after < Suc (length rest)" by (metis dollarTag_length)
  moreover have "length (skipDollarQuoted after tag) \<le> length after" by (rule skipDollarQuoted_length)
  ultimately show ?case by simp
next
  case (6 u c rest st)
  have "length (skipQuoted c rest) \<le> length rest" by (rule skipQuoted_length)
  then show ?case by simp
qed simp_all

definition scan_init :: scan_state where
  "scan_init = \<lparr>ss_words = [], ss_statements = 0, ss_word = [], ss_pending = False\<rparr>"

text \<open>The end of \<^verbatim>\<open>scan\<close>: the last word and the last statement.\<close>

definition scan_end :: "scan_state \<Rightarrow> rune list list \<times> nat" where
  "scan_end st =
     (let st = flush st in
      (ss_words st, if ss_pending st then Suc (ss_statements st) else ss_statements st))"

definition scan :: "unicode_tables \<Rightarrow> string \<Rightarrow> rune list list \<times> nat" where
  "scan u sql = scan_end (scan_loop u (runes_of sql) scan_init)"

section \<open>The guard\<close>

text \<open>
  The reason of the returned \<^verbatim>\<open>Error\<close>. The verb and the keyword are the bytes of the
  upper-cased word; they are kept as runes.
\<close>

datatype guard_error =
    StatementEmpty
  | MultipleStatements
  | NotReadVerb "rune list"
  | WriteKeyword "rune list"

definition ReadOnly :: "unicode_tables \<Rightarrow> string \<Rightarrow> guard_error option" where
  "ReadOnly u sql =
     (let (words, statements) = scan u sql in
      case words of
        [] \<Rightarrow> Some StatementEmpty
      | w0 # _ \<Rightarrow>
          if statements > 1 then Some MultipleStatements
          else let verb = ToUpper u w0 in
            if verb \<notin> set readVerbs then Some (NotReadVerb verb)
            else (case find (\<lambda>w. ToUpper u w \<in> set writeKeywords) words of
                    Some w \<Rightarrow> Some (WriteKeyword (ToUpper u w))
                  | None \<Rightarrow> None))"

text \<open>\<^verbatim>\<open>(*Error).Error\<close>, the text \<^verbatim>\<open>SubmitQuery\<close> puts into its validation error.\<close>

definition guard_reason :: "guard_error \<Rightarrow> string" where
  "guard_reason e =
     (case e of
        StatementEmpty \<Rightarrow> ''statement is empty''
      | MultipleStatements \<Rightarrow> ''multiple statements are not allowed''
      | NotReadVerb verb \<Rightarrow> ''only read-only statements are allowed, got '' @ utf8 verb
      | WriteKeyword w \<Rightarrow> ''only read-only statements are allowed, found '' @ utf8 w)"

section \<open>A lexical grammar of SQL text\<close>

text \<open>
  An independent description of the input: a statement text is a sequence of tokens, each
  rendered to runes. A block comment is a list of items, an item a rune that is neither
  \<^verbatim>\<open>*\<close> nor \<^verbatim>\<open>/\<close> or a nested comment. In a quoted token the quote is doubled, and in a
  single-quoted one so is the backslash.
\<close>

datatype citem = CText rune | CNest "citem list"

fun render_citem :: "citem \<Rightarrow> rune list" where
  "render_citem (CText r) = [r]"
| "render_citem (CNest cs) = [rn CHR ''/'', rn CHR ''*''] @ concat (map render_citem cs) @ [rn CHR ''*'', rn CHR ''/'']"

fun wf_citem :: "citem \<Rightarrow> bool" where
  "wf_citem (CText r) = (r \<noteq> rn CHR ''*'' \<and> r \<noteq> rn CHR ''/'')"
| "wf_citem (CNest cs) = (\<forall>i \<in> set cs. wf_citem i)"

datatype sql_token =
    TWord "rune list"
  | TQuoted rune "rune list"
  | TDollar "rune list" "rune list"
  | TLine bool "rune list"
  | TBlock "citem list"
  | TSemi
  | TSpace rune
  | TPunct rune

definition escape :: "rune \<Rightarrow> rune list \<Rightarrow> rune list" where
  "escape q body = concat (map (\<lambda>r. if r = q \<or> (r = rn CHR 0x5C \<and> q = rn CHR 0x27) then [r, r] else [r]) body)"

fun render :: "sql_token \<Rightarrow> rune list" where
  "render (TWord w) = w"
| "render (TQuoted q body) = q # escape q body @ [q]"
| "render (TDollar tag body) = (rn CHR ''$'' # tag @ [rn CHR ''$'']) @ body @ (rn CHR ''$'' # tag @ [rn CHR ''$''])"
| "render (TLine hash body) = (if hash then [rn CHR ''#''] else [rn CHR ''-'', rn CHR ''-'']) @ body @ [10]"
| "render (TBlock cs) = render_citem (CNest cs)"
| "render TSemi = [rn CHR '';'']"
| "render (TSpace r) = [r]"
| "render (TPunct r) = [r]"

definition special :: "rune \<Rightarrow> bool" where
  "special r \<longleftrightarrow> r \<in> {rn CHR ''#'', rn CHR ''$'', rn CHR 0x27, rn CHR 0x22, rn CHR 0x60, rn CHR '';''}"

fun wf_sql_token :: "unicode_tables \<Rightarrow> sql_token \<Rightarrow> bool" where
  "wf_sql_token u (TWord w) = (w \<noteq> [] \<and> (\<forall>r \<in> set w. word_rune u r))"
| "wf_sql_token u (TQuoted q body) = (q \<in> {rn CHR 0x27, rn CHR 0x22, rn CHR 0x60})"
| "wf_sql_token u (TDollar tag body) = ((\<forall>r \<in> set tag. word_rune u r) \<and> rn CHR ''$'' \<notin> set body)"
| "wf_sql_token u (TLine hash body) = (10 \<notin> set body)"
| "wf_sql_token u (TBlock cs) = (\<forall>i \<in> set cs. wf_citem i)"
| "wf_sql_token u TSemi = True"
| "wf_sql_token u (TSpace r) = (IsSpace r \<and> \<not> word_rune u r)"
| "wf_sql_token u (TPunct r) = (\<not> word_rune u r \<and> \<not> IsSpace r \<and> \<not> special r)"

text \<open>Two tokens may stand next to each other if their runes do not form another token.\<close>

fun may_follow :: "sql_token \<Rightarrow> sql_token \<Rightarrow> bool" where
  "may_follow (TWord w) t = (case t of TWord _ \<Rightarrow> False | _ \<Rightarrow> True)"
| "may_follow (TQuoted q body) t = (case t of TQuoted q' _ \<Rightarrow> q' \<noteq> q | _ \<Rightarrow> True)"
| "may_follow (TPunct r) t =
     (case t of
        TPunct r' \<Rightarrow> \<not> (r = rn CHR ''-'' \<and> r' = rn CHR ''-'') \<and> \<not> (r = rn CHR ''/'' \<and> r' = rn CHR ''*'')
      | TLine hash _ \<Rightarrow> hash \<or> r \<noteq> rn CHR ''-''
      | _ \<Rightarrow> True)"
| "may_follow _ t = True"

fun wf_tokens :: "unicode_tables \<Rightarrow> sql_token list \<Rightarrow> bool" where
  "wf_tokens u [] = True"
| "wf_tokens u [t] = wf_sql_token u t"
| "wf_tokens u (t # t' # ts) = (wf_sql_token u t \<and> may_follow t t' \<and> wf_tokens u (t' # ts))"

text \<open>What a token sequence means: its bare words, and the number of non-empty statements.\<close>

fun token_words :: "sql_token list \<Rightarrow> rune list list" where
  "token_words [] = []"
| "token_words (TWord w # ts) = w # token_words ts"
| "token_words (_ # ts) = token_words ts"

fun is_content :: "sql_token \<Rightarrow> bool" where
  "is_content (TWord w) = True"
| "is_content (TQuoted q body) = True"
| "is_content (TDollar tag body) = True"
| "is_content (TPunct r) = True"
| "is_content _ = False"

fun count_statements :: "bool \<Rightarrow> sql_token list \<Rightarrow> nat" where
  "count_statements b [] = (if b then 1 else 0)"
| "count_statements b (TSemi # ts) = (if b then 1 else 0) + count_statements False ts"
| "count_statements b (t # ts) = count_statements (b \<or> is_content t) ts"

section \<open>The scanner reads the grammar\<close>

text \<open>The effect of one token on the scanner's state.\<close>

fun tok_step :: "sql_token \<Rightarrow> scan_state \<Rightarrow> scan_state" where
  "tok_step (TWord w) st = st\<lparr>ss_word := ss_word st @ w, ss_pending := True\<rparr>"
| "tok_step (TQuoted q body) st = (flush st)\<lparr>ss_pending := True\<rparr>"
| "tok_step (TDollar tag body) st = (flush st)\<lparr>ss_pending := True\<rparr>"
| "tok_step (TLine hash body) st = flush st"
| "tok_step (TBlock cs) st = flush st"
| "tok_step TSemi st =
     (let st = flush st in
      if ss_pending st then st\<lparr>ss_statements := Suc (ss_statements st), ss_pending := False\<rparr> else st)"
| "tok_step (TSpace r) st = flush st"
| "tok_step (TPunct r) st = (flush st)\<lparr>ss_pending := True\<rparr>"

declare scan_loop.simps [simp del]
lemmas scan_loop_Nil [simp] = scan_loop.simps(1)
lemmas scan_loop_Cons = scan_loop.simps(2)

lemma flush_flush [simp]: "flush (flush st) = flush st"
  by (simp add: flush_def)

lemma word_rune_not_special: "word_rune u r \<Longrightarrow> \<not> special r \<and> r \<noteq> rn CHR ''-'' \<and> r \<noteq> rn CHR ''/'' \<and> r \<noteq> rn CHR ''*''"
  by (auto simp: word_rune_def IsLetter_def IsDigit_def special_def)

lemma IsSpace_not_special: "IsSpace r \<Longrightarrow> \<not> special r \<and> r \<noteq> rn CHR ''-'' \<and> r \<noteq> rn CHR ''/''"
  by (auto simp: IsSpace_def special_def)

lemma skipQuoted_escape:
  assumes "q \<in> {rn CHR 0x27, rn CHR 0x22, rn CHR 0x60}" and "take 1 rest \<noteq> [q]"
  shows "skipQuoted q (escape q body @ q # rest) = rest"
proof (induction body)
  case Nil
  then show ?case using assms by (cases rest) (auto simp: escape_def)
next
  case (Cons r body)
  have "\<exists>x xs. escape q body @ q # rest = x # xs"
    by (metis append_is_Nil_conv list.exhaust list.discI)
  then obtain x xs where xs: "escape q body @ q # rest = x # xs" by blast
  show ?case
  proof (cases "r = q \<or> (r = rn CHR 0x5C \<and> q = rn CHR 0x27)")
    case True
    then have "escape q (r # body) = r # r # escape q body" by (simp add: escape_def)
    then show ?thesis using True Cons assms by auto
  next
    case False
    then have "escape q (r # body) = r # escape q body" by (auto simp: escape_def)
    then show ?thesis using False Cons xs by auto
  qed
qed

lemma skip_block_text:
  "r \<noteq> rn CHR ''*'' \<Longrightarrow> r \<noteq> rn CHR ''/'' \<Longrightarrow> rest \<noteq> [] \<Longrightarrow> skip_block (Suc d) (r # rest) = skip_block (Suc d) rest"
  by (cases rest) auto

lemma skip_block_open: "skip_block (Suc d) ([rn CHR ''/'', rn CHR ''*''] @ rest) = skip_block (Suc (Suc d)) rest"
  by simp

lemma skip_block_close: "skip_block (Suc d) ([rn CHR ''*'', rn CHR ''/''] @ rest) = skip_block d rest"
  by simp

lemma skip_block_citem:
  "wf_citem i \<Longrightarrow> rest \<noteq> [] \<Longrightarrow> skip_block (Suc d) (render_citem i @ rest) = skip_block (Suc d) rest"
proof (induction i arbitrary: d rest)
  case (CText r)
  then show ?case by (simp add: skip_block_text)
next
  case (CNest cs)
  have items: "skip_block (Suc n) (concat (map render_citem js) @ rs) = skip_block (Suc n) rs"
    if "set js \<subseteq> set cs" "rs \<noteq> []" for js n rs
    using that
  proof (induction js)
    case (Cons j js)
    then have "skip_block (Suc n) (render_citem j @ (concat (map render_citem js) @ rs))
      = skip_block (Suc n) (concat (map render_citem js) @ rs)"
      using CNest.IH [of j "concat (map render_citem js) @ rs" n] CNest.prems by auto
    with Cons show ?case by simp
  qed simp
  have "skip_block (Suc d) (render_citem (CNest cs) @ rest)
    = skip_block (Suc (Suc d)) (concat (map render_citem cs) @ ([rn CHR ''*'', rn CHR ''/''] @ rest))"
    by simp
  also have "\<dots> = skip_block (Suc (Suc d)) ([rn CHR ''*'', rn CHR ''/''] @ rest)"
    by (rule items) simp_all
  also have "\<dots> = skip_block (Suc d) rest" by simp
  finally show ?case .
qed

lemma skip_block_citems:
  "(\<forall>i \<in> set cs. wf_citem i) \<Longrightarrow> rest \<noteq> [] \<Longrightarrow>
     skip_block (Suc d) (concat (map render_citem cs) @ rest) = skip_block (Suc d) rest"
  by (induction cs) (auto simp: skip_block_citem)

lemma dollarTag_render:
  "(\<forall>r \<in> set tag. word_rune u r) \<Longrightarrow>
     dollarTag u (d # tag @ rn CHR ''$'' # rest) = Some (d # tag @ [rn CHR ''$''], rest)"
  using word_rune_not_special [of u "rn CHR ''$''"]
  by (auto simp: dollarTag_def special_def dropWhile_append takeWhile_append split: list.splits)

lemma skipDollarQuoted_render:
  "rn CHR ''$'' \<notin> set body \<Longrightarrow>
     skipDollarQuoted (body @ (rn CHR ''$'' # tag) @ rest) (rn CHR ''$'' # tag) = rest"
  by (induction body) auto

lemma scan_loop_word:
  "(\<forall>r \<in> set w. word_rune u r) \<Longrightarrow>
     scan_loop u (w @ rest) st = scan_loop u rest (if w = [] then st else st\<lparr>ss_word := ss_word st @ w, ss_pending := True\<rparr>)"
proof (induction w arbitrary: st)
  case (Cons r w)
  then have "scan_loop u (r # w @ rest) st = scan_loop u (w @ rest) (st\<lparr>ss_word := ss_word st @ [r], ss_pending := True\<rparr>)"
    using word_rune_not_special [of u r] by (simp add: scan_loop_Cons special_def)
  with Cons show ?case by simp
qed simp

text \<open>The condition \<open>may_follow\<close> puts on the rune after a token.\<close>

definition next_ok :: "sql_token \<Rightarrow> rune list \<Rightarrow> bool" where
  "next_ok t rest \<longleftrightarrow>
     (case t of
        TQuoted q body \<Rightarrow> take 1 rest \<noteq> [q]
      | TPunct r \<Rightarrow> \<not> (r = rn CHR ''-'' \<and> take 1 rest = [rn CHR ''-'']) \<and>
                    \<not> (r = rn CHR ''/'' \<and> take 1 rest = [rn CHR ''*''])
      | _ \<Rightarrow> True)"

lemma scan_loop_token:
  assumes "wf_sql_token u t" and "next_ok t rest"
  shows "scan_loop u (render t @ rest) st = scan_loop u rest (tok_step t st)"
proof (cases t)
  case (TWord w)
  with assms scan_loop_word [of w u rest st] show ?thesis by simp
next
  case (TQuoted q body)
  with assms skipQuoted_escape [of q rest body] show ?thesis
    by (auto simp: scan_loop_Cons next_ok_def)
next
  case (TDollar tag body)
  with assms dollarTag_render [of tag u "rn CHR ''$''" "body @ (rn CHR ''$'' # tag @ [rn CHR ''$'']) @ rest"]
    skipDollarQuoted_render [of body "tag @ [rn CHR ''$'']" rest] show ?thesis
    by (simp add: scan_loop_Cons)
next
  case (TLine hash body)
  with assms have nl: "scan_loop u (10 # rest) st' = scan_loop u rest (flush st')" for st'
    by (simp add: scan_loop_Cons word_rune_def IsLetter_def IsDigit_def IsSpace_def)
  have "dropWhile (\<lambda>r. r \<noteq> 10) (body @ 10 # rest) = 10 # rest"
    using TLine assms by (auto simp: dropWhile_append)
  with TLine nl show ?thesis by (cases hash) (simp_all add: scan_loop_Cons)
next
  case (TBlock cs)
  with assms skip_block_citems [of cs "[rn CHR ''*'', rn CHR ''/''] @ rest" 0] show ?thesis
    by (simp add: scan_loop_Cons)
next
  case TSemi
  then show ?thesis by (simp add: scan_loop_Cons)
next
  case (TSpace r)
  with assms IsSpace_not_special [of r] show ?thesis by (auto simp: scan_loop_Cons special_def)
next
  case (TPunct r)
  with assms show ?thesis by (auto simp: scan_loop_Cons special_def next_ok_def)
qed

lemma render_nonempty [simp]: "wf_sql_token u t \<Longrightarrow> render t \<noteq> []"
  by (cases t) auto

lemma word_head: "wf_sql_token u (TWord w) \<Longrightarrow> word_rune u (hd w)"
  by (cases w) auto

lemma may_follow_next_ok:
  assumes "wf_sql_token u t" and "wf_sql_token u t'" and "may_follow t t'"
  shows "next_ok t (render t' @ rest)"
proof -
  have hd: "take 1 (render t' @ rest) = [hd (render t')]"
    using render_nonempty [OF assms(2)] by (cases "render t'") auto
  show ?thesis
  proof (cases t')
    case (TWord w)
    then have "word_rune u (hd (render t'))" using assms(2) word_head by simp
    from word_rune_not_special [OF this] assms(1) hd show ?thesis
      by (cases t) (auto simp: next_ok_def special_def)
  next
    case (TSpace r)
    with assms hd IsSpace_not_special [of r] show ?thesis
      by (cases t) (auto simp: next_ok_def special_def IsSpace_def)
  qed (use assms hd in \<open>cases t; auto simp: next_ok_def special_def\<close>)+
qed

lemma next_ok_Nil [simp]: "next_ok t []"
  by (cases t) (auto simp: next_ok_def)

lemma scan_loop_tokens:
  "wf_tokens u toks \<Longrightarrow> scan_loop u (concat (map render toks)) st = fold tok_step toks st"
proof (induction u toks arbitrary: st rule: wf_tokens.induct)
  case (2 u t)
  then show ?case using scan_loop_token [of u t "[]" st] by simp
next
  case (3 u t t' ts)
  have "wf_sql_token u t'" using 3 by (cases ts) auto
  with 3 have "next_ok t (render t' @ concat (map render ts))"
    using may_follow_next_ok by auto
  with 3 scan_loop_token [of u t "concat (map render (t' # ts))" st] show ?case by simp
qed simp

text \<open>No two words next to each other, and none after an unfinished word.\<close>

fun words_apart :: "bool \<Rightarrow> sql_token list \<Rightarrow> bool" where
  "words_apart b [] = True"
| "words_apart b (TWord w # ts) = (\<not> b \<and> w \<noteq> [] \<and> words_apart True ts)"
| "words_apart b (_ # ts) = words_apart False ts"

lemma wf_tokens_apart: "wf_tokens u toks \<Longrightarrow> words_apart False toks"
proof (induction u toks rule: wf_tokens.induct)
  case (2 u t)
  then show ?case by (cases t) auto
next
  case (3 u t t' ts)
  then show ?case by (cases t; cases t'; simp)
qed simp

lemma scan_end_words:
  "words_apart (ss_word st \<noteq> []) toks \<Longrightarrow>
     fst (scan_end (fold tok_step toks st))
       = ss_words st @ (if ss_word st = [] then [] else [ss_word st]) @ token_words toks"
proof (induction toks arbitrary: st)
  case Nil
  then show ?case by (simp add: scan_end_def flush_def Let_def)
next
  case (Cons t ts)
  have "words_apart (ss_word (tok_step t st) \<noteq> []) ts"
    using Cons.prems by (cases t) (auto simp: flush_def Let_def)
  from Cons.IH [OF this] Cons.prems show ?case
    by (cases t) (auto simp: flush_def Let_def)
qed

lemma scan_end_statements:
  "snd (scan_end (fold tok_step toks st)) = ss_statements st + count_statements (ss_pending st) toks"
proof (induction toks arbitrary: st)
  case Nil
  then show ?case by (simp add: scan_end_def flush_def Let_def)
next
  case (Cons t ts)
  then show ?case by (cases t) (auto simp: flush_def Let_def)
qed

lemma scan_tokens:
  assumes "wf_tokens u toks" and "runes_of sql = concat (map render toks)"
  shows "scan u sql = (token_words toks, count_statements False toks)"
proof (rule prod_eqI)
  show "fst (scan u sql) = fst (token_words toks, count_statements False toks)"
    using assms scan_end_words [of scan_init toks] wf_tokens_apart [of u toks]
    by (simp add: scan_def scan_loop_tokens scan_init_def)
  show "snd (scan u sql) = snd (token_words toks, count_statements False toks)"
    using assms scan_end_statements [of toks scan_init]
    by (simp add: scan_def scan_loop_tokens scan_init_def)
qed

lemma ReadOnly_None_iff:
  "ReadOnly u sql = None \<longleftrightarrow>
     (\<exists>w ws. fst (scan u sql) = w # ws \<and> ToUpper u w \<in> set readVerbs) \<and> snd (scan u sql) \<le> 1 \<and>
     (\<forall>w \<in> set (fst (scan u sql)). ToUpper u w \<notin> set writeKeywords)"
  by (cases "scan u sql")
    (auto simp: ReadOnly_def Let_def find_None_iff find_Some_iff split: list.splits option.splits)

text \<open>
  C12. The guard reads SQL text correctly. For every text that is a sequence of well-formed
  tokens - bare words, literals and quoted identifiers, dollar-quoted strings, line comments,
  nested block comments, semicolons, spaces and punctuation - the scanner returns exactly the
  bare words and the number of non-empty statements, so nothing inside a comment, a literal,
  a quoted identifier or a dollar quote contributes a word or a statement; and the guard
  accepts exactly the texts of at most one statement whose first bare word is a read verb and
  none of whose bare words is a write keyword, both without regard to case.
\<close>

theorem guard_reads_tokens:
  assumes "wf_tokens u toks" and "runes_of sql = concat (map render toks)"
  shows "scan u sql = (token_words toks, count_statements False toks)
    \<and> (ReadOnly u sql = None) =
        ((\<exists>w ws. token_words toks = w # ws \<and> ToUpper u w \<in> set readVerbs)
         \<and> count_statements False toks \<le> 1
         \<and> (\<forall>w \<in> set (token_words toks). ToUpper u w \<notin> set writeKeywords))"
  using scan_tokens [OF assms] by (simp add: ReadOnly_None_iff)

definition latin_tables :: unicode_tables where
  "latin_tables = \<lparr>tbl_Letter = (\<lambda>_. False), tbl_Digit = (\<lambda>_. False), tbl_Upper = (\<lambda>r. r)\<rparr>"

definition sample_tokens :: "sql_token list" where
  "sample_tokens =
     [TWord (runes ''select''), TSpace 32, TQuoted 39 (runes ''drop table t''), TSpace 32,
      TBlock [CText 32, CNest [CText 100], CText 32], TWord (runes ''from''), TSpace 32, TWord (runes ''t''), TSemi]"

definition sample_sql :: string where
  "sample_sql = ''select '' @ [CHR 0x27] @ ''drop table t'' @ [CHR 0x27] @ '' /* /*d*/ */from t;''"

theorem guard_reads_tokens_witness:
  "wf_tokens latin_tables sample_tokens \<and> runes_of sample_sql = concat (map render sample_tokens)
   \<and> scan latin_tables sample_sql = ([runes ''select'', runes ''from'', runes ''t''], 1)
   \<and> ReadOnly latin_tables sample_sql = None"
proof -
  have wf: "wf_tokens latin_tables sample_tokens" by code_simp
  have r: "runes_of sample_sql = concat (map render sample_tokens)" by code_simp
  have w: "token_words sample_tokens = [runes ''select'', runes ''from'', runes ''t'']" by code_simp
  have c: "count_statements False sample_tokens = 1" by code_simp
  have k: "ToUpper latin_tables (runes ''select'') \<in> set readVerbs"
    "\<forall>w \<in> set [runes ''select'', runes ''from'', runes ''t'']. ToUpper latin_tables w \<notin> set writeKeywords"
    by code_simp+
  show ?thesis using wf r guard_reads_tokens [OF wf r] k by (simp add: w c)
qed

section \<open>Texts the guard accepts although an engine would run a write\<close>

text \<open>
  The scanner reads one lexical grammar for four dialects. Three texts in which a write
  keyword is live in one engine and hidden from the scanner: a MySQL executable comment; a
  PostgreSQL standard-conforming literal that ends in a backslash; and text after PostgreSQL's
  operator \<^verbatim>\<open>#\<close>.
\<close>

definition mysql_executable_comment :: string where
  "mysql_executable_comment = ''SELECT a /*! INTO OUTFILE x */ FROM t''"

definition postgres_backslash_literal :: string where
  "postgres_backslash_literal =
     ''WITH y AS (SELECT '' @ [CHR 0x27, CHR 0x5C, CHR 0x27] @
     ''), d AS (DELETE FROM t RETURNING 1) SELECT '' @ [CHR 0x27, CHR 0x27]"

definition postgres_hash_operator :: string where
  "postgres_hash_operator = ''SELECT 1 # 2 INTO t2 FROM t''"

lemma guard_dialect_gaps:
  "ReadOnly latin_tables mysql_executable_comment = None"
  "ReadOnly latin_tables postgres_backslash_literal = None"
  "ReadOnly latin_tables postgres_hash_operator = None"
  by code_simp+

end
