(* ===== verification/Config.thy ===== *)
theory Config
  imports Complex_Main Domain
begin

text \<open>
  The configuration, \<^verbatim>\<open>internal/config/config.go\<close> and \<^verbatim>\<open>diff.go\<close>: the structs as records,
  environment expansion over the parsed YAML tree, validation with its defaults, the
  atomically swapped snapshot, and the two comparisons a reload reports.

  Reading the file, the YAML parser and its decoder are not under \<^verbatim>\<open>src/\<close>: they are arguments
  of \<open>config_Reload\<close>. A slice field that is compared with \<^verbatim>\<open>reflect.DeepEqual\<close> is an option,
  \<open>None\<close> being the nil slice, since that comparison tells nil from empty. A \<^verbatim>\<open>float64\<close> is
  the rational number it denotes; the non-finite values are not represented.
\<close>

section \<open>The configuration structs\<close>

record InstanceConfig =
  in_ID :: string
  in_MetaStore :: string
  in_RedisAddr :: string
  in_RedisPassword :: string
  in_RedisDB :: int
  in_DefaultStorage :: string
  in_HeartbeatTTL :: duration
  in_GCInterval :: duration
  in_OTLPEndpoint :: string

record TLSConfig =
  tls_CertFile :: string
  tls_KeyFile :: string
  tls_AllowH2C :: bool

definition TLS_Enabled :: "TLSConfig \<Rightarrow> bool" where
  "TLS_Enabled t \<longleftrightarrow> tls_CertFile t \<noteq> [] \<and> tls_KeyFile t \<noteq> []"

record RateLimitConfig =
  rl_RequestsPerSecond :: rat
  rl_Burst :: int

record ServerConfig =
  sv_RESTAddr :: string
  sv_GRPCAddr :: string
  sv_MaxRequestBytes :: int
  sv_RequestTimeout :: duration
  sv_ReadHeaderTimeout :: duration
  sv_IdleTimeout :: duration
  sv_WSAllowedOrigins :: "string list option"
  sv_TrustedProxyCount :: int
  sv_AdminAddr :: string
  sv_TLS :: TLSConfig
  sv_RateLimit :: RateLimitConfig

record AuthTokenConfig =
  at_Subject :: string
  at_Value :: string
  at_ValueEnv :: string
  at_Scopes :: "string list option"

record AuthConfig =
  au_Tokens :: "AuthTokenConfig list option"

record DefaultsConfig =
  df_ResultTTL :: duration
  df_QueryTimeout :: duration
  df_MaxConcurrentQueries :: int
  df_AllowWrites :: bool

record StorageFSConfig =
  fs_Root :: string

record StorageS3Config =
  s3_Bucket :: string
  s3_Region :: string
  s3_Endpoint :: string
  s3_KeyID :: string
  s3_Secret :: string

record StorageClickHouseConfig =
  ch_DSN :: string
  ch_Table :: string

record StorageConfig =
  sc_FS :: StorageFSConfig
  sc_S3 :: StorageS3Config
  sc_ClickHouse :: StorageClickHouseConfig

record DatabaseConfig =
  db_ID :: string
  db_Engine :: string
  db_DSN :: string
  db_DisplayName :: string
  db_MaxConns :: int

record Config =
  cf_Instance :: InstanceConfig
  cf_Server :: ServerConfig
  cf_Auth :: "AuthConfig option"
  cf_Defaults :: DefaultsConfig
  cf_Storage :: StorageConfig
  cf_Databases :: "DatabaseConfig list"

definition elems :: "'a list option \<Rightarrow> 'a list" where
  "elems s = (case s of None \<Rightarrow> [] | Some xs \<Rightarrow> xs)"

definition zero_config :: Config where
  "zero_config =
     \<lparr>cf_Instance = \<lparr>in_ID = [], in_MetaStore = [], in_RedisAddr = [], in_RedisPassword = [],
        in_RedisDB = 0, in_DefaultStorage = [], in_HeartbeatTTL = 0, in_GCInterval = 0, in_OTLPEndpoint = []\<rparr>,
      cf_Server = \<lparr>sv_RESTAddr = [], sv_GRPCAddr = [], sv_MaxRequestBytes = 0, sv_RequestTimeout = 0,
        sv_ReadHeaderTimeout = 0, sv_IdleTimeout = 0, sv_WSAllowedOrigins = None, sv_TrustedProxyCount = 0,
        sv_AdminAddr = [], sv_TLS = \<lparr>tls_CertFile = [], tls_KeyFile = [], tls_AllowH2C = False\<rparr>,
        sv_RateLimit = \<lparr>rl_RequestsPerSecond = 0, rl_Burst = 0\<rparr>\<rparr>,
      cf_Auth = None,
      cf_Defaults = \<lparr>df_ResultTTL = 0, df_QueryTimeout = 0, df_MaxConcurrentQueries = 0, df_AllowWrites = False\<rparr>,
      cf_Storage = \<lparr>sc_FS = \<lparr>fs_Root = []\<rparr>,
        sc_S3 = \<lparr>s3_Bucket = [], s3_Region = [], s3_Endpoint = [], s3_KeyID = [], s3_Secret = []\<rparr>,
        sc_ClickHouse = \<lparr>ch_DSN = [], ch_Table = []\<rparr>\<rparr>,
      cf_Databases = []\<rparr>"

section \<open>Environment expansion\<close>

text \<open>The part of \<^verbatim>\<open>yaml.Node\<close> the walk reads and writes; \<open>ZeroNode\<close> is the kind of an empty document.\<close>

datatype node_kind = ZeroNode | DocumentNode | SequenceNode | MappingNode | ScalarNode | AliasNode

datatype Node = Node (nd_Kind: node_kind) (nd_Tag: string) (nd_Value: string) (nd_Style: nat) (nd_Content: "Node list")

definition name_start :: "char \<Rightarrow> bool" where
  "name_start c \<longleftrightarrow>
     (let n = (of_char c :: nat) in (65 \<le> n \<and> n \<le> 90) \<or> (97 \<le> n \<and> n \<le> 122) \<or> c = CHR ''_'')"

definition name_char :: "char \<Rightarrow> bool" where
  "name_char c \<longleftrightarrow> name_start c \<or> (let n = (of_char c :: nat) in 48 \<le> n \<and> n \<le> 57)"

text \<open>A match of \<^verbatim>\<open>envRef\<close> at the head of the text: the variable name and the text after it.\<close>

definition envRef :: "string \<Rightarrow> (string \<times> string) option" where
  "envRef s =
     (case s of
        d # b # t \<Rightarrow>
          if d = CHR ''$'' \<and> b = CHR ''{'' then
            (let name = takeWhile name_char t in
             case dropWhile name_char t of
               c # rest \<Rightarrow> if c = CHR ''}'' \<and> name \<noteq> [] \<and> name_start (hd name) then Some (name, rest) else None
             | [] \<Rightarrow> None)
          else None
      | _ \<Rightarrow> None)"

lemma envRef_length: "envRef s = Some (name, rest) \<Longrightarrow> length rest < length s"
proof -
  assume "envRef s = Some (name, rest)"
  then obtain d b t c where s: "s = d # b # t" and r: "dropWhile name_char t = c # rest"
    by (auto simp: envRef_def Let_def split: list.splits if_splits)
  have "length (dropWhile name_char t) \<le> length t" by (rule length_dropWhile_le)
  with s r show ?thesis by simp
qed

definition ref_text :: "string \<Rightarrow> string" where
  "ref_text name = ''${'' @ name @ ''}''"

text \<open>\<^verbatim>\<open>ReplaceAllStringFunc\<close> with the closure of the source: the new text and the unset names.\<close>

function expand_refs :: "(string \<Rightarrow> string option) \<Rightarrow> string \<Rightarrow> string \<times> string list" where
  "expand_refs lookup [] = ([], [])"
| "expand_refs lookup (c # s) =
     (case envRef (c # s) of
        Some (name, rest) \<Rightarrow>
          (let (out, missing) = expand_refs lookup rest in
           case lookup name of
             Some v \<Rightarrow> (v @ out, missing)
           | None \<Rightarrow> (ref_text name @ out, name # missing))
      | None \<Rightarrow> (let (out, missing) = expand_refs lookup s in (c # out, missing)))"
  by pat_completeness auto
termination
  by (relation "measure (\<lambda>(l, s). length s)") (auto dest: envRef_length)

fun walk :: "(string \<Rightarrow> string option) \<Rightarrow> Node \<Rightarrow> Node \<times> string list"
and walk_list :: "(string \<Rightarrow> string option) \<Rightarrow> Node list \<Rightarrow> Node list \<times> string list" where
  "walk lookup (Node k tag v style content) =
     (if k = ScalarNode then
        (let (expanded, missing) = expand_refs lookup v in
         if expanded \<noteq> v then (Node k [] expanded 0 content, missing)
         else (Node k tag v style content, missing))
      else (let (content', missing) = walk_list lookup content in (Node k tag v style content', missing)))"
| "walk_list lookup [] = ([], [])"
| "walk_list lookup (n # ns) =
     (let (n', m) = walk lookup n; (ns', ms) = walk_list lookup ns in (n' # ns', m @ ms))"

definition expandEnv :: "(string \<Rightarrow> string option) \<Rightarrow> Node \<Rightarrow> go_error + Node" where
  "expandEnv lookup node =
     (let (node', missing) = walk lookup node in
      if missing \<noteq> []
      then Inl (ErrorString (''unset environment variables referenced by the config: '' @ strings_Join missing '', ''))
      else Inr node')"

section \<open>Validation\<close>

fun check_databases :: "string list \<Rightarrow> DatabaseConfig list \<Rightarrow> go_error option" where
  "check_databases seen [] = None"
| "check_databases seen (db # dbs) =
     (if db_ID db = [] then Some (ErrorString ''database ID cannot be empty'')
      else if db_ID db \<in> set seen then Some (ErrorString (''duplicate database ID: '' @ db_ID db))
      else if db_Engine db \<noteq> ''postgres'' \<and> db_Engine db \<noteq> ''mysql'' \<and> db_Engine db \<noteq> ''clickhouse'' \<and>
              db_Engine db \<noteq> ''oracle''
        then Some (ErrorString (''unsupported database engine: '' @ db_Engine db @ '' for db '' @ db_ID db))
      else if db_DSN db = [] then Some (ErrorString (''dsn must be provided for database '' @ db_ID db))
      else check_databases (db_ID db # seen) dbs)"

text \<open>The switch over the default storage backend.\<close>

definition check_storage :: "Config \<Rightarrow> go_error option" where
  "check_storage cfg =
     (let ds = in_DefaultStorage (cf_Instance cfg) in
      if ds = ''fs'' then None
      else if ds = ''s3'' then
        (if s3_Bucket (sc_S3 (cf_Storage cfg)) = []
         then Some (ErrorString ''storage.s3.bucket must be set when default_storage is s3'') else None)
      else if ds = ''clickhouse'' then
        (if ch_DSN (sc_ClickHouse (cf_Storage cfg)) = []
         then Some (ErrorString ''storage.clickhouse.dsn must be set when default_storage is clickhouse'') else None)
      else Some (ErrorString (''unsupported instance.default_storage: '' @ ds)))"

definition quoted :: "string \<Rightarrow> string" where
  "quoted s = [CHR 0x27] @ s @ [CHR 0x27]"

definition orelse :: "'a \<Rightarrow> 'a \<Rightarrow> 'a \<Rightarrow> 'a" where
  "orelse zero x d = (if x = zero then d else x)"

definition instance_defaults :: "InstanceConfig \<Rightarrow> InstanceConfig" where
  "instance_defaults i =
     i\<lparr>in_HeartbeatTTL := orelse 0 (in_HeartbeatTTL i) (5 * Second),
       in_GCInterval := orelse 0 (in_GCInterval i) Minute\<rparr>"

definition server_defaults :: "ServerConfig \<Rightarrow> ServerConfig" where
  "server_defaults s =
     s\<lparr>sv_RESTAddr := orelse [] (sv_RESTAddr s) '':8080'',
       sv_GRPCAddr := orelse [] (sv_GRPCAddr s) '':9090'',
       sv_MaxRequestBytes := orelse 0 (sv_MaxRequestBytes s) 1048576,
       sv_RequestTimeout := orelse 0 (sv_RequestTimeout s) (60 * Second),
       sv_ReadHeaderTimeout := orelse 0 (sv_ReadHeaderTimeout s) (10 * Second),
       sv_IdleTimeout := orelse 0 (sv_IdleTimeout s) (120 * Second)\<rparr>"

definition max_gc_interval :: duration where
  "max_gc_interval = 58 * 365 * 24 * Hour"

definition validate :: "Config \<Rightarrow> go_error + Config" where
  "validate cfg0 =
     (if in_ID (cf_Instance cfg0) = [] then Inl (ErrorString ''instance.id must not be empty'')
      else if in_MetaStore (cf_Instance cfg0) \<noteq> ''redis'' \<and> in_MetaStore (cf_Instance cfg0) \<noteq> ''memory''
        then Inl (ErrorString (''instance.metastore must be '' @ quoted ''redis'' @ '' or '' @ quoted ''memory''))
      else if in_MetaStore (cf_Instance cfg0) = ''redis'' \<and> in_RedisAddr (cf_Instance cfg0) = []
        then Inl (ErrorString ''instance.redis_addr must be specified when metastore is redis'')
      else let cfg = cfg0\<lparr>cf_Instance := (cf_Instance cfg0)
                 \<lparr>in_DefaultStorage := orelse [] (in_DefaultStorage (cf_Instance cfg0)) ''fs''\<rparr>\<rparr> in
      (case check_storage cfg of Some e \<Rightarrow> Inl e
       | None \<Rightarrow>
         let cfg = cfg\<lparr>cf_Instance := instance_defaults (cf_Instance cfg)\<rparr> in
         if in_GCInterval (cf_Instance cfg) > max_gc_interval
           then Inl (ErrorString ''instance.gc_interval must not exceed 58 years'')
         else let cfg = cfg\<lparr>cf_Defaults := (cf_Defaults cfg)
                    \<lparr>df_ResultTTL := orelse 0 (df_ResultTTL (cf_Defaults cfg)) (24 * Hour)\<rparr>,
                  cf_Server := server_defaults (cf_Server cfg)\<rparr> in
         if (case cf_Auth cfg of Some a \<Rightarrow> elems (au_Tokens a) = [] | None \<Rightarrow> False)
           then Inl (ErrorString ''auth is configured but auth.tokens is empty'')
         else if (tls_CertFile (sv_TLS (cf_Server cfg)) = []) \<noteq> (tls_KeyFile (sv_TLS (cf_Server cfg)) = [])
           then Inl (ErrorString ''server.tls needs both cert_file and key_file'')
         else (case check_databases [] (cf_Databases cfg) of Some e \<Rightarrow> Inl e | None \<Rightarrow> Inr cfg)))"

section \<open>The configuration manager\<close>

record config_Manager =
  cm_configPath :: string
  cm_ptr :: "Config option"

text \<open>
  \<^verbatim>\<open>Manager.Reload\<close>: \<open>readFile\<close> is \<^verbatim>\<open>os.ReadFile\<close>, \<open>unmarshal\<close> and \<open>decode\<close> the YAML
  library's parser and decoder, \<open>lookup\<close> the environment.
\<close>

definition config_Reload ::
  "(string \<Rightarrow> go_error + string) \<Rightarrow> (string \<Rightarrow> go_error + Node) \<Rightarrow> (Node \<Rightarrow> go_error + Config) \<Rightarrow>
   (string \<Rightarrow> string option) \<Rightarrow> config_Manager \<Rightarrow> go_error option \<times> config_Manager" where
  "config_Reload readFile unmarshal decode lookup m =
     (case readFile (cm_configPath m) of
        Inl e \<Rightarrow> (Some (Wrapf ''failed to read config file'' e), m)
      | Inr data \<Rightarrow>
        (case unmarshal data of
           Inl e \<Rightarrow> (Some (Wrapf ''failed to unmarshal yaml'' e), m)
         | Inr doc \<Rightarrow>
           (case (if nd_Kind doc = ZeroNode then Inr zero_config
                  else (case expandEnv lookup doc of
                          Inl e \<Rightarrow> Inl (Wrapf ''failed to expand config'' e)
                        | Inr doc' \<Rightarrow> (case decode doc' of
                              Inl e \<Rightarrow> Inl (Wrapf ''failed to unmarshal yaml'' e)
                            | Inr cfg \<Rightarrow> Inr cfg))) of
              Inl e \<Rightarrow> (Some e, m)
            | Inr cfg \<Rightarrow>
              (case validate cfg of
                 Inl e \<Rightarrow> (Some (Wrapf ''config validation failed'' e), m)
               | Inr cfg' \<Rightarrow> (None, m\<lparr>cm_ptr := Some cfg'\<rparr>)))))"

definition config_NewManager ::
  "(string \<Rightarrow> go_error + string) \<Rightarrow> (string \<Rightarrow> go_error + Node) \<Rightarrow> (Node \<Rightarrow> go_error + Config) \<Rightarrow>
   (string \<Rightarrow> string option) \<Rightarrow> string \<Rightarrow> go_error + config_Manager" where
  "config_NewManager readFile unmarshal decode lookup path =
     (case config_Reload readFile unmarshal decode lookup \<lparr>cm_configPath = path, cm_ptr = None\<rparr> of
        (Some e, m) \<Rightarrow> Inl (Wrapf ''initial config load failed'' e)
      | (None, m) \<Rightarrow> Inr m)"

definition config_Get :: "config_Manager \<Rightarrow> Config option" where
  "config_Get m = cm_ptr m"

section \<open>What a reload reports\<close>

definition NonReloadableChanges :: "Config option \<Rightarrow> Config option \<Rightarrow> string list" where
  "NonReloadableChanges oldCfg newCfg =
     (case (oldCfg, newCfg) of
        (Some old, Some new) \<Rightarrow>
          (if cf_Instance old \<noteq> cf_Instance new then [''instance''] else []) @
          (if cf_Server old \<noteq> cf_Server new then [''server''] else []) @
          (if cf_Storage old \<noteq> cf_Storage new then [''storage''] else []) @
          (if cf_Auth old \<noteq> cf_Auth new then [''auth''] else []) @
          (if df_MaxConcurrentQueries (cf_Defaults old) \<noteq> df_MaxConcurrentQueries (cf_Defaults new)
           then [''defaults.max_concurrent_queries''] else [])
      | _ \<Rightarrow> [])"

record DatabaseDiff =
  dd_Added :: "DatabaseConfig list"
  dd_Removed :: "DatabaseConfig list"
  dd_Updated :: "DatabaseConfig list"

definition index_databases :: "DatabaseConfig list \<Rightarrow> (string, DatabaseConfig) gomap" where
  "index_databases dbs = fold (\<lambda>db m. mput (db_ID db) db m) dbs []"

definition connection_changed :: "DatabaseConfig \<Rightarrow> DatabaseConfig \<Rightarrow> bool" where
  "connection_changed oldDb db \<longleftrightarrow>
     db_Engine oldDb \<noteq> db_Engine db \<or> db_DSN oldDb \<noteq> db_DSN db \<or> db_MaxConns oldDb \<noteq> db_MaxConns db"

definition DiffDatabases :: "Config option \<Rightarrow> Config option \<Rightarrow> DatabaseDiff" where
  "DiffDatabases oldCfg newCfg =
     (case oldCfg of
        None \<Rightarrow> \<lparr>dd_Added = (case newCfg of None \<Rightarrow> [] | Some new \<Rightarrow> cf_Databases new), dd_Removed = [], dd_Updated = []\<rparr>
      | Some old \<Rightarrow>
        (case newCfg of
           None \<Rightarrow> \<lparr>dd_Added = [], dd_Removed = cf_Databases old, dd_Updated = []\<rparr>
         | Some new \<Rightarrow>
           let oldMap = index_databases (cf_Databases old); newMap = index_databases (cf_Databases new) in
           \<lparr>dd_Added = map snd (filter (\<lambda>(i, db). mget oldMap i = None) newMap),
            dd_Removed = map snd (filter (\<lambda>(i, db). mget newMap i = None) oldMap),
            dd_Updated = map snd (filter (\<lambda>(i, db). case mget oldMap i of
                             None \<Rightarrow> False | Some oldDb \<Rightarrow> connection_changed oldDb db) newMap)\<rparr>))"

section \<open>Properties of validation\<close>

definition supported_engines :: "string set" where
  "supported_engines = {''postgres'', ''mysql'', ''clickhouse'', ''oracle''}"

definition good_database :: "DatabaseConfig \<Rightarrow> bool" where
  "good_database db \<longleftrightarrow> db_ID db \<noteq> [] \<and> db_Engine db \<in> supported_engines \<and> db_DSN db \<noteq> []"

definition storage_ok :: "Config \<Rightarrow> bool" where
  "storage_ok cfg \<longleftrightarrow>
     (let ds = in_DefaultStorage (cf_Instance cfg) in
      ds \<in> {[], ''fs''} \<or> (ds = ''s3'' \<and> s3_Bucket (sc_S3 (cf_Storage cfg)) \<noteq> []) \<or>
      (ds = ''clickhouse'' \<and> ch_DSN (sc_ClickHouse (cf_Storage cfg)) \<noteq> []))"

text \<open>The configurations the service can start with, stated without an order of checks.\<close>

definition acceptable :: "Config \<Rightarrow> bool" where
  "acceptable cfg \<longleftrightarrow>
     in_ID (cf_Instance cfg) \<noteq> [] \<and>
     (in_MetaStore (cf_Instance cfg) = ''memory'' \<or>
      in_MetaStore (cf_Instance cfg) = ''redis'' \<and> in_RedisAddr (cf_Instance cfg) \<noteq> []) \<and>
     storage_ok cfg \<and>
     in_GCInterval (cf_Instance cfg) \<le> max_gc_interval \<and>
     (\<forall>a. cf_Auth cfg = Some a \<longrightarrow> elems (au_Tokens a) \<noteq> []) \<and>
     (tls_CertFile (sv_TLS (cf_Server cfg)) = [] \<longleftrightarrow> tls_KeyFile (sv_TLS (cf_Server cfg)) = []) \<and>
     distinct (map db_ID (cf_Databases cfg)) \<and> list_all good_database (cf_Databases cfg)"

definition with_defaults :: "Config \<Rightarrow> Config" where
  "with_defaults cfg =
     cfg\<lparr>cf_Instance := (instance_defaults (cf_Instance cfg))
           \<lparr>in_DefaultStorage := orelse [] (in_DefaultStorage (cf_Instance cfg)) ''fs''\<rparr>,
         cf_Server := server_defaults (cf_Server cfg),
         cf_Defaults := (cf_Defaults cfg)\<lparr>df_ResultTTL := orelse 0 (df_ResultTTL (cf_Defaults cfg)) (24 * Hour)\<rparr>\<rparr>"

definition no_zero_defaults :: "Config \<Rightarrow> bool" where
  "no_zero_defaults cfg \<longleftrightarrow>
     in_DefaultStorage (cf_Instance cfg) \<noteq> [] \<and> in_HeartbeatTTL (cf_Instance cfg) \<noteq> 0 \<and>
     in_GCInterval (cf_Instance cfg) \<noteq> 0 \<and> df_ResultTTL (cf_Defaults cfg) \<noteq> 0 \<and>
     sv_RESTAddr (cf_Server cfg) \<noteq> [] \<and> sv_GRPCAddr (cf_Server cfg) \<noteq> [] \<and>
     sv_MaxRequestBytes (cf_Server cfg) \<noteq> 0 \<and> sv_RequestTimeout (cf_Server cfg) \<noteq> 0 \<and>
     sv_ReadHeaderTimeout (cf_Server cfg) \<noteq> 0 \<and> sv_IdleTimeout (cf_Server cfg) \<noteq> 0"

lemma check_databases_None:
  "check_databases seen dbs = None \<longleftrightarrow>
     distinct (map db_ID dbs) \<and> set (map db_ID dbs) \<inter> set seen = {} \<and> list_all good_database dbs"
  by (induction seen dbs rule: check_databases.induct)
    (auto simp: good_database_def supported_engines_def)

lemma check_storage_None:
  "check_storage (cfg\<lparr>cf_Instance := (cf_Instance cfg)
      \<lparr>in_DefaultStorage := orelse [] (in_DefaultStorage (cf_Instance cfg)) ''fs''\<rparr>\<rparr>) = None
    \<longleftrightarrow> storage_ok cfg"
  by (auto simp: check_storage_def storage_ok_def Let_def orelse_def)

lemma gc_default_le: "orelse 0 i Minute \<le> max_gc_interval \<longleftrightarrow> i \<le> max_gc_interval"
  by (auto simp: orelse_def max_gc_interval_def dur_defs)

definition auth_ok :: "Config \<Rightarrow> bool" where
  "auth_ok cfg \<longleftrightarrow> (case cf_Auth cfg of Some a \<Rightarrow> elems (au_Tokens a) \<noteq> [] | None \<Rightarrow> True)"

lemma auth_ok_iff: "auth_ok cfg \<longleftrightarrow> (\<forall>a. cf_Auth cfg = Some a \<longrightarrow> elems (au_Tokens a) \<noteq> [])"
  by (simp add: auth_ok_def split: option.splits)

lemma auth_bad_iff:
  "(case cf_Auth cfg of Some a \<Rightarrow> elems (au_Tokens a) = [] | None \<Rightarrow> False) \<longleftrightarrow> \<not> auth_ok cfg"
  by (simp add: auth_ok_def split: option.splits)

lemma case_option_isnone: "(case x of None \<Rightarrow> a | Some e \<Rightarrow> Inl e) = (if x = None then a else Inl (the x))"
  by (cases x) auto

lemma gc_default_less: "max_gc_interval < orelse 0 i Minute \<longleftrightarrow> \<not> i \<le> max_gc_interval"
  using gc_default_le [of i] by linarith

lemmas validate_unfold = validate_def Let_def case_option_isnone check_storage_None check_databases_None
  instance_defaults_def server_defaults_def gc_default_less auth_bad_iff auth_ok_def

lemma validate_acceptable: "acceptable cfg \<Longrightarrow> validate cfg = Inr (with_defaults cfg)"
  unfolding acceptable_def auth_ok_iff [symmetric]
  by (elim conjE disjE) (simp_all add: validate_unfold with_defaults_def)

lemma validate_unacceptable: "\<not> acceptable cfg \<Longrightarrow> is_ok (validate cfg) = False"
  unfolding acceptable_def auth_ok_iff [symmetric] de_Morgan_conj
  by (elim disjE) (simp_all add: validate_unfold)

lemma orelse_neq: "d \<noteq> zero \<Longrightarrow> orelse zero x d \<noteq> zero"
  by (simp add: orelse_def)

lemma with_defaults_no_zero: "no_zero_defaults (with_defaults cfg)"
  by (auto simp: no_zero_defaults_def with_defaults_def instance_defaults_def server_defaults_def
      dur_defs orelse_def)

lemma with_defaults_idem: "no_zero_defaults cfg \<Longrightarrow> with_defaults cfg = cfg"
  by (simp add: no_zero_defaults_def with_defaults_def instance_defaults_def server_defaults_def orelse_def)

lemma acceptable_with_defaults: "acceptable cfg \<Longrightarrow> acceptable (with_defaults cfg)"
  by (auto simp: acceptable_def with_defaults_def instance_defaults_def server_defaults_def
      storage_ok_def Let_def orelse_def max_gc_interval_def dur_defs)

lemma validate_Inr_iff: "validate cfg = Inr cfg' \<longleftrightarrow> acceptable cfg \<and> cfg' = with_defaults cfg"
proof (cases "acceptable cfg")
  case False
  with validate_unacceptable [OF False] show ?thesis by auto
qed (auto simp: validate_acceptable)

text \<open>What a running instance's snapshot satisfies.\<close>

definition valid_snapshot :: "Config \<Rightarrow> bool" where
  "valid_snapshot cfg \<longleftrightarrow> acceptable cfg \<and> no_zero_defaults cfg"

lemma valid_snapshot_fixed: "valid_snapshot cfg \<Longrightarrow> validate cfg = Inr cfg"
  by (simp add: valid_snapshot_def validate_Inr_iff with_defaults_idem)

lemma validate_valid_snapshot: "validate cfg = Inr cfg' \<Longrightarrow> valid_snapshot cfg'"
  by (simp add: valid_snapshot_def validate_Inr_iff acceptable_with_defaults with_defaults_no_zero)


definition sample_database :: DatabaseConfig where
  "sample_database = \<lparr>db_ID = ''main'', db_Engine = ''postgres'', db_DSN = ''dsn'', db_DisplayName = ''Main'', db_MaxConns = 4\<rparr>"

definition sample_config :: Config where
  "sample_config = zero_config
     \<lparr>cf_Instance := (cf_Instance zero_config)\<lparr>in_ID := ''n1'', in_MetaStore := ''memory''\<rparr>,
      cf_Databases := [sample_database]\<rparr>"

lemma acceptable_sample [simp]: "acceptable sample_config"
  by (simp add: acceptable_def sample_config_def zero_config_def storage_ok_def sample_database_def
      good_database_def supported_engines_def max_gc_interval_def dur_defs)


section \<open>Properties of the snapshot\<close>

text \<open>One reload attempt: the file system, the parser and the environment at that moment.\<close>

record attempt =
  at_readFile :: "string \<Rightarrow> go_error + string"
  at_unmarshal :: "string \<Rightarrow> go_error + Node"
  at_decode :: "Node \<Rightarrow> go_error + Config"
  at_lookup :: "string \<Rightarrow> string option"

definition do_attempt :: "attempt \<Rightarrow> config_Manager \<Rightarrow> go_error option \<times> config_Manager" where
  "do_attempt a = config_Reload (at_readFile a) (at_unmarshal a) (at_decode a) (at_lookup a)"

lemma config_Reload_cases:
  obtains (failed) e where "config_Reload r u d l m = (Some e, m)"
  | (loaded) cfg where "config_Reload r u d l m = (None, m\<lparr>cm_ptr := Some cfg\<rparr>)" "valid_snapshot cfg"
proof (cases "config_Reload r u d l m")
  case (Pair err m')
  then have "(\<exists>e. err = Some e \<and> m' = m) \<or>
      (\<exists>cfg. err = None \<and> m' = m\<lparr>cm_ptr := Some cfg\<rparr> \<and> valid_snapshot cfg)"
    unfolding config_Reload_def
    by (auto split: sum.splits if_splits dest: validate_valid_snapshot)
  with Pair that show ?thesis by blast
qed

definition holds_valid :: "string \<Rightarrow> config_Manager \<Rightarrow> bool" where
  "holds_valid path m \<longleftrightarrow> cm_configPath m = path \<and> (\<exists>cfg. config_Get m = Some cfg \<and> valid_snapshot cfg)"

lemma holds_valid_attempt: "holds_valid path m \<Longrightarrow> holds_valid path (snd (do_attempt a m))"
  by (rule config_Reload_cases [of "at_readFile a" "at_unmarshal a" "at_decode a" "at_lookup a" m])
    (auto simp: do_attempt_def holds_valid_def config_Get_def)

lemma holds_valid_fold: "holds_valid path m \<Longrightarrow> holds_valid path (fold (\<lambda>a m. snd (do_attempt a m)) as m)"
  by (induction as arbitrary: m) (auto simp: holds_valid_attempt)

text \<open>
  C30. A configuration manager never hands out an unvalidated configuration: once it is built,
  after any sequence of reload attempts - whatever the file, the parser and the environment
  return in each - the snapshot is a validated configuration with its defaults, and an attempt
  that fails leaves the snapshot exactly as it was.
\<close>

theorem config_snapshot_valid:
  assumes "config_NewManager r u d l path = Inr m"
  shows "(\<exists>cfg. config_Get (fold (\<lambda>a m. snd (do_attempt a m)) as m) = Some cfg
             \<and> valid_snapshot cfg \<and> validate cfg = Inr cfg)
    \<and> (\<forall>a m'. fst (do_attempt a m') \<noteq> None \<longrightarrow> snd (do_attempt a m') = m')"
proof -
  have "holds_valid path m"
    by (rule config_Reload_cases [of r u d l "\<lparr>cm_configPath = path, cm_ptr = None\<rparr>"])
      (use assms in \<open>auto simp: config_NewManager_def holds_valid_def config_Get_def\<close>)
  from holds_valid_fold [OF this, of as] valid_snapshot_fixed
  have "\<exists>cfg. config_Get (fold (\<lambda>a m. snd (do_attempt a m)) as m) = Some cfg
      \<and> valid_snapshot cfg \<and> validate cfg = Inr cfg"
    by (auto simp: holds_valid_def)
  moreover have "snd (do_attempt a m') = m'" if "fst (do_attempt a m') \<noteq> None" for a m'
    by (rule config_Reload_cases [of "at_readFile a" "at_unmarshal a" "at_decode a" "at_lookup a" m'])
      (use that in \<open>auto simp: do_attempt_def\<close>)
  ultimately show ?thesis by blast
qed

theorem config_snapshot_valid_witness:
  "\<exists>m. config_NewManager (\<lambda>_. Inr ''text'') (\<lambda>_. Inr (Node DocumentNode [] [] 0 [])) (\<lambda>_. Inr sample_config)
        (\<lambda>_. None) ''config.yaml'' = Inr m
      \<and> (\<exists>cfg. config_Get (snd (do_attempt
            \<lparr>at_readFile = (\<lambda>_. Inl (ErrorString ''gone'')), at_unmarshal = (\<lambda>_. Inl EOF),
             at_decode = (\<lambda>_. Inl EOF), at_lookup = (\<lambda>_. None)\<rparr> m)) = Some cfg \<and> valid_snapshot cfg)"
proof -
  let ?m = "\<lparr>cm_configPath = ''config.yaml'', cm_ptr = Some (with_defaults sample_config)\<rparr>"
  have m: "config_NewManager (\<lambda>_. Inr ''text'') (\<lambda>_. Inr (Node DocumentNode [] [] 0 [])) (\<lambda>_. Inr sample_config)
        (\<lambda>_. None) ''config.yaml'' = Inr ?m"
    by (simp add: config_NewManager_def config_Reload_def expandEnv_def validate_acceptable)
  let ?a = "\<lparr>at_readFile = (\<lambda>_. Inl (ErrorString ''gone'')), at_unmarshal = (\<lambda>_. Inl EOF),
             at_decode = (\<lambda>_. Inl EOF), at_lookup = (\<lambda>_. None)\<rparr>"
  from config_snapshot_valid [OF m, of "[?a]"]
  have "\<exists>cfg. config_Get (snd (do_attempt ?a ?m)) = Some cfg \<and> valid_snapshot cfg" by auto
  with m show ?thesis by blast
qed

section \<open>Properties of environment expansion\<close>

text \<open>
  A template: literal text and references. Literal text may hold a dollar sign, but not one
  that a brace follows or that ends the segment.
\<close>

datatype seg = Lit string | Ref string

fun lit_ok :: "string \<Rightarrow> bool" where
  "lit_ok [] = True"
| "lit_ok (c # s) = ((c = CHR ''$'' \<longrightarrow> s \<noteq> [] \<and> hd s \<noteq> CHR ''{'') \<and> lit_ok s)"

fun seg_ok :: "seg \<Rightarrow> bool" where
  "seg_ok (Lit s) = lit_ok s"
| "seg_ok (Ref n) = (n \<noteq> [] \<and> name_start (hd n) \<and> list_all name_char n)"

fun seg_text :: "seg \<Rightarrow> string" where
  "seg_text (Lit s) = s"
| "seg_text (Ref n) = ref_text n"

fun seg_subst :: "(string \<Rightarrow> string option) \<Rightarrow> seg \<Rightarrow> string" where
  "seg_subst lookup (Lit s) = s"
| "seg_subst lookup (Ref n) = (case lookup n of Some v \<Rightarrow> v | None \<Rightarrow> ref_text n)"

fun seg_unset :: "(string \<Rightarrow> string option) \<Rightarrow> seg \<Rightarrow> string list" where
  "seg_unset lookup (Lit s) = []"
| "seg_unset lookup (Ref n) = (if lookup n = None then [n] else [])"

definition template :: "seg list \<Rightarrow> string" where
  "template segs = concat (map seg_text segs)"

definition filled :: "(string \<Rightarrow> string option) \<Rightarrow> seg list \<Rightarrow> string" where
  "filled lookup segs = concat (map (seg_subst lookup) segs)"

definition unset_names :: "(string \<Rightarrow> string option) \<Rightarrow> seg list \<Rightarrow> string list" where
  "unset_names lookup segs = concat (map (seg_unset lookup) segs)"

lemma envRef_lit: "lit_ok (c # s) \<Longrightarrow> envRef (c # s @ rest) = None"
  by (auto simp: envRef_def neq_Nil_conv split: list.splits)

lemma expand_refs_lit:
  "lit_ok s \<Longrightarrow> expand_refs lookup (s @ rest) =
     (s @ fst (expand_refs lookup rest), snd (expand_refs lookup rest))"
proof (induction s)
  case (Cons c s)
  then show ?case by (simp add: envRef_lit del: lit_ok.simps) (simp add: Let_def split_beta)
qed simp

lemma envRef_ref:
  assumes "seg_ok (Ref n)"
  shows "envRef (ref_text n @ rest) = Some (n, rest)"
proof -
  have "takeWhile name_char (n @ CHR ''}'' # rest) = n" and "dropWhile name_char (n @ CHR ''}'' # rest) = CHR ''}'' # rest"
    using assms by (auto simp: takeWhile_append dropWhile_append list_all_iff name_char_def name_start_def)
  then show ?thesis using assms by (simp add: envRef_def ref_text_def)
qed

lemma expand_refs_ref:
  assumes "seg_ok (Ref n)"
  shows "expand_refs lookup (ref_text n @ rest) =
     (seg_subst lookup (Ref n) @ fst (expand_refs lookup rest), seg_unset lookup (Ref n) @ snd (expand_refs lookup rest))"
proof -
  obtain c t where ct: "ref_text n @ rest = c # t" by (simp add: ref_text_def)
  show ?thesis using envRef_ref [OF assms, of rest]
    unfolding ct by (auto simp: Let_def split_beta split: option.splits)
qed

lemma expand_refs_template:
  "list_all seg_ok segs \<Longrightarrow> expand_refs lookup (template segs) = (filled lookup segs, unset_names lookup segs)"
proof (induction segs)
  case (Cons g segs)
  then show ?case
    by (cases g) (simp_all add: template_def filled_def unset_names_def expand_refs_lit expand_refs_ref del: seg_subst.simps(2) seg_unset.simps(2))
qed (simp add: template_def filled_def unset_names_def)

text \<open>The scalar values of a document in order, and the document with its scalars blanked.\<close>

fun scalars :: "Node \<Rightarrow> string list" where
  "scalars (Node k tag v style content) = (if k = ScalarNode then [v] else concat (map scalars content))"

fun shape :: "Node \<Rightarrow> Node" where
  "shape (Node k tag v style content) =
     (if k = ScalarNode then Node k [] [] 0 content else Node k tag v style (map shape content))"

lemma walk_scalars:
  "scalars (fst (walk lookup n)) = map (\<lambda>v. fst (expand_refs lookup v)) (scalars n)
   \<and> snd (walk lookup n) = concat (map (\<lambda>v. snd (expand_refs lookup v)) (scalars n))
   \<and> shape (fst (walk lookup n)) = shape n"
  "concat (map scalars (fst (walk_list lookup ns))) = map (\<lambda>v. fst (expand_refs lookup v)) (concat (map scalars ns))
   \<and> snd (walk_list lookup ns) = concat (map (\<lambda>v. snd (expand_refs lookup v)) (concat (map scalars ns)))
   \<and> map shape (fst (walk_list lookup ns)) = map shape ns"
proof (induction lookup n and lookup ns rule: walk_walk_list.induct)
  case (3 lookup n ns)
  then show ?case by (cases "walk lookup n"; cases "walk_list lookup ns") simp
qed (auto simp: Let_def split_beta)

text \<open>
  C31. Environment expansion. For a document whose scalars are templates - literal text, in
  which a dollar sign may stand, and references \<^verbatim>\<open>${NAME}\<close> - expansion succeeds exactly when
  every referenced variable is set. It then replaces each reference by the variable's value
  and nothing else: literal text, the order and structure of the document stay, and a value
  that itself looks like a reference is not expanded again. Otherwise the error names
  precisely the unset variables in document order.
\<close>

theorem expandEnv_templates:
  assumes "scalars node = map template tss" and "\<forall>ts \<in> set tss. list_all seg_ok ts"
  shows "(case expandEnv lookup node of
       Inr node' \<Rightarrow> scalars node' = map (filled lookup) tss \<and> shape node' = shape node
         \<and> (\<forall>n. Ref n \<in> set (concat tss) \<longrightarrow> lookup n \<noteq> None)
     | Inl e \<Rightarrow> e = ErrorString (''unset environment variables referenced by the config: '' @
           strings_Join (concat (map (unset_names lookup) tss)) '', '')
         \<and> (\<exists>n. Ref n \<in> set (concat tss) \<and> lookup n = None))"
proof -
  have one: "\<forall>ts \<in> set tss. expand_refs lookup (template ts) = (filled lookup ts, unset_names lookup ts)"
    using assms(2) expand_refs_template by blast
  have "map (\<lambda>v. fst (expand_refs lookup v)) (scalars node) = map (filled lookup) tss"
    and m: "snd (walk lookup node) = concat (map (unset_names lookup) tss)"
    using one walk_scalars(1) [of lookup node] by (simp_all add: assms(1) comp_def cong: map_cong)
  then have w: "scalars (fst (walk lookup node)) = map (filled lookup) tss" "shape (fst (walk lookup node)) = shape node"
    using walk_scalars(1) [of lookup node] by simp_all
  have seg: "seg_unset lookup g \<noteq> [] \<longleftrightarrow> (\<exists>n. g = Ref n \<and> lookup n = None)" for g
    by (cases g) auto
  then have unset: "unset_names lookup ts \<noteq> [] \<longleftrightarrow> (\<exists>n. Ref n \<in> set ts \<and> lookup n = None)" for ts
    by (auto simp: unset_names_def)
  have "snd (walk lookup node) \<noteq> [] \<longleftrightarrow> (\<exists>n. Ref n \<in> set (concat tss) \<and> lookup n = None)"
    unfolding m using unset by auto
  then show ?thesis using w m by (auto simp: expandEnv_def split_beta)
qed

theorem expandEnv_templates_witness:
  "expandEnv [''POD'' \<mapsto> ''a${POD}'']
     (Node SequenceNode [] [] 0 [Node ScalarNode ''!!str'' ''db-${POD}-$x'' 2 [], Node ScalarNode ''!!int'' ''7'' 0 []])
   = Inr (Node SequenceNode [] [] 0 [Node ScalarNode [] ''db-a${POD}-$x'' 0 [], Node ScalarNode ''!!int'' ''7'' 0 []])
   \<and> \<not> is_ok (expandEnv Map.empty (Node ScalarNode [] ''${POD}'' 0 []))"
proof -
  let ?n = "Node ScalarNode [] ''${POD}'' 0 []"
  have "\<not> is_ok (expandEnv Map.empty ?n)"
    using expandEnv_templates [of ?n "[[Ref ''POD'']]" Map.empty]
    by (auto simp: template_def ref_text_def name_start_def name_char_def split: sum.splits)
  then show ?thesis by (simp, code_simp)
qed

section \<open>Properties of the database diff\<close>

lemma fold_mput_get:
  "distinct (map db_ID dbs) \<Longrightarrow>
     mget (fold (\<lambda>db m. mput (db_ID db) db m) dbs m) i = Some db \<longleftrightarrow>
       (db \<in> set dbs \<and> db_ID db = i) \<or> (i \<notin> db_ID ` set dbs \<and> mget m i = Some db)"
proof (induction dbs arbitrary: m)
  case (Cons x dbs)
  then show ?case by (auto simp: rev_image_eqI)
qed simp

lemma fold_mput_wf: "mwf m \<Longrightarrow> mwf (fold (\<lambda>db m. mput (db_ID db) db m) dbs m)"
  by (induction dbs arbitrary: m) auto

lemma index_databases_get:
  "distinct (map db_ID dbs) \<Longrightarrow>
     mget (index_databases dbs) i = Some db \<longleftrightarrow> db \<in> set dbs \<and> db_ID db = i"
  by (simp add: index_databases_def fold_mput_get)

lemma index_databases_set:
  assumes "distinct (map db_ID dbs)"
  shows "set (index_databases dbs) = (\<lambda>db. (db_ID db, db)) ` set dbs"
proof -
  have "mwf (index_databases dbs)" by (simp add: index_databases_def fold_mput_wf)
  then show ?thesis using index_databases_get [OF assms] by (auto simp: mget_iff_mem)
qed

lemma index_databases_None:
  assumes "distinct (map db_ID dbs)"
  shows "mget (index_databases dbs) i = None \<longleftrightarrow> i \<notin> db_ID ` set dbs"
proof -
  have "mget (index_databases dbs) i \<noteq> None \<longleftrightarrow> i \<in> db_ID ` set dbs"
    using index_databases_get [OF assms, of i] by (auto simp: not_None_eq image_iff)
  then show ?thesis by blast
qed

text \<open>
  The database diff of two validated configurations. The added databases are those whose
  ID is new, the removed ones those whose ID is gone, the updated ones those of a kept ID
  whose engine, DSN or connection limit changed; and every database of the new configuration
  that is in neither list has, in the old one, the same ID, engine, DSN and limit. So applying
  the diff to the old set of connections gives the new one.
\<close>

theorem DiffDatabases_correct:
  assumes "acceptable old" and "acceptable new"
  defines "d \<equiv> DiffDatabases (Some old) (Some new)"
  shows "set (dd_Added d) = {db \<in> set (cf_Databases new). db_ID db \<notin> db_ID ` set (cf_Databases old)}
    \<and> set (dd_Removed d) = {db \<in> set (cf_Databases old). db_ID db \<notin> db_ID ` set (cf_Databases new)}
    \<and> set (dd_Updated d) = {db \<in> set (cf_Databases new).
          \<exists>o' \<in> set (cf_Databases old). db_ID o' = db_ID db \<and> connection_changed o' db}
    \<and> (\<forall>db \<in> set (cf_Databases new). db \<notin> set (dd_Added d) \<longrightarrow> db \<notin> set (dd_Updated d) \<longrightarrow>
         (\<exists>o' \<in> set (cf_Databases old). db_ID o' = db_ID db \<and> db_Engine o' = db_Engine db
            \<and> db_DSN o' = db_DSN db \<and> db_MaxConns o' = db_MaxConns db))"
proof -
  have o: "distinct (map db_ID (cf_Databases old))" and n: "distinct (map db_ID (cf_Databases new))"
    using assms by (simp_all add: acceptable_def)
  have upd: "(case mget (index_databases (cf_Databases old)) i of None \<Rightarrow> False | Some oldDb \<Rightarrow> connection_changed oldDb db)
      \<longleftrightarrow> (\<exists>o' \<in> set (cf_Databases old). db_ID o' = i \<and> connection_changed o' db)" for i db
  proof (cases "mget (index_databases (cf_Databases old)) i")
    case None
    then show ?thesis using index_databases_None [OF o, of i] by auto
  next
    case (Some o')
    then show ?thesis using index_databases_get [OF o, of i] by (metis option.inject option.simps(5))
  qed
  have a: "set (dd_Added d) = {db \<in> set (cf_Databases new). db_ID db \<notin> db_ID ` set (cf_Databases old)}"
    by (auto simp: d_def DiffDatabases_def Let_def index_databases_set [OF n] index_databases_None [OF o] split_beta image_iff)
  have r: "set (dd_Removed d) = {db \<in> set (cf_Databases old). db_ID db \<notin> db_ID ` set (cf_Databases new)}"
    by (auto simp: d_def DiffDatabases_def Let_def index_databases_set [OF o] index_databases_None [OF n] split_beta image_iff)
  have u: "set (dd_Updated d) = {db \<in> set (cf_Databases new).
      \<exists>o' \<in> set (cf_Databases old). db_ID o' = db_ID db \<and> connection_changed o' db}"
    by (auto simp: d_def DiffDatabases_def Let_def index_databases_set [OF n] upd split_beta image_iff)
  show ?thesis unfolding a r u by (auto simp: connection_changed_def)
qed

definition sample_config2 :: Config where
  "sample_config2 = sample_config\<lparr>cf_Databases :=
     [sample_database\<lparr>db_MaxConns := 9\<rparr>, sample_database\<lparr>db_ID := ''extra''\<rparr>]\<rparr>"

theorem DiffDatabases_correct_witness:
  "acceptable sample_config2
   \<and> sample_database\<lparr>db_ID := ''extra''\<rparr> \<in> set (dd_Added (DiffDatabases (Some sample_config) (Some sample_config2)))
   \<and> sample_database\<lparr>db_MaxConns := 9\<rparr> \<in> set (dd_Updated (DiffDatabases (Some sample_config) (Some sample_config2)))
   \<and> sample_database\<lparr>db_MaxConns := 9\<rparr> \<notin> set (dd_Added (DiffDatabases (Some sample_config) (Some sample_config2)))"
proof -
  have a: "acceptable sample_config2"
    by (simp add: acceptable_def sample_config2_def sample_config_def zero_config_def storage_ok_def sample_database_def
      good_database_def supported_engines_def max_gc_interval_def dur_defs)
  have dbs: "cf_Databases sample_config = [sample_database]"
    "cf_Databases sample_config2 = [sample_database\<lparr>db_MaxConns := 9\<rparr>, sample_database\<lparr>db_ID := ''extra''\<rparr>]"
    by (simp_all add: sample_config_def sample_config2_def)
  have db: "db_ID sample_database = ''main''" "db_MaxConns sample_database = 4" by (simp_all add: sample_database_def)
  from DiffDatabases_correct [OF acceptable_sample a] a show ?thesis
    by (simp add: dbs db connection_changed_def)
qed

end
