(* ===== verification/Channels.thy ===== *)
theory Channels
  imports Prelude
begin

text \<open>
  Buffered Go channels: what \<^verbatim>\<open>make(chan T, n)\<close>, a non-blocking send in a \<^verbatim>\<open>select\<close> with a
  default, \<^verbatim>\<open>close\<close> and a receive do. A send on a closed channel and closing a closed channel
  panic: the operations return \<open>None\<close> there, so that "does not panic" is a theorem of the
  code that uses them. A \<open>chans\<close> value is the heap of channels, indexed by an identity that
  \<open>make_chan\<close> allocates.
\<close>

record 'a chan =
  ch_cap :: nat
  ch_buf :: "'a list"
  ch_closed :: bool

record 'a chans =
  cs_heap :: "(nat, 'a chan) gomap"
  cs_next :: nat

definition no_chans :: "'a chans" where
  "no_chans = \<lparr>cs_heap = [], cs_next = 0\<rparr>"

definition make_chan :: "nat \<Rightarrow> 'a chans \<Rightarrow> nat \<times> 'a chans" where
  "make_chan n h =
     (cs_next h, h\<lparr>cs_heap := mput (cs_next h) \<lparr>ch_cap = n, ch_buf = [], ch_closed = False\<rparr> (cs_heap h),
                   cs_next := Suc (cs_next h)\<rparr>)"

text \<open>\<^verbatim>\<open>select { case ch <- v: ... default: ... }\<close>: whether the value was taken.\<close>

definition try_send :: "nat \<Rightarrow> 'a \<Rightarrow> 'a chans \<Rightarrow> (bool \<times> 'a chans) option" where
  "try_send c v h =
     (case mget (cs_heap h) c of
        None \<Rightarrow> None
      | Some ch \<Rightarrow>
          if ch_closed ch then None
          else if length (ch_buf ch) < ch_cap ch
          then Some (True, h\<lparr>cs_heap := mput c (ch\<lparr>ch_buf := ch_buf ch @ [v]\<rparr>) (cs_heap h)\<rparr>)
          else Some (False, h))"

definition close_chan :: "nat \<Rightarrow> 'a chans \<Rightarrow> 'a chans option" where
  "close_chan c h =
     (case mget (cs_heap h) c of
        None \<Rightarrow> None
      | Some ch \<Rightarrow>
          if ch_closed ch then None
          else Some (h\<lparr>cs_heap := mput c (ch\<lparr>ch_closed := True\<rparr>) (cs_heap h)\<rparr>))"

text \<open>
  A receive: a buffered value, the end of a closed channel, or blocking. Values buffered
  before the close are still received.
\<close>

datatype 'a received = Received 'a | Ended | Blocked

definition recv :: "nat \<Rightarrow> 'a chans \<Rightarrow> 'a received \<times> 'a chans" where
  "recv c h =
     (case mget (cs_heap h) c of
        None \<Rightarrow> (Blocked, h)
      | Some ch \<Rightarrow>
          (case ch_buf ch of
             v # vs \<Rightarrow> (Received v, h\<lparr>cs_heap := mput c (ch\<lparr>ch_buf := vs\<rparr>) (cs_heap h)\<rparr>)
           | [] \<Rightarrow> (if ch_closed ch then Ended else Blocked, h)))"

section \<open>Lemmas\<close>

definition open_chan :: "'a chans \<Rightarrow> nat \<Rightarrow> bool" where
  "open_chan h c \<longleftrightarrow> (\<exists>ch. mget (cs_heap h) c = Some ch \<and> \<not> ch_closed ch)"

text \<open>Every buffer is within its capacity and identities are below the allocation counter.\<close>

definition wf_chans :: "'a chans \<Rightarrow> bool" where
  "wf_chans h \<longleftrightarrow>
     (\<forall>c ch. mget (cs_heap h) c = Some ch \<longrightarrow> length (ch_buf ch) \<le> ch_cap ch \<and> c < cs_next h)"

lemma wf_no_chans [simp]: "wf_chans no_chans"
  by (simp add: wf_chans_def no_chans_def)

lemma wf_make_chan [simp]: "wf_chans h \<Longrightarrow> wf_chans (snd (make_chan n h))"
  by (auto simp: wf_chans_def make_chan_def less_Suc_eq)

lemma make_chan_fresh: "wf_chans h \<Longrightarrow> mget (cs_heap h) (cs_next h) = None"
  by (cases "mget (cs_heap h) (cs_next h)") (auto simp: wf_chans_def)

lemma open_make_chan:
  "open_chan (snd (make_chan n h)) c \<longleftrightarrow> c = fst (make_chan n h) \<or> open_chan h c"
  by (auto simp: open_chan_def make_chan_def)

lemma open_chan_less: "wf_chans h \<Longrightarrow> open_chan h c \<Longrightarrow> c < cs_next h"
  by (auto simp: wf_chans_def open_chan_def)

lemma try_send_open: "open_chan h c \<Longrightarrow> \<exists>b h'. try_send c v h = Some (b, h')"
  by (auto simp: open_chan_def try_send_def)

lemma try_send_keeps:
  assumes "try_send c v h = Some (b, h')"
  shows "open_chan h' d \<longleftrightarrow> open_chan h d" and "cs_next h' = cs_next h"
    and "wf_chans h \<Longrightarrow> wf_chans h'" and "d \<noteq> c \<Longrightarrow> mget (cs_heap h') d = mget (cs_heap h) d"
  using assms by (auto simp: try_send_def open_chan_def wf_chans_def split: option.splits if_splits)

lemma close_chan_open: "open_chan h c \<Longrightarrow> \<exists>h'. close_chan c h = Some h'"
  by (auto simp: open_chan_def close_chan_def)

lemma close_chan_keeps:
  assumes "close_chan c h = Some h'"
  shows "open_chan h' d \<longleftrightarrow> open_chan h d \<and> d \<noteq> c" and "cs_next h' = cs_next h"
    and "wf_chans h \<Longrightarrow> wf_chans h'" and "d \<noteq> c \<Longrightarrow> mget (cs_heap h') d = mget (cs_heap h) d"
  using assms by (auto simp: close_chan_def open_chan_def wf_chans_def split: option.splits if_splits)

lemma recv_keeps:
  "open_chan (snd (recv c h)) d \<longleftrightarrow> open_chan h d"
  "cs_next (snd (recv c h)) = cs_next h"
  "wf_chans h \<Longrightarrow> wf_chans (snd (recv c h))"
  by (auto simp: recv_def open_chan_def wf_chans_def split: option.splits list.splits)
    (metis Suc_leD length_Cons)

text \<open>What a receiver of the channel still gets, and whether it then sees the end.\<close>

definition pending_values :: "'a chans \<Rightarrow> nat \<Rightarrow> 'a list" where
  "pending_values h c = (case mget (cs_heap h) c of None \<Rightarrow> [] | Some ch \<Rightarrow> ch_buf ch)"

definition is_closed :: "'a chans \<Rightarrow> nat \<Rightarrow> bool" where
  "is_closed h c \<longleftrightarrow> (\<exists>ch. mget (cs_heap h) c = Some ch \<and> ch_closed ch)"

lemma pending_close: "close_chan c h = Some h' \<Longrightarrow> pending_values h' d = pending_values h d"
  by (auto simp: close_chan_def pending_values_def split: option.splits if_splits)

lemma pending_send:
  "try_send c v h = Some (b, h') \<Longrightarrow>
     pending_values h' d = pending_values h d @ (if d = c \<and> b then [v] else [])"
  by (auto simp: try_send_def pending_values_def split: option.splits if_splits)

lemma is_closed_close: "close_chan c h = Some h' \<Longrightarrow> is_closed h' d \<longleftrightarrow> d = c \<or> is_closed h d"
  by (auto simp: close_chan_def is_closed_def split: option.splits if_splits)

lemma is_closed_send: "try_send c v h = Some (b, h') \<Longrightarrow> is_closed h' d \<longleftrightarrow> is_closed h d"
  by (auto simp: try_send_def is_closed_def split: option.splits if_splits)

end
