(* ===== verification/Metastore.thy ===== *)
theory Metastore
  imports Domain Channels
begin

text \<open>
  The metadata store, \<^verbatim>\<open>internal/state/metastore.go\<close> and \<^verbatim>\<open>memory.go\<close>.

  \<^item> \<open>MetaStore\<close> is the Go interface: a record of operations over a store state \<open>'s\<close>. Every
    operation takes the clock reading \<^verbatim>\<open>time.Now()\<close> gives it, its arguments and the state, and
    returns its result and the new state. Reads return a state as well, so that a store whose
    calls can fail fits the same record.
  \<^item> \<open>mem\<close> is \<^verbatim>\<open>MemoryMetaStore\<close>, one definition per method, and \<open>mem_store\<close> its method table.
    The mutex makes every method one atomic step.
  \<^item> The locale \<open>meta_store\<close> states what a client of the interface may rely on, in terms of
    an abstract store \<open>meta_view\<close>: the record stored under an ID, the holder of an idempotency
    key at a time, and whether a lock is held at a time. It is interpreted on \<open>mem_store\<close>.
\<close>

section \<open>Control messages\<close>

datatype ControlType = ControlStopQuery | ControlQueryEvent

record QueryEventPayload =
  pl_State :: string
  pl_Stats :: QueryStats
  pl_Error :: "QueryError option"

record ControlMsg =
  cm_Type :: ControlType
  cm_QueryID :: string
  cm_SenderID :: string
  cm_Event :: "QueryEventPayload option"

section \<open>The interface\<close>

record 's MetaStore =
  ms_PutQuery :: "time \<Rightarrow> QueryRecord \<Rightarrow> 's \<Rightarrow> go_error option \<times> 's"
  ms_GetQuery :: "time \<Rightarrow> string \<Rightarrow> 's \<Rightarrow> (go_error + QueryRecord) \<times> 's"
  ms_UpdateQuery :: "time \<Rightarrow> QueryRecord \<Rightarrow> 's \<Rightarrow> go_error option \<times> 's"
  ms_UpdateQueryIfState :: "time \<Rightarrow> QueryRecord \<Rightarrow> QueryState list \<Rightarrow> 's \<Rightarrow> (go_error + bool) \<times> 's"
  ms_AcquireIdempotency :: "time \<Rightarrow> string \<Rightarrow> string \<Rightarrow> string \<Rightarrow> duration \<Rightarrow> 's \<Rightarrow> (go_error + string \<times> bool) \<times> 's"
  ms_ReleaseIdempotency :: "time \<Rightarrow> string \<Rightarrow> string \<Rightarrow> string \<Rightarrow> 's \<Rightarrow> go_error option \<times> 's"
  ms_RefreshIdempotency :: "time \<Rightarrow> string \<Rightarrow> string \<Rightarrow> string \<Rightarrow> duration \<Rightarrow> 's \<Rightarrow> go_error option \<times> 's"
  ms_Heartbeat :: "time \<Rightarrow> string \<Rightarrow> string list \<Rightarrow> duration \<Rightarrow> 's \<Rightarrow> go_error option \<times> 's"
  ms_TryLock :: "time \<Rightarrow> string \<Rightarrow> duration \<Rightarrow> 's \<Rightarrow> (go_error + bool) \<times> 's"
  ms_PublishControl :: "time \<Rightarrow> ControlMsg \<Rightarrow> 's \<Rightarrow> go_error option \<times> 's"
  ms_SubscribeControl :: "time \<Rightarrow> 's \<Rightarrow> (go_error + nat) \<times> 's"
  ms_CountInFlight :: "time \<Rightarrow> string \<Rightarrow> 's \<Rightarrow> (go_error + nat) \<times> 's"
  ms_ListByInstance :: "time \<Rightarrow> string \<Rightarrow> 's \<Rightarrow> (go_error + string list) \<times> 's"
  ms_ListDatabasesSeen :: "time \<Rightarrow> 's \<Rightarrow> (go_error + string list) \<times> 's"
  ms_ListExpiredQueries :: "time \<Rightarrow> 's \<Rightarrow> (go_error + string list) \<times> 's"
  ms_ListStaleQueries :: "time \<Rightarrow> 's \<Rightarrow> (go_error + string list) \<times> 's"
  ms_DeleteQuery :: "time \<Rightarrow> string \<Rightarrow> 's \<Rightarrow> go_error option \<times> 's"

text \<open>A record without the lease deadline, which no store keeps.\<close>

definition strip_lease :: "QueryRecord \<Rightarrow> QueryRecord" where
  "strip_lease r = r\<lparr>qr_LeaseDeadline := 0\<rparr>"

text \<open>The key a store files an idempotency key under.\<close>

definition fullKey :: "string \<Rightarrow> string \<Rightarrow> string" where
  "fullKey dbID key = dbID @ '':'' @ key"

section \<open>The memory store\<close>

record mem =
  mm_queries :: "(string, QueryRecord) gomap"
  mm_idempotency :: "(string, string) gomap"
  mm_idempExpires :: "(string, time) gomap"
  mm_subscribers :: "nat list"
  mm_leases :: "(string, time) gomap"
  mm_locks :: "(string, time) gomap"
  mm_chans :: "ControlMsg chans"

definition NewMemoryMetaStore :: mem where
  "NewMemoryMetaStore =
     \<lparr>mm_queries = [], mm_idempotency = [], mm_idempExpires = [], mm_subscribers = [],
      mm_leases = [], mm_locks = [], mm_chans = no_chans\<rparr>"

definition mem_write :: "QueryRecord \<Rightarrow> mem \<Rightarrow> mem" where
  "mem_write record m =
     (let m = m\<lparr>mm_queries := mput (qr_ID record) (strip_lease record) (mm_queries m)\<rparr> in
      if IsTerminal (qr_State record) then m\<lparr>mm_leases := mdel (qr_ID record) (mm_leases m)\<rparr> else m)"

definition mem_PutQuery :: "time \<Rightarrow> QueryRecord \<Rightarrow> mem \<Rightarrow> go_error option \<times> mem" where
  "mem_PutQuery now record m = (None, mem_write record m)"

definition mem_GetQuery :: "time \<Rightarrow> string \<Rightarrow> mem \<Rightarrow> (go_error + QueryRecord) \<times> mem" where
  "mem_GetQuery now i m =
     (case mget (mm_queries m) i of
        None \<Rightarrow> (Inl ErrNotFound, m)
      | Some rec \<Rightarrow>
          (Inr (case mget (mm_leases m) i of Some e \<Rightarrow> rec\<lparr>qr_LeaseDeadline := e\<rparr> | None \<Rightarrow> rec), m))"

definition mem_UpdateQuery :: "time \<Rightarrow> QueryRecord \<Rightarrow> mem \<Rightarrow> go_error option \<times> mem" where
  "mem_UpdateQuery now record m =
     (case mget (mm_queries m) (qr_ID record) of
        None \<Rightarrow> (Some ErrNotFound, m)
      | Some _ \<Rightarrow> (None, mem_write record m))"

definition mem_UpdateQueryIfState ::
  "time \<Rightarrow> QueryRecord \<Rightarrow> QueryState list \<Rightarrow> mem \<Rightarrow> (go_error + bool) \<times> mem" where
  "mem_UpdateQueryIfState now record expected m =
     (case mget (mm_queries m) (qr_ID record) of
        None \<Rightarrow> (Inl ErrNotFound, m)
      | Some current \<Rightarrow>
          if qr_State current \<notin> set expected then (Inr False, m)
          else (Inr True, mem_write record m))"

text \<open>A Go map of strings reads the empty string for a missing key.\<close>

definition mget_str :: "(string, string) gomap \<Rightarrow> string \<Rightarrow> string" where
  "mget_str m k = (case mget m k of Some v \<Rightarrow> v | None \<Rightarrow> [])"

definition mem_AcquireIdempotency ::
  "time \<Rightarrow> string \<Rightarrow> string \<Rightarrow> string \<Rightarrow> duration \<Rightarrow> mem \<Rightarrow> (go_error + string \<times> bool) \<times> mem" where
  "mem_AcquireIdempotency now dbID key queryID ttl m =
     (let fk = fullKey dbID key in
      if (case mget (mm_idempExpires m) fk of Some e \<Rightarrow> now < e | None \<Rightarrow> False)
      then (Inr (mget_str (mm_idempotency m) fk, False), m)
      else (Inr (queryID, True),
            m\<lparr>mm_idempotency := mput fk queryID (mm_idempotency m),
              mm_idempExpires := mput fk (time_Add now ttl) (mm_idempExpires m)\<rparr>))"

definition mem_ReleaseIdempotency ::
  "time \<Rightarrow> string \<Rightarrow> string \<Rightarrow> string \<Rightarrow> mem \<Rightarrow> go_error option \<times> mem" where
  "mem_ReleaseIdempotency now dbID key queryID m =
     (let fk = fullKey dbID key in
      if mget_str (mm_idempotency m) fk \<noteq> queryID then (None, m)
      else (None, m\<lparr>mm_idempotency := mdel fk (mm_idempotency m),
                    mm_idempExpires := mdel fk (mm_idempExpires m)\<rparr>))"

definition mem_RefreshIdempotency ::
  "time \<Rightarrow> string \<Rightarrow> string \<Rightarrow> string \<Rightarrow> duration \<Rightarrow> mem \<Rightarrow> go_error option \<times> mem" where
  "mem_RefreshIdempotency now dbID key queryID ttl m =
     (if ttl \<le> 0 then (None, m)
      else let fk = fullKey dbID key in
        if mget_str (mm_idempotency m) fk \<noteq> queryID then (None, m)
        else (None, m\<lparr>mm_idempExpires := mput fk (time_Add now ttl) (mm_idempExpires m)\<rparr>))"

definition mem_Heartbeat :: "time \<Rightarrow> string \<Rightarrow> string list \<Rightarrow> duration \<Rightarrow> mem \<Rightarrow> go_error option \<times> mem" where
  "mem_Heartbeat now instanceID ownedQueryIDs ttl m =
     (None, m\<lparr>mm_leases := fold (\<lambda>i l. mput i (time_Add now ttl) l) ownedQueryIDs (mm_leases m)\<rparr>)"

definition mem_TryLock :: "time \<Rightarrow> string \<Rightarrow> duration \<Rightarrow> mem \<Rightarrow> (go_error + bool) \<times> mem" where
  "mem_TryLock now name ttl m =
     (if (case mget (mm_locks m) name of Some e \<Rightarrow> now < e | None \<Rightarrow> False) then (Inr False, m)
      else (Inr True, m\<lparr>mm_locks := mput name (time_Add now ttl) (mm_locks m)\<rparr>))"

text \<open>The broadcast. A send on a closed channel would panic; see \<open>publish_no_panic\<close> below.\<close>

fun broadcast :: "'a \<Rightarrow> nat list \<Rightarrow> 'a chans \<Rightarrow> 'a chans option" where
  "broadcast msg [] h = Some h"
| "broadcast msg (c # cs) h =
     (case try_send c msg h of None \<Rightarrow> None | Some (_, h') \<Rightarrow> broadcast msg cs h')"

definition mem_publish :: "ControlMsg \<Rightarrow> mem \<Rightarrow> mem option" where
  "mem_publish msg m =
     (case broadcast msg (mm_subscribers m) (mm_chans m) of
        None \<Rightarrow> None | Some h \<Rightarrow> Some (m\<lparr>mm_chans := h\<rparr>))"

definition mem_PublishControl :: "time \<Rightarrow> ControlMsg \<Rightarrow> mem \<Rightarrow> go_error option \<times> mem" where
  "mem_PublishControl now msg m = (None, case mem_publish msg m of None \<Rightarrow> m | Some m' \<Rightarrow> m')"

definition mem_SubscribeControl :: "time \<Rightarrow> mem \<Rightarrow> (go_error + nat) \<times> mem" where
  "mem_SubscribeControl now m =
     (let (ch, h) = make_chan 100 (mm_chans m) in
      (Inr ch, m\<lparr>mm_chans := h, mm_subscribers := mm_subscribers m @ [ch]\<rparr>))"

text \<open>The goroutine \<^verbatim>\<open>SubscribeControl\<close> starts, once its context is done.\<close>

definition mem_unsubscribe :: "nat \<Rightarrow> mem \<Rightarrow> mem option" where
  "mem_unsubscribe ch m =
     (if ch \<in> set (mm_subscribers m)
      then (case close_chan ch (mm_chans m) of
              None \<Rightarrow> None
            | Some h \<Rightarrow> Some (m\<lparr>mm_subscribers := remove1 ch (mm_subscribers m), mm_chans := h\<rparr>))
      else Some m)"

definition in_flight_state :: "QueryState \<Rightarrow> bool" where
  "in_flight_state s \<longleftrightarrow> s = StatePending \<or> s = StateRunning"

definition mem_CountInFlight :: "time \<Rightarrow> string \<Rightarrow> mem \<Rightarrow> (go_error + nat) \<times> mem" where
  "mem_CountInFlight now instanceID m =
     (Inr (length (filter (\<lambda>(i, q). qr_OwnerInstanceID q = instanceID \<and> in_flight_state (qr_State q))
        (mm_queries m))), m)"

definition mem_ListByInstance :: "time \<Rightarrow> string \<Rightarrow> mem \<Rightarrow> (go_error + string list) \<times> mem" where
  "mem_ListByInstance now instanceID m =
     (Inr (map (\<lambda>(i, q). qr_ID q)
        (filter (\<lambda>(i, q). qr_OwnerInstanceID q = instanceID \<and> \<not> IsTerminal (qr_State q)) (mm_queries m))), m)"

fun databases_seen :: "string list \<Rightarrow> QueryRecord list \<Rightarrow> string list" where
  "databases_seen seen [] = []"
| "databases_seen seen (q # qs) =
     (if qr_DatabaseID q \<in> set seen then databases_seen seen qs
      else qr_DatabaseID q # databases_seen (qr_DatabaseID q # seen) qs)"

definition mem_ListDatabasesSeen :: "time \<Rightarrow> mem \<Rightarrow> (go_error + string list) \<times> mem" where
  "mem_ListDatabasesSeen now m = (Inr (databases_seen [] (map snd (mm_queries m))), m)"

definition retention :: "QueryRecord \<Rightarrow> duration" where
  "retention q = (if opt_ResultTTL (qr_Options q) = 0 then 24 * Hour else opt_ResultTTL (qr_Options q))"

definition expired_at :: "time \<Rightarrow> QueryRecord \<Rightarrow> bool" where
  "expired_at now q \<longleftrightarrow>
     IsTerminal (qr_State q) \<and> \<not> IsZero (qr_FinishedAt q) \<and> time_Add (qr_FinishedAt q) (retention q) < now"

definition mem_ListExpiredQueries :: "time \<Rightarrow> mem \<Rightarrow> (go_error + string list) \<times> mem" where
  "mem_ListExpiredQueries now m =
     (Inr (map (\<lambda>(i, q). qr_ID q) (filter (\<lambda>(i, q). expired_at now q) (mm_queries m))), m)"

definition mem_ListStaleQueries :: "time \<Rightarrow> mem \<Rightarrow> (go_error + string list) \<times> mem" where
  "mem_ListStaleQueries now m =
     (Inr (map (\<lambda>(i, q). qr_ID q)
        (filter (\<lambda>(i, q). in_flight_state (qr_State q) \<and>
            (case mget (mm_leases m) (qr_ID q) of None \<Rightarrow> True | Some e \<Rightarrow> e < now)) (mm_queries m))), m)"

definition mem_DeleteQuery :: "time \<Rightarrow> string \<Rightarrow> mem \<Rightarrow> go_error option \<times> mem" where
  "mem_DeleteQuery now i m =
     (None, m\<lparr>mm_queries := mdel i (mm_queries m), mm_leases := mdel i (mm_leases m)\<rparr>)"

fun close_all :: "nat list \<Rightarrow> 'a chans \<Rightarrow> 'a chans option" where
  "close_all [] h = Some h"
| "close_all (c # cs) h = (case close_chan c h of None \<Rightarrow> None | Some h' \<Rightarrow> close_all cs h')"

definition mem_Close :: "mem \<Rightarrow> mem option" where
  "mem_Close m =
     (case close_all (mm_subscribers m) (mm_chans m) of
        None \<Rightarrow> None | Some h \<Rightarrow> Some (m\<lparr>mm_chans := h, mm_subscribers := []\<rparr>))"

definition mem_store :: "mem MetaStore" where
  "mem_store =
     \<lparr>ms_PutQuery = mem_PutQuery, ms_GetQuery = mem_GetQuery, ms_UpdateQuery = mem_UpdateQuery,
      ms_UpdateQueryIfState = mem_UpdateQueryIfState, ms_AcquireIdempotency = mem_AcquireIdempotency,
      ms_ReleaseIdempotency = mem_ReleaseIdempotency, ms_RefreshIdempotency = mem_RefreshIdempotency,
      ms_Heartbeat = mem_Heartbeat, ms_TryLock = mem_TryLock, ms_PublishControl = mem_PublishControl,
      ms_SubscribeControl = mem_SubscribeControl, ms_CountInFlight = mem_CountInFlight,
      ms_ListByInstance = mem_ListByInstance, ms_ListDatabasesSeen = mem_ListDatabasesSeen,
      ms_ListExpiredQueries = mem_ListExpiredQueries, ms_ListStaleQueries = mem_ListStaleQueries,
      ms_DeleteQuery = mem_DeleteQuery\<rparr>"

lemma mem_store_simps [simp]:
  "ms_PutQuery mem_store = mem_PutQuery"
  "ms_GetQuery mem_store = mem_GetQuery"
  "ms_UpdateQuery mem_store = mem_UpdateQuery"
  "ms_UpdateQueryIfState mem_store = mem_UpdateQueryIfState"
  "ms_AcquireIdempotency mem_store = mem_AcquireIdempotency"
  "ms_ReleaseIdempotency mem_store = mem_ReleaseIdempotency"
  "ms_RefreshIdempotency mem_store = mem_RefreshIdempotency"
  "ms_Heartbeat mem_store = mem_Heartbeat"
  "ms_TryLock mem_store = mem_TryLock"
  "ms_PublishControl mem_store = mem_PublishControl"
  "ms_SubscribeControl mem_store = mem_SubscribeControl"
  "ms_CountInFlight mem_store = mem_CountInFlight"
  "ms_ListByInstance mem_store = mem_ListByInstance"
  "ms_ListDatabasesSeen mem_store = mem_ListDatabasesSeen"
  "ms_ListExpiredQueries mem_store = mem_ListExpiredQueries"
  "ms_ListStaleQueries mem_store = mem_ListStaleQueries"
  "ms_DeleteQuery mem_store = mem_DeleteQuery"
  by (simp_all add: mem_store_def)

section \<open>The contract\<close>

text \<open>The abstract store and what each operation does to it.\<close>

record meta_view =
  v_rec :: "string \<Rightarrow> QueryRecord option"
  v_idem :: "time \<Rightarrow> string \<Rightarrow> string option"
  v_held :: "time \<Rightarrow> string \<Rightarrow> bool"

definition put_view :: "QueryRecord \<Rightarrow> meta_view \<Rightarrow> meta_view" where
  "put_view r v = v\<lparr>v_rec := (v_rec v)(qr_ID r \<mapsto> strip_lease r)\<rparr>"

definition del_view :: "string \<Rightarrow> meta_view \<Rightarrow> meta_view" where
  "del_view i v = v\<lparr>v_rec := (v_rec v)(i := None)\<rparr>"

text \<open>The key is held by \<open>q\<close> until \<open>e\<close>.\<close>

definition hold_view :: "string \<Rightarrow> string \<Rightarrow> time \<Rightarrow> meta_view \<Rightarrow> meta_view" where
  "hold_view k q e v =
     v\<lparr>v_idem := (\<lambda>t k'. if k' = k then (if t < e then Some q else None) else v_idem v t k')\<rparr>"

definition release_view :: "string \<Rightarrow> string \<Rightarrow> meta_view \<Rightarrow> meta_view" where
  "release_view k q v =
     v\<lparr>v_idem := (\<lambda>t k'. if k' = k \<and> v_idem v t k' = Some q then None else v_idem v t k')\<rparr>"

definition lock_view :: "string \<Rightarrow> time \<Rightarrow> meta_view \<Rightarrow> meta_view" where
  "lock_view n e v = v\<lparr>v_held := (\<lambda>t n'. if n' = n then t < e else v_held v t n')\<rparr>"

lemma put_view_simps [simp]:
  "v_rec (put_view r v) = (v_rec v)(qr_ID r \<mapsto> strip_lease r)" "v_idem (put_view r v) = v_idem v"
  "v_held (put_view r v) = v_held v"
  by (simp_all add: put_view_def)

lemma del_view_simps [simp]:
  "v_rec (del_view i v) = (v_rec v)(i := None)" "v_idem (del_view i v) = v_idem v"
  "v_held (del_view i v) = v_held v"
  by (simp_all add: del_view_def)

lemma hold_view_simps [simp]:
  "v_rec (hold_view k q e v) = v_rec v" "v_held (hold_view k q e v) = v_held v"
  "v_idem (hold_view k q e v) t k' = (if k' = k then (if t < e then Some q else None) else v_idem v t k')"
  by (simp_all add: hold_view_def)

lemma release_view_simps [simp]:
  "v_rec (release_view k q v) = v_rec v" "v_held (release_view k q v) = v_held v"
  "v_idem (release_view k q v) t k' =
     (if k' = k \<and> v_idem v t k' = Some q then None else v_idem v t k')"
  by (simp_all add: release_view_def)

lemma lock_view_simps [simp]:
  "v_rec (lock_view n e v) = v_rec v" "v_idem (lock_view n e v) = v_idem v"
  "v_held (lock_view n e v) t n' = (if n' = n then t < e else v_held v t n')"
  by (simp_all add: lock_view_def)

lemma strip_lease_simps [simp]:
  "qr_ID (strip_lease r) = qr_ID r" "qr_State (strip_lease r) = qr_State r"
  "qr_LeaseDeadline (strip_lease r) = 0" "qr_OwnerInstanceID (strip_lease r) = qr_OwnerInstanceID r"
  "qr_Result (strip_lease r) = qr_Result r" "qr_Subject (strip_lease r) = qr_Subject r"
  "qr_Error (strip_lease r) = qr_Error r" "qr_FinishedAt (strip_lease r) = qr_FinishedAt r"
  "qr_Options (strip_lease r) = qr_Options r" "qr_DatabaseID (strip_lease r) = qr_DatabaseID r"
  "qr_CreatedAt (strip_lease r) = qr_CreatedAt r" "qr_IdempotencyKey (strip_lease r) = qr_IdempotencyKey r"
  "qr_Stats (strip_lease r) = qr_Stats r" "qr_SQL (strip_lease r) = qr_SQL r"
  "qr_StartedAt (strip_lease r) = qr_StartedAt r"
  "strip_lease (strip_lease r) = strip_lease r"
  by (simp_all add: strip_lease_def)

locale meta_store =
  fixes ms :: "'s MetaStore" and inv :: "'s \<Rightarrow> bool" and view :: "'s \<Rightarrow> meta_view"
  assumes stored: "inv s \<Longrightarrow> v_rec (view s) i = Some r \<Longrightarrow> qr_ID r = i \<and> strip_lease r = r"
    and idem_antimono: "inv s \<Longrightarrow> t \<le> t' \<Longrightarrow> v_idem (view s) t' k = Some q \<Longrightarrow> v_idem (view s) t k = Some q"
    and put: "inv s \<Longrightarrow> ms_PutQuery ms now r s = (e, s') \<Longrightarrow>
        inv s' \<and> (view s' = put_view r (view s) \<or> e \<noteq> None \<and> view s' = view s)"
    and get: "inv s \<Longrightarrow> ms_GetQuery ms now i s = (gr, s') \<Longrightarrow> inv s' \<and> view s' = view s \<and>
        (case gr of Inr r \<Rightarrow> v_rec (view s) i = Some (strip_lease r)
                   | Inl e \<Rightarrow> errors_Is e ErrNotFound \<longrightarrow> v_rec (view s) i = None)"
    and update: "inv s \<Longrightarrow> ms_UpdateQuery ms now r s = (e, s') \<Longrightarrow>
        inv s' \<and> (view s' = put_view r (view s) \<or> e \<noteq> None \<and> view s' = view s)"
    and update_if: "inv s \<Longrightarrow> ms_UpdateQueryIfState ms now r exps s = (ur, s') \<Longrightarrow> inv s' \<and>
        (view s' = view s \<and> ur \<noteq> Inr True \<or>
         view s' = put_view r (view s) \<and> ur \<noteq> Inr False \<and>
         (\<exists>r0. v_rec (view s) (qr_ID r) = Some r0 \<and> qr_State r0 \<in> set exps))"
    and acquire: "inv s \<Longrightarrow> ms_AcquireIdempotency ms now db key q ttl s = (ar, s') \<Longrightarrow> inv s' \<and>
        (view s' = view s \<and> (\<forall>q' b. ar = Inr (q', b) \<longrightarrow> \<not> b \<and> v_idem (view s) now (fullKey db key) = Some q') \<or>
         view s' = hold_view (fullKey db key) q (time_Add now ttl) (view s) \<and>
         v_idem (view s) now (fullKey db key) = None \<and> (\<forall>q' b. ar = Inr (q', b) \<longrightarrow> b \<and> q' = q))"
    and release: "inv s \<Longrightarrow> ms_ReleaseIdempotency ms now db key q s = (e, s') \<Longrightarrow>
        inv s' \<and> (view s' = release_view (fullKey db key) q (view s) \<or> e \<noteq> None \<and> view s' = view s)"
    and refresh: "inv s \<Longrightarrow> ms_RefreshIdempotency ms now db key q ttl s = (e, s') \<Longrightarrow> inv s' \<and>
        (view s' = view s \<and> (e = None \<longrightarrow> 0 < ttl \<longrightarrow> v_idem (view s) now (fullKey db key) \<noteq> Some q) \<or>
         view s' = hold_view (fullKey db key) q (time_Add now ttl) (view s) \<and> 0 < ttl \<and>
         v_idem (view s) now (fullKey db key) \<in> {None, Some q})"
    and heartbeat: "inv s \<Longrightarrow> ms_Heartbeat ms now inst ids ttl s = (e, s') \<Longrightarrow> inv s' \<and> view s' = view s"
    and try_lock: "inv s \<Longrightarrow> ms_TryLock ms now n ttl s = (lr, s') \<Longrightarrow> inv s' \<and>
        (view s' = view s \<and> lr \<noteq> Inr True \<and> (lr = Inr False \<longrightarrow> v_held (view s) now n) \<or>
         view s' = lock_view n (time_Add now ttl) (view s) \<and> lr \<noteq> Inr False \<and> \<not> v_held (view s) now n)"
    and publish: "inv s \<Longrightarrow> ms_PublishControl ms now msg s = (e, s') \<Longrightarrow> inv s' \<and> view s' = view s"
    and subscribe: "inv s \<Longrightarrow> ms_SubscribeControl ms now s = (ch, s') \<Longrightarrow> inv s' \<and> view s' = view s"
    and count: "inv s \<Longrightarrow> ms_CountInFlight ms now inst s = (cnt, s') \<Longrightarrow> inv s' \<and> view s' = view s"
    and list_inst: "inv s \<Longrightarrow> ms_ListByInstance ms now inst s = (l, s') \<Longrightarrow> inv s' \<and> view s' = view s"
    and list_seen: "inv s \<Longrightarrow> ms_ListDatabasesSeen ms now s = (l, s') \<Longrightarrow> inv s' \<and> view s' = view s"
    and list_expired: "inv s \<Longrightarrow> ms_ListExpiredQueries ms now s = (l, s') \<Longrightarrow> inv s' \<and> view s' = view s"
    and list_stale: "inv s \<Longrightarrow> ms_ListStaleQueries ms now s = (l, s') \<Longrightarrow> inv s' \<and> view s' = view s"
    and delete: "inv s \<Longrightarrow> ms_DeleteQuery ms now i s = (e, s') \<Longrightarrow>
        inv s' \<and> (view s' = del_view i (view s) \<or> e \<noteq> None \<and> view s' = view s)"

section \<open>Sequences of operations\<close>

text \<open>
  What the instances of a cluster do to the shared store, in the order the store applies it:
  one operation with the clock reading it is given. The reads are left out, they change nothing.
\<close>

datatype store_op =
    OpPut QueryRecord
  | OpUpdate QueryRecord
  | OpUpdateIf QueryRecord "QueryState list"
  | OpAcquire string string string duration
  | OpRelease string string string
  | OpRefresh string string string duration
  | OpHeartbeat string "string list" duration
  | OpLock string duration
  | OpPublish ControlMsg
  | OpDelete string

fun exec_op :: "'s MetaStore \<Rightarrow> time \<Rightarrow> store_op \<Rightarrow> 's \<Rightarrow> 's" where
  "exec_op ms now (OpPut r) s = snd (ms_PutQuery ms now r s)"
| "exec_op ms now (OpUpdate r) s = snd (ms_UpdateQuery ms now r s)"
| "exec_op ms now (OpUpdateIf r exps) s = snd (ms_UpdateQueryIfState ms now r exps s)"
| "exec_op ms now (OpAcquire db key q ttl) s = snd (ms_AcquireIdempotency ms now db key q ttl s)"
| "exec_op ms now (OpRelease db key q) s = snd (ms_ReleaseIdempotency ms now db key q s)"
| "exec_op ms now (OpRefresh db key q ttl) s = snd (ms_RefreshIdempotency ms now db key q ttl s)"
| "exec_op ms now (OpHeartbeat inst ids ttl) s = snd (ms_Heartbeat ms now inst ids ttl s)"
| "exec_op ms now (OpLock n ttl) s = snd (ms_TryLock ms now n ttl s)"
| "exec_op ms now (OpPublish msg) s = snd (ms_PublishControl ms now msg s)"
| "exec_op ms now (OpDelete i) s = snd (ms_DeleteQuery ms now i s)"

definition run_ops :: "'s MetaStore \<Rightarrow> (time \<times> store_op) list \<Rightarrow> 's \<Rightarrow> 's" where
  "run_ops ms ops s = fold (\<lambda>(now, op). exec_op ms now op) ops s"

lemma run_ops_simps [simp]:
  "run_ops ms [] s = s" "run_ops ms ((now, op) # ops) s = run_ops ms ops (exec_op ms now op s)"
  by (simp_all add: run_ops_def)

text \<open>Operations that write the record \<open>i\<close> through the fence only, expecting a state that is not terminal.\<close>

fun fenced :: "string \<Rightarrow> store_op \<Rightarrow> bool" where
  "fenced i (OpPut r) = (qr_ID r \<noteq> i)"
| "fenced i (OpUpdate r) = (qr_ID r \<noteq> i)"
| "fenced i (OpUpdateIf r exps) = (qr_ID r = i \<longrightarrow> list_all (\<lambda>st. \<not> IsTerminal st) exps)"
| "fenced i (OpDelete j) = (j \<noteq> i)"
| "fenced i _ = True"

text \<open>Operations that are not the holder's own release or refresh of the key.\<close>

fun leaves_key :: "string \<Rightarrow> string \<Rightarrow> store_op \<Rightarrow> bool" where
  "leaves_key k q (OpRelease db key q') = (fullKey db key = k \<longrightarrow> q' \<noteq> q)"
| "leaves_key k q (OpRefresh db key q' ttl) = (fullKey db key = k \<longrightarrow> q' \<noteq> q)"
| "leaves_key k q _ = True"

text \<open>The abstract store after an operation: the operation took effect, or it failed or did not apply.\<close>

fun effects :: "time \<Rightarrow> store_op \<Rightarrow> meta_view \<Rightarrow> meta_view set" where
  "effects now (OpPut r) v = {v, put_view r v}"
| "effects now (OpUpdate r) v = {v, put_view r v}"
| "effects now (OpUpdateIf r exps) v =
     {v} \<union> {v'. v' = put_view r v \<and> (\<exists>r0. v_rec v (qr_ID r) = Some r0 \<and> qr_State r0 \<in> set exps)}"
| "effects now (OpAcquire db key q ttl) v =
     {v} \<union> {v'. v' = hold_view (fullKey db key) q (time_Add now ttl) v \<and> v_idem v now (fullKey db key) = None}"
| "effects now (OpRelease db key q) v = {v, release_view (fullKey db key) q v}"
| "effects now (OpRefresh db key q ttl) v =
     {v} \<union> {v'. v' = hold_view (fullKey db key) q (time_Add now ttl) v \<and>
                v_idem v now (fullKey db key) \<in> {None, Some q}}"
| "effects now (OpHeartbeat inst ids ttl) v = {v}"
| "effects now (OpLock n ttl) v = {v} \<union> {v'. v' = lock_view n (time_Add now ttl) v \<and> \<not> v_held v now n}"
| "effects now (OpPublish msg) v = {v}"
| "effects now (OpDelete i) v = {v, del_view i v}"

lemma effects_fenced:
  "v' \<in> effects now op v \<Longrightarrow> v_rec v i = Some r \<Longrightarrow> IsTerminal (qr_State r) \<Longrightarrow> fenced i op \<Longrightarrow>
     v_rec v' i = Some r"
  by (cases op) (auto simp: list_all_iff)

lemma effects_key:
  "v' \<in> effects now op v \<Longrightarrow> \<forall>t < e. v_idem v t k = Some q \<Longrightarrow> now < e \<Longrightarrow> leaves_key k q op \<Longrightarrow>
     \<forall>t < e. v_idem v' t k = Some q"
  by (cases op) auto

lemma effects_lock:
  "v' \<in> effects now op v \<Longrightarrow> \<forall>t < e. v_held v t n \<Longrightarrow> now < e \<Longrightarrow> \<forall>t < e. v_held v' t n"
  by (cases op) auto

context meta_store
begin

lemma exec_effects:
  assumes "inv s"
  shows "inv (exec_op ms now op s) \<and> view (exec_op ms now op s) \<in> effects now op (view s)"
proof (cases op)
  case (OpPut x)
  with assms put [of s now x] show ?thesis by (cases "ms_PutQuery ms now x s") auto
next
  case (OpUpdate x)
  with assms update [of s now x] show ?thesis by (cases "ms_UpdateQuery ms now x s") auto
next
  case (OpUpdateIf x exps)
  with assms update_if [of s now x exps] show ?thesis by (cases "ms_UpdateQueryIfState ms now x exps s") auto
next
  case (OpAcquire db key q ttl)
  with assms acquire [of s now db key q ttl] show ?thesis
    by (cases "ms_AcquireIdempotency ms now db key q ttl s") auto
next
  case (OpRelease db key q)
  with assms release [of s now db key q] show ?thesis by (cases "ms_ReleaseIdempotency ms now db key q s") auto
next
  case (OpRefresh db key q ttl)
  with assms refresh [of s now db key q ttl] show ?thesis
    by (cases "ms_RefreshIdempotency ms now db key q ttl s") auto
next
  case (OpHeartbeat inst ids ttl)
  with assms heartbeat [of s now inst ids ttl] show ?thesis by (cases "ms_Heartbeat ms now inst ids ttl s") auto
next
  case (OpLock n ttl)
  with assms try_lock [of s now n ttl] show ?thesis by (cases "ms_TryLock ms now n ttl s") auto
next
  case (OpPublish msg)
  with assms publish [of s now msg] show ?thesis by (cases "ms_PublishControl ms now msg s") auto
next
  case (OpDelete j)
  with assms delete [of s now j] show ?thesis by (cases "ms_DeleteQuery ms now j s") auto
qed

lemmas exec_inv = exec_effects [THEN conjunct1]
lemmas exec_view = exec_effects [THEN conjunct2]

lemma run_inv: "inv s \<Longrightarrow> inv (run_ops ms ops s)"
  by (induction ops arbitrary: s) (auto simp: exec_inv)

lemma terminal_survives:
  "inv s \<Longrightarrow> v_rec (view s) i = Some r \<Longrightarrow> IsTerminal (qr_State r) \<Longrightarrow> \<forall>(t, op) \<in> set ops. fenced i op \<Longrightarrow>
     v_rec (view (run_ops ms ops s)) i = Some r"
proof (induction ops arbitrary: s)
  case (Cons x ops)
  obtain t op where x: "x = (t, op)" by (cases x)
  from Cons.prems have "v_rec (view (exec_op ms t op s)) i = Some r"
    by (intro effects_fenced [OF exec_view]) (auto simp: x)
  with Cons.IH [of "exec_op ms t op s"] Cons.prems exec_inv [of s t op] show ?case by (simp add: x)
qed simp

lemma key_stays:
  "inv s \<Longrightarrow> \<forall>t < e. v_idem (view s) t k = Some q \<Longrightarrow> \<forall>(t, op) \<in> set ops. t < e \<and> leaves_key k q op \<Longrightarrow>
     \<forall>t < e. v_idem (view (run_ops ms ops s)) t k = Some q"
proof (induction ops arbitrary: s)
  case (Cons x ops)
  obtain t op where x: "x = (t, op)" by (cases x)
  from Cons.prems have "\<forall>t' < e. v_idem (view (exec_op ms t op s)) t' k = Some q"
    by (intro effects_key [OF exec_view [of s t op], of e k q]) (auto simp: x)
  with Cons.IH [of "exec_op ms t op s"] Cons.prems exec_inv [of s t op] show ?case by (simp add: x)
qed simp

lemma lock_stays:
  "inv s \<Longrightarrow> \<forall>t < e. v_held (view s) t n \<Longrightarrow> \<forall>(t, op) \<in> set ops. t < e \<Longrightarrow>
     \<forall>t < e. v_held (view (run_ops ms ops s)) t n"
proof (induction ops arbitrary: s)
  case (Cons x ops)
  obtain t op where x: "x = (t, op)" by (cases x)
  from Cons.prems have "\<forall>t' < e. v_held (view (exec_op ms t op s)) t' n"
    by (intro effects_lock [OF exec_view [of s t op], of e n]) (auto simp: x)
  with Cons.IH [of "exec_op ms t op s"] Cons.prems exec_inv [of s t op] show ?case by (simp add: x)
qed simp

lemma lock_exclusive:
  assumes "inv s" and "ms_TryLock ms now n ttl s = (Inr True, s')"
    and "\<forall>(t, op) \<in> set ops. t < time_Add now ttl" and "t' < time_Add now ttl"
  shows "fst (ms_TryLock ms t' n ttl' (run_ops ms ops s')) \<noteq> Inr True"
proof -
  from try_lock [OF assms(1,2)] have inv': "inv s'" and h: "\<forall>t < time_Add now ttl. v_held (view s') t n" by auto
  have held: "v_held (view (run_ops ms ops s')) t' n" using lock_stays [OF inv' h assms(3)] assms(4) by blast
  obtain res s2 where r: "ms_TryLock ms t' n ttl' (run_ops ms ops s') = (res, s2)"
    by (cases "ms_TryLock ms t' n ttl' (run_ops ms ops s')")
  from try_lock [OF run_inv [OF inv'] r] held show ?thesis by (auto simp: r)
qed

lemma acquire_exclusive:
  assumes "inv s" and "ms_AcquireIdempotency ms now db key q ttl s = (Inr (q, True), s')"
    and "\<forall>(t, op) \<in> set ops. t < time_Add now ttl \<and> leaves_key (fullKey db key) q op"
    and "t' < time_Add now ttl" and "fullKey db' key' = fullKey db key"
  shows "\<forall>q'' b. fst (ms_AcquireIdempotency ms t' db' key' q' ttl' (run_ops ms ops s')) = Inr (q'', b) \<longrightarrow> q'' = q \<and> \<not> b"
proof -
  from acquire [OF assms(1,2)] have inv': "inv s'" and held: "\<forall>t < time_Add now ttl. v_idem (view s') t (fullKey db key) = Some q"
    by auto
  from key_stays [OF inv' held assms(3)] assms(4)
  have h: "v_idem (view (run_ops ms ops s')) t' (fullKey db' key') = Some q" by (simp add: assms(5))
  obtain res s2 where r: "ms_AcquireIdempotency ms t' db' key' q' ttl' (run_ops ms ops s') = (res, s2)"
    by (cases "ms_AcquireIdempotency ms t' db' key' q' ttl' (run_ops ms ops s')")
  from acquire [OF run_inv [OF inv'] r] h show ?thesis by (auto simp: r)
qed

end

section \<open>The memory store keeps the contract\<close>

definition key_holder :: "(string, string) gomap \<Rightarrow> (string, time) gomap \<Rightarrow> time \<Rightarrow> string \<Rightarrow> string option" where
  "key_holder keys exps t k =
     (case mget exps k of Some e \<Rightarrow> if t < e then Some (mget_str keys k) else None | None \<Rightarrow> None)"

definition lock_held :: "(string, time) gomap \<Rightarrow> time \<Rightarrow> string \<Rightarrow> bool" where
  "lock_held locks t n = (case mget locks n of Some e \<Rightarrow> t < e | None \<Rightarrow> False)"

definition mem_view :: "mem \<Rightarrow> meta_view" where
  "mem_view m =
     \<lparr>v_rec = mget (mm_queries m), v_idem = key_holder (mm_idempotency m) (mm_idempExpires m),
      v_held = lock_held (mm_locks m)\<rparr>"

definition mem_inv :: "mem \<Rightarrow> bool" where
  "mem_inv m \<longleftrightarrow>
     mwf (mm_queries m) \<and>
     (\<forall>i r. mget (mm_queries m) i = Some r \<longrightarrow> qr_ID r = i \<and> qr_LeaseDeadline r = 0) \<and>
     wf_chans (mm_chans m) \<and> distinct (mm_subscribers m) \<and>
     (\<forall>c \<in> set (mm_subscribers m). open_chan (mm_chans m) c)"

lemma mem_inv_new: "mem_inv NewMemoryMetaStore"
  by (simp add: mem_inv_def NewMemoryMetaStore_def)

lemma mem_view_new: "v_rec (mem_view NewMemoryMetaStore) i = None"
  by (simp add: mem_view_def NewMemoryMetaStore_def)

lemma mem_write_view: "mem_view (mem_write r m) = put_view r (mem_view m)"
  by (simp add: mem_view_def mem_write_def Let_def put_view_def mget_mput_fun)

lemma mem_write_inv: "mem_inv m \<Longrightarrow> mem_inv (mem_write r m)"
  by (auto simp: mem_inv_def mem_write_def Let_def)

lemma broadcast_open:
  "\<forall>c \<in> set cs. open_chan h c \<Longrightarrow> \<exists>h'. broadcast msg cs h = Some h'
     \<and> (\<forall>d. open_chan h' d = open_chan h d) \<and> (wf_chans h \<longrightarrow> wf_chans h') \<and> cs_next h' = cs_next h"
proof (induction cs arbitrary: h)
  case (Cons c cs)
  then obtain b h1 where h1: "try_send c msg h = Some (b, h1)" using try_send_open [of h c msg] by auto
  note k = try_send_keeps [OF h1]
  from Cons.IH [of h1] Cons.prems k show ?case by (auto simp: h1)
qed simp

lemma publish_no_panic:
  assumes "mem_inv m"
  shows "\<exists>m'. mem_publish msg m = Some m' \<and> mem_inv m' \<and> mem_view m' = mem_view m"
  using assms broadcast_open [of "mm_subscribers m" "mm_chans m" msg]
  by (auto simp: mem_publish_def mem_inv_def mem_view_def)

lemma subscribe_inv: "mem_inv m \<Longrightarrow> mem_inv (snd (mem_SubscribeControl now m))"
proof -
  assume inv: "mem_inv m"
  then have "\<forall>c \<in> set (mm_subscribers m). c \<noteq> cs_next (mm_chans m)"
    using open_chan_less by (fastforce simp: mem_inv_def)
  with inv wf_make_chan [of "mm_chans m" 100] open_make_chan [of 100 "mm_chans m"] show ?thesis
    by (cases "make_chan 100 (mm_chans m)") (auto simp: mem_inv_def mem_SubscribeControl_def make_chan_def)
qed

lemmas mem_ops = mem_PutQuery_def mem_GetQuery_def mem_UpdateQuery_def mem_UpdateQueryIfState_def
  mem_AcquireIdempotency_def mem_ReleaseIdempotency_def mem_RefreshIdempotency_def mem_Heartbeat_def
  mem_TryLock_def mem_PublishControl_def mem_CountInFlight_def mem_ListByInstance_def
  mem_ListDatabasesSeen_def mem_ListExpiredQueries_def mem_ListStaleQueries_def mem_DeleteQuery_def

lemma key_holder_acquire:
  "key_holder (mput k q keys) (mput k e exps) =
     (\<lambda>t k'. if k' = k then (if t < e then Some q else None) else key_holder keys exps t k')"
  by (intro ext) (simp add: key_holder_def mget_str_def split: option.splits)

lemma key_holder_refresh:
  "mget_str keys k = q \<Longrightarrow> key_holder keys (mput k e exps) =
     (\<lambda>t k'. if k' = k then (if t < e then Some q else None) else key_holder keys exps t k')"
  by (intro ext) (simp add: key_holder_def)

lemma key_holder_release:
  "mget_str keys k = q \<Longrightarrow> key_holder (mdel k keys) (mdel k exps) =
     (\<lambda>t k'. if k' = k \<and> key_holder keys exps t k' = Some q then None else key_holder keys exps t k')"
  by (intro ext) (auto simp: key_holder_def mget_str_def split: option.splits)

lemma key_holder_release_other:
  "mget_str keys k \<noteq> q \<Longrightarrow>
     (\<lambda>t k'. if k' = k \<and> key_holder keys exps t k' = Some q then None else key_holder keys exps t k')
       = key_holder keys exps"
  by (intro ext) (auto simp: key_holder_def split: option.splits)

lemma lock_held_put:
  "lock_held (mput n e locks) = (\<lambda>t n'. if n' = n then t < e else lock_held locks t n')"
  by (intro ext) (simp add: lock_held_def)

lemma fold_mput_leases: "mwf m \<Longrightarrow> mwf (fold (\<lambda>i l. mput i v l) is m)"
  by (induction "is" arbitrary: m) auto

lemma mem_acquire_law:
  assumes "mem_inv m" and "mem_AcquireIdempotency now db key q ttl m = (res, m')"
  shows "mem_inv m' \<and>
        (mem_view m' = mem_view m \<and> (\<forall>q' b. res = Inr (q', b) \<longrightarrow> \<not> b \<and> v_idem (mem_view m) now (fullKey db key) = Some q') \<or>
         mem_view m' = hold_view (fullKey db key) q (time_Add now ttl) (mem_view m) \<and>
         v_idem (mem_view m) now (fullKey db key) = None \<and> (\<forall>q' b. res = Inr (q', b) \<longrightarrow> b \<and> q' = q))"
proof (cases "case mget (mm_idempExpires m) (fullKey db key) of Some e \<Rightarrow> now < e | None \<Rightarrow> False")
  case True
  with assms show ?thesis
    by (auto simp: mem_AcquireIdempotency_def mem_view_def key_holder_def split: option.splits)
next
  case False
  then have "key_holder (mm_idempotency m) (mm_idempExpires m) now (fullKey db key) = None"
    by (auto simp: key_holder_def split: option.splits)
  moreover have "res = Inr (q, True)" and "m' = m\<lparr>mm_idempotency := mput (fullKey db key) q (mm_idempotency m),
      mm_idempExpires := mput (fullKey db key) (time_Add now ttl) (mm_idempExpires m)\<rparr>"
    using False assms(2) by (simp_all add: mem_AcquireIdempotency_def Let_def)
  ultimately show ?thesis using assms(1)
    by (simp add: mem_view_def hold_view_def key_holder_acquire mem_inv_def cong: if_cong)
qed

lemma mem_release_law:
  assumes "mem_inv m" and "mem_ReleaseIdempotency now db key q m = (e, m')"
  shows "mem_inv m' \<and> mem_view m' = release_view (fullKey db key) q (mem_view m)"
proof (cases "mget_str (mm_idempotency m) (fullKey db key) = q")
  case True
  with assms show ?thesis
    by (auto simp: mem_ReleaseIdempotency_def mem_view_def release_view_def mem_inv_def key_holder_release Let_def cong: if_cong)
next
  case False
  with assms key_holder_release_other [OF False, of "mm_idempExpires m"] show ?thesis
    by (auto simp: mem_ReleaseIdempotency_def mem_view_def release_view_def Let_def cong: if_cong)
qed

lemma mem_refresh_law:
  assumes "mem_inv m" and "mem_RefreshIdempotency now db key q ttl m = (e, m')"
  shows "mem_inv m' \<and>
        (mem_view m' = mem_view m \<and> (e = None \<longrightarrow> 0 < ttl \<longrightarrow> v_idem (mem_view m) now (fullKey db key) \<noteq> Some q) \<or>
         mem_view m' = hold_view (fullKey db key) q (time_Add now ttl) (mem_view m) \<and> 0 < ttl \<and>
         v_idem (mem_view m) now (fullKey db key) \<in> {None, Some q})"
proof (cases "ttl \<le> 0 \<or> mget_str (mm_idempotency m) (fullKey db key) \<noteq> q")
  case True
  then have "m' = m" using assms(2) by (auto simp: mem_RefreshIdempotency_def Let_def split: if_splits)
  with True assms(1) show ?thesis by (auto simp: mem_view_def key_holder_def split: option.splits)
next
  case False
  then have m': "m' = m\<lparr>mm_idempExpires := mput (fullKey db key) (time_Add now ttl) (mm_idempExpires m)\<rparr>"
    using assms by (simp add: mem_RefreshIdempotency_def Let_def)
  have "mem_view m' = hold_view (fullKey db key) q (time_Add now ttl) (mem_view m)"
    using False by (simp add: m' mem_view_def hold_view_def key_holder_refresh cong: if_cong)
  moreover have "mem_inv m'" using assms(1) by (simp add: m' mem_inv_def)
  ultimately show ?thesis using False by (auto simp: mem_view_def key_holder_def split: option.splits)
qed

interpretation mem: meta_store mem_store mem_inv mem_view
proof (unfold_locales, goal_cases)
  case (1 s i r)
  then show ?case by (simp add: mem_inv_def mem_view_def strip_lease_def)
next
  case (2 s t t' k q)
  then show ?case by (auto simp: mem_view_def key_holder_def split: option.splits if_splits)
next
  case (3 s now r e s')
  then show ?case by (auto simp: mem_ops mem_write_view mem_write_inv)
next
  case (4 s now i gr s')
  then show ?case
    by (auto simp: mem_ops mem_view_def mem_inv_def strip_lease_def split: option.splits)
next
  case (5 s now r e s')
  then show ?case by (auto simp: mem_ops mem_write_view mem_write_inv split: option.splits)
next
  case (6 s now r exps ur s')
  then show ?case
    by (auto simp: mem_ops mem_write_view mem_write_inv split: option.splits if_splits) (auto simp: mem_view_def)
next
  case (7 s now db key q ttl ar s')
  then show ?case by (intro mem_acquire_law) simp_all
next
  case (8 s now db key q e s')
  then show ?case using mem_release_law [of s now db key q e s'] by simp
next
  case (9 s now db key q ttl e s')
  then show ?case by (intro mem_refresh_law) simp_all
next
  case (11 s now n ttl lr s')
  then show ?case
    by (auto simp: mem_ops mem_view_def mem_inv_def lock_view_def lock_held_put lock_held_def split: option.splits if_splits
        cong: if_cong)
next
  case (12 s now msg e s')
  then show ?case using publish_no_panic [of s msg] by (auto simp: mem_ops)
next
  case (13 s now ch s')
  then have "mem_SubscribeControl now s = (ch, s')" by simp
  with 13(1) subscribe_inv [of s now] show ?case by (auto simp: mem_SubscribeControl_def mem_view_def make_chan_def)
qed (auto simp: mem_ops mem_view_def mem_inv_def del_view_def mget_mdel_fun)

section \<open>Properties of the memory store\<close>

fun effects_run :: "(time \<times> store_op) list \<Rightarrow> meta_view \<Rightarrow> meta_view set" where
  "effects_run [] v = {v}"
| "effects_run ((now, op) # ops) v = (\<Union>v' \<in> effects now op v. effects_run ops v')"

lemma mem_run_effects: "mem_inv m \<Longrightarrow> mem_view (run_ops mem_store ops m) \<in> effects_run ops (mem_view m)"
proof (induction ops arbitrary: m)
  case (Cons x ops)
  obtain t op where x: "x = (t, op)" by (cases x)
  from Cons mem.exec_effects [of m t op] show ?case by (auto simp: x)
qed simp

definition sample_options :: QueryOptions where
  "sample_options = \<lparr>opt_Timeout = 0, opt_Mode = ''async'', opt_ResultTTL = Hour, opt_IdempotencyKey = ''k'',
     opt_ResultFormat = ''jsonl'', opt_StorageBackend = ''fs''\<rparr>"

definition sample_record :: QueryRecord where
  "sample_record = \<lparr>qr_ID = ''q1'', qr_DatabaseID = ''main'', qr_SQL = ''select 1'', qr_Options = sample_options,
     qr_State = StateRunning, qr_OwnerInstanceID = ''n1'', qr_CreatedAt = 100, qr_StartedAt = 101,
     qr_FinishedAt = 0, qr_Error = None, qr_Stats = zero_stats, qr_Result = None, qr_IdempotencyKey = ''k'',
     qr_LeaseDeadline = 0, qr_Subject = ''alice''\<rparr>"

definition sample_mem :: mem where
  "sample_mem = mem_write (sample_record\<lparr>qr_State := StateSucceeded, qr_FinishedAt := 200\<rparr>) NewMemoryMetaStore"

lemma sample_mem_inv: "mem_inv sample_mem"
  by (simp add: sample_mem_def mem_write_inv mem_inv_new)

text \<open>
  C1. The fence of the memory store. Once a record is terminal, no sequence of operations of any
  number of instances changes it, as long as they write it through the conditional update with
  expected states that are not terminal: whatever else they put, delete, acquire, release,
  refresh, lock, publish or heartbeat, and in whatever order and at whatever clock readings, the
  record that is read is that one.
\<close>

theorem mem_terminal_fence:
  assumes "mem_inv m" and "mget (mm_queries m) i = Some r" and "IsTerminal (qr_State r)"
    and "\<forall>(t, op) \<in> set ops. fenced i op"
  shows "mget (mm_queries (run_ops mem_store ops m)) i = Some r"
  using mem.terminal_survives [of m i r ops] assms by (simp add: mem_view_def)

theorem mem_terminal_fence_witness:
  "qr_State (the (mget (mm_queries (run_ops mem_store
      [(300, OpUpdateIf (sample_record\<lparr>qr_State := StateFailed\<rparr>) [StatePending, StateRunning]),
       (301, OpHeartbeat ''n2'' [''q1''] 5), (302, OpDelete ''q2'')] sample_mem)) ''q1'')) = StateSucceeded"
proof -
  let ?r = "sample_record\<lparr>qr_State := StateSucceeded, qr_FinishedAt := 200\<rparr>"
  have "mget (mm_queries sample_mem) ''q1'' = Some ?r"
    by (simp add: sample_mem_def mem_write_def sample_record_def strip_lease_def)
  from mem_terminal_fence [OF sample_mem_inv this, of
      "[(300, OpUpdateIf (sample_record\<lparr>qr_State := StateFailed\<rparr>) [StatePending, StateRunning]),
        (301, OpHeartbeat ''n2'' [''q1''] 5), (302, OpDelete ''q2'')]"]
  show ?thesis by simp
qed

lemma fst_mem_Acquire: "\<exists>p. fst (mem_AcquireIdempotency t db key q ttl m) = Inr p"
  by (simp add: mem_AcquireIdempotency_def Let_def del: split_paired_Ex)

text \<open>
  C11. An idempotency key has one holder. When a submission acquires a key for a query with a
  time to live, then until that time has passed no other submission acquires it, whatever any
  number of instances do to the store in between, short of the holder releasing or re-arming its
  own key: each later attempt is answered with the holder's query ID.
\<close>

theorem mem_key_exclusive:
  assumes "mem_inv m" and "mem_AcquireIdempotency now db key q ttl m = (Inr (q, True), m')"
    and "\<forall>(t, op) \<in> set ops. t < time_Add now ttl \<and> leaves_key (fullKey db key) q op"
    and "t' < time_Add now ttl"
  shows "fst (mem_AcquireIdempotency t' db key q' ttl' (run_ops mem_store ops m')) = Inr (q, False)"
proof -
  obtain p where "fst (mem_AcquireIdempotency t' db key q' ttl' (run_ops mem_store ops m')) = Inr p"
    by (meson fst_mem_Acquire)
  moreover have "\<forall>q'' b. fst (ms_AcquireIdempotency mem_store t' db key q' ttl' (run_ops mem_store ops m')) = Inr (q'', b)
      \<longrightarrow> q'' = q \<and> \<not> b"
    by (rule mem.acquire_exclusive) (use assms in simp_all)
  ultimately show ?thesis by (cases p) simp
qed

theorem mem_key_exclusive_witness:
  "fst (mem_AcquireIdempotency 150 ''main'' ''k'' ''q2'' 60 (run_ops mem_store
      [(120, OpRelease ''main'' ''k'' ''q9''), (130, OpAcquire ''main'' ''k'' ''q3'' 7)]
      (snd (mem_AcquireIdempotency 100 ''main'' ''k'' ''q1'' 60 NewMemoryMetaStore)))) = Inr (''q1'', False)"
proof -
  have a: "mem_AcquireIdempotency 100 ''main'' ''k'' ''q1'' 60 NewMemoryMetaStore
      = (Inr (''q1'', True), snd (mem_AcquireIdempotency 100 ''main'' ''k'' ''q1'' 60 NewMemoryMetaStore))"
    by (simp add: mem_AcquireIdempotency_def NewMemoryMetaStore_def Let_def)
  show ?thesis by (rule mem_key_exclusive [OF mem_inv_new a]) (simp_all add: time_Add_def)
qed

text \<open>
  C22. A cluster lock is exclusive: when an instance takes a named lock for some time, no
  instance takes it again before that time has passed, whatever is done to the store in between.
\<close>

theorem mem_lock_exclusive:
  assumes "mem_inv m" and "mem_TryLock now n ttl m = (Inr True, m')"
    and "\<forall>(t, op) \<in> set ops. t < time_Add now ttl" and "t' < time_Add now ttl"
  shows "fst (mem_TryLock t' n ttl' (run_ops mem_store ops m')) = Inr False"
proof -
  have "fst (ms_TryLock mem_store t' n ttl' (run_ops mem_store ops m')) \<noteq> Inr True"
    using mem.lock_exclusive [of m now n ttl m' ops t' ttl'] assms by simp
  then show ?thesis by (auto simp: mem_TryLock_def split: option.splits if_splits)
qed

theorem mem_lock_exclusive_witness:
  "fst (mem_TryLock 140 ''gc'' 50 (run_ops mem_store [(120, OpLock ''gc'' 500), (130, OpDelete ''q'')]
      (snd (mem_TryLock 100 ''gc'' 50 NewMemoryMetaStore)))) = Inr False"
proof -
  have a: "mem_TryLock 100 ''gc'' 50 NewMemoryMetaStore = (Inr True, snd (mem_TryLock 100 ''gc'' 50 NewMemoryMetaStore))"
    by (simp add: mem_TryLock_def NewMemoryMetaStore_def)
  show ?thesis by (rule mem_lock_exclusive [OF mem_inv_new a]) (simp_all add: time_Add_def)
qed

lemma mem_ids_list:
  assumes "mem_inv m"
  shows "set (map (\<lambda>(i, q). qr_ID q) (filter (\<lambda>(i, q). P q) (mm_queries m)))
      = {i. \<exists>q. mget (mm_queries m) i = Some q \<and> P q}"
    and "distinct (map (\<lambda>(i, q). qr_ID q) (filter (\<lambda>(i, q). P q) (mm_queries m)))"
proof -
  have wf: "mwf (mm_queries m)" and ids: "\<forall>(i, q) \<in> set (mm_queries m). qr_ID q = i"
    using assms by (auto simp: mem_inv_def mget_iff_mem)
  show "set (map (\<lambda>(i, q). qr_ID q) (filter (\<lambda>(i, q). P q) (mm_queries m)))
      = {i. \<exists>q. mget (mm_queries m) i = Some q \<and> P q}"
    using ids by (force simp: mget_iff_mem [OF wf])
  have e: "map (\<lambda>(i, q). qr_ID q) (filter (\<lambda>(i, q). P q) (mm_queries m)) = map fst (filter (\<lambda>(i, q). P q) (mm_queries m))"
    using ids by (intro map_cong) auto
  show "distinct (map (\<lambda>(i, q). qr_ID q) (filter (\<lambda>(i, q). P q) (mm_queries m)))"
    unfolding e using wf by (simp add: mwf_def mkeys_def distinct_map_filter)
qed

lemma mget_fold_leases:
  "mget (fold (\<lambda>i l. mput i v l) ids leases) i = (if i \<in> set ids then Some v else mget leases i)"
  by (induction ids arbitrary: leases) auto

lemma mem_stale_list:
  assumes "mem_inv m"
  shows "i \<in> set (projr (fst (mem_ListStaleQueries now m))) \<longleftrightarrow> (\<exists>q. mget (mm_queries m) i = Some q \<and>
     in_flight_state (qr_State q) \<and> (case mget (mm_leases m) i of None \<Rightarrow> True | Some e \<Rightarrow> e < now))"
proof -
  have "\<forall>i q. mget (mm_queries m) i = Some q \<longrightarrow> qr_ID q = i" using assms by (simp add: mem_inv_def)
  then show ?thesis unfolding mem_ListStaleQueries_def using mem_ids_list(1) [OF assms] by auto
qed

text \<open>
  C32. Leases and the reaper's list. The stale list names exactly the pending and running
  queries without a lease or with one that has passed, each once. After a heartbeat the queries
  it names are not stale before their lease runs out, the standing of every other query is
  untouched, and no record is changed; a terminal write takes a query off the list for good
  until somebody writes a non-terminal record again, whatever its lease was.
\<close>

theorem mem_leases:
  assumes "mem_inv m"
  defines "stale \<equiv> \<lambda>now m. projr (fst (mem_ListStaleQueries now m))"
  shows "distinct (stale now m)
    \<and> (i \<in> set (stale now m) \<longleftrightarrow> (\<exists>q. mget (mm_queries m) i = Some q \<and> in_flight_state (qr_State q) \<and>
         (case mget (mm_leases m) i of None \<Rightarrow> True | Some e \<Rightarrow> e < now)))
    \<and> (i \<in> set ids \<longrightarrow> now \<le> time_Add t ttl \<longrightarrow> i \<notin> set (stale now (snd (mem_Heartbeat t inst ids ttl m))))
    \<and> (i \<notin> set ids \<longrightarrow>
         (i \<in> set (stale now (snd (mem_Heartbeat t inst ids ttl m))) \<longleftrightarrow> i \<in> set (stale now m)))
    \<and> mm_queries (snd (mem_Heartbeat t inst ids ttl m)) = mm_queries m
    \<and> (IsTerminal (qr_State r) \<longrightarrow> qr_ID r \<notin> set (stale now (snd (mem_PutQuery t r m)))
         \<and> mget (mm_leases (snd (mem_PutQuery t r m))) (qr_ID r) = None)"
proof -
  have mem: "i \<in> set (stale now m') \<longleftrightarrow> (\<exists>q. mget (mm_queries m') i = Some q \<and> in_flight_state (qr_State q) \<and>
         (case mget (mm_leases m') i of None \<Rightarrow> True | Some e \<Rightarrow> e < now))" if "mem_inv m'" for i now m'
    unfolding stale_def by (rule mem_stale_list [OF that])
  have d: "distinct (stale now m)"
    unfolding stale_def mem_ListStaleQueries_def using mem_ids_list(2) [OF assms(1)] by simp
  have inv1: "mem_inv (snd (mem_Heartbeat t inst ids ttl m))" using assms(1) by (simp add: mem_Heartbeat_def mem_inv_def)
  have inv2: "mem_inv (snd (mem_PutQuery t r m))" using assms(1) by (simp add: mem_PutQuery_def mem_write_inv)
  show ?thesis
    using d unfolding mem [OF assms(1)] mem [OF inv1] mem [OF inv2]
    by (auto simp: mem_Heartbeat_def mget_fold_leases mem_PutQuery_def mem_write_def in_flight_state_def Let_def)
qed

theorem mem_leases_witness:
  "\<exists>m. mem_inv m \<and> ''q1'' \<in> set (projr (fst (mem_ListStaleQueries 50 m)))
     \<and> ''q1'' \<notin> set (projr (fst (mem_ListStaleQueries 55 (snd (mem_Heartbeat 50 ''n1'' [''q1''] 5 m)))))"
proof -
  let ?m = "mem_write sample_record NewMemoryMetaStore"
  have inv: "mem_inv ?m" by (simp add: mem_write_inv mem_inv_new)
  have q: "mget (mm_queries ?m) ''q1'' = Some sample_record" "mget (mm_leases ?m) ''q1'' = None"
    by (simp_all add: mem_write_def sample_record_def strip_lease_def NewMemoryMetaStore_def)
  have "in_flight_state (qr_State sample_record)" by (simp add: in_flight_state_def sample_record_def)
  then show ?thesis
    using mem_leases [OF inv, of 50 "''q1''" "[]" 0 0] mem_leases [OF inv, of 55 "''q1''" "[''q1'']" 50 5] inv q
    by (intro exI [of _ ?m]) (simp add: time_Add_def)
qed

text \<open>The ways the control channels are used: publishing, subscribing, the end of a subscriber's context, closing the store, receiving.\<close>

datatype control_step = CPublish ControlMsg | CSubscribe | CUnsubscribe nat | CClose | CReceive nat

fun control_exec :: "control_step \<Rightarrow> mem \<Rightarrow> mem option" where
  "control_exec (CPublish msg) m = mem_publish msg m"
| "control_exec CSubscribe m = Some (snd (mem_SubscribeControl 0 m))"
| "control_exec (CUnsubscribe c) m = mem_unsubscribe c m"
| "control_exec CClose m = mem_Close m"
| "control_exec (CReceive c) m = Some (m\<lparr>mm_chans := snd (recv c (mm_chans m))\<rparr>)"

fun control_run :: "control_step list \<Rightarrow> mem \<Rightarrow> mem option" where
  "control_run [] m = Some m"
| "control_run (st # sts) m = (case control_exec st m of None \<Rightarrow> None | Some m' \<Rightarrow> control_run sts m')"

lemma close_all_open:
  "distinct cs \<Longrightarrow> \<forall>c \<in> set cs. open_chan h c \<Longrightarrow> wf_chans h \<Longrightarrow> \<exists>h'. close_all cs h = Some h' \<and> wf_chans h'"
proof (induction cs arbitrary: h)
  case (Cons c cs)
  then obtain h1 where h1: "close_chan c h = Some h1" using close_chan_open [of h c] by auto
  have "\<forall>d \<in> set cs. open_chan h1 d" using Cons.prems close_chan_keeps(1) [OF h1] by auto
  with Cons close_chan_keeps(3) [OF h1] show ?case by (simp add: h1)
qed simp

lemma control_exec_safe: "mem_inv m \<Longrightarrow> \<exists>m'. control_exec st m = Some m' \<and> mem_inv m'"
proof (cases st)
  case (CPublish msg)
  assume "mem_inv m" with CPublish publish_no_panic [of m msg] show ?thesis by auto
next
  case CSubscribe
  assume "mem_inv m" with CSubscribe subscribe_inv [of m 0] show ?thesis by simp
next
  case (CUnsubscribe c)
  assume inv: "mem_inv m"
  show ?thesis
  proof (cases "c \<in> set (mm_subscribers m)")
    case True
    with inv obtain h where h: "close_chan c (mm_chans m) = Some h"
      using close_chan_open [of "mm_chans m" c] by (auto simp: mem_inv_def)
    with inv True CUnsubscribe show ?thesis
      by (auto simp: mem_unsubscribe_def mem_inv_def close_chan_keeps [OF h])
  qed (use inv CUnsubscribe in \<open>simp add: mem_unsubscribe_def\<close>)
next
  case CClose
  assume "mem_inv m"
  with CClose close_all_open [of "mm_subscribers m" "mm_chans m"] show ?thesis
    by (auto simp: mem_Close_def mem_inv_def)
next
  case (CReceive c)
  assume "mem_inv m" with CReceive show ?thesis by (auto simp: mem_inv_def recv_keeps)
qed

lemma control_run_safe: "mem_inv m \<Longrightarrow> \<exists>m'. control_run sts m = Some m' \<and> mem_inv m'"
proof (induction sts arbitrary: m)
  case (Cons st sts)
  with control_exec_safe [of m st] show ?case by fastforce
qed simp

text \<open>
  C33. The control channels of the memory store never panic: from a new store, no interleaving of
  publishing, subscribing, ending a subscription - also one that already ended, or one that the
  store closed - closing the store and receiving sends on a closed channel or closes one twice.
\<close>

theorem control_never_panics: "\<exists>m. control_run sts NewMemoryMetaStore = Some m \<and> mem_inv m"
  by (rule control_run_safe [OF mem_inv_new])

end
