(* ===== verification/Watchers.thy ===== *)
theory Watchers
  imports Metastore
begin

text \<open>
  Event delivery of the query manager, \<^verbatim>\<open>internal/core/manager/manager.go\<close>: the subscriptions
  (\<^verbatim>\<open>watchers\<close>), the channels they hold and the queue of events waiting to be published to the
  other instances. \<^verbatim>\<open>watchersMu\<close> makes \<^verbatim>\<open>Watch\<close>'s registration, \<^verbatim>\<open>unwatch\<close> and
  \<^verbatim>\<open>deliverEvent\<close> one atomic step each; a panic is the result \<open>None\<close>.
\<close>

definition watcherBuffer :: nat where
  "watcherBuffer = 20"

definition eventPublishBuffer :: nat where
  "eventPublishBuffer = 256"

record QueryEvent =
  ev_QueryID :: string
  ev_State :: QueryState
  ev_Stats :: QueryStats
  ev_Error :: "QueryError option"

text \<open>The subscriptions of a query are the keys of a Go map, so each channel is listed once.\<close>

record hub =
  hb_watchers :: "(string, nat list) gomap"
  hb_chans :: "QueryEvent chans"
  hb_events :: "QueryEvent list"

definition new_hub :: hub where
  "new_hub = \<lparr>hb_watchers = [], hb_chans = no_chans, hb_events = []\<rparr>"

definition subs_of :: "hub \<Rightarrow> string \<Rightarrow> nat list" where
  "subs_of h qid = (case mget (hb_watchers h) qid of None \<Rightarrow> [] | Some cs \<Rightarrow> cs)"

definition dropWatcherLocked :: "string \<Rightarrow> nat \<Rightarrow> hub \<Rightarrow> hub option" where
  "dropWatcherLocked qid ch h =
     (case mget (hb_watchers h) qid of
        None \<Rightarrow> Some h
      | Some subs \<Rightarrow>
          if ch \<notin> set subs then Some h
          else
            let subs' = remove1 ch subs;
                h' = h\<lparr>hb_watchers := (if subs' = [] then mdel qid (hb_watchers h)
                                      else mput qid subs' (hb_watchers h))\<rparr> in
            (case close_chan ch (hb_chans h') of
               None \<Rightarrow> None
             | Some cs \<Rightarrow> Some (h'\<lparr>hb_chans := cs\<rparr>)))"

definition unwatch :: "string \<Rightarrow> nat \<Rightarrow> hub \<Rightarrow> hub option" where
  "unwatch qid ch h = dropWatcherLocked qid ch h"

text \<open>
  \<^verbatim>\<open>Watch\<close> from the point where the record has been read: the subscription is registered, gets
  the current state as its first event, and ends at once when that state is terminal.
\<close>

definition watch_register :: "QueryEvent \<Rightarrow> hub \<Rightarrow> (nat \<times> hub) option" where
  "watch_register current h =
     (let (ch, cs) = make_chan watcherBuffer (hb_chans h);
          qid = ev_QueryID current;
          h = h\<lparr>hb_chans := cs, hb_watchers := mput qid (subs_of h qid @ [ch]) (hb_watchers h)\<rparr> in
      case try_send ch current (hb_chans h) of
        None \<Rightarrow> None
      | Some (_, cs) \<Rightarrow>
          let h = h\<lparr>hb_chans := cs\<rparr> in
          if IsTerminal (ev_State current)
          then (case dropWatcherLocked qid ch h of None \<Rightarrow> None | Some h \<Rightarrow> Some (ch, h))
          else Some (ch, h))"

text \<open>The loop of \<^verbatim>\<open>deliverEvent\<close> over the subscriptions of the event's query, and its body.\<close>

definition deliver_one :: "QueryEvent \<Rightarrow> nat \<Rightarrow> hub \<Rightarrow> hub option" where
  "deliver_one ev ch h =
     (case try_send ch ev (hb_chans h) of
        None \<Rightarrow> None
      | Some (_, cs) \<Rightarrow>
          let h = h\<lparr>hb_chans := cs\<rparr> in
          if IsTerminal (ev_State ev) then dropWatcherLocked (ev_QueryID ev) ch h else Some h)"

fun deliver_loop :: "QueryEvent \<Rightarrow> nat list \<Rightarrow> hub \<Rightarrow> hub option" where
  "deliver_loop ev [] h = Some h"
| "deliver_loop ev (ch # chs) h =
     (case deliver_one ev ch h of None \<Rightarrow> None | Some h \<Rightarrow> deliver_loop ev chs h)"

definition deliverEvent :: "QueryEvent \<Rightarrow> hub \<Rightarrow> hub option" where
  "deliverEvent ev h = deliver_loop ev (subs_of h (ev_QueryID ev)) h"

text \<open>
  Queueing for the publisher. A terminal event waits for room; the model is the queue at the end
  of that wait, \<open>drained\<close> being the number of events the publisher took meanwhile. Any other
  event is dropped when the queue is full.
\<close>

definition enqueue_event :: "nat \<Rightarrow> QueryEvent \<Rightarrow> QueryEvent list \<Rightarrow> QueryEvent list" where
  "enqueue_event drained ev q =
     (let q' = (if IsTerminal (ev_State ev) \<and> \<not> length q < eventPublishBuffer then drop drained q else q) in
      if length q' < eventPublishBuffer then q' @ [ev] else q')"

definition notifyWatchers :: "nat \<Rightarrow> QueryEvent \<Rightarrow> hub \<Rightarrow> hub option" where
  "notifyWatchers drained ev h =
     (case deliverEvent ev h of
        None \<Rightarrow> None
      | Some h \<Rightarrow> Some (h\<lparr>hb_events := enqueue_event drained ev (hb_events h)\<rparr>))"

text \<open>\<^verbatim>\<open>publishEvent\<close>: the control message an event becomes.\<close>

definition event_msg :: "string \<Rightarrow> QueryEvent \<Rightarrow> ControlMsg" where
  "event_msg instanceID ev =
     \<lparr>cm_Type = ControlQueryEvent, cm_QueryID = ev_QueryID ev, cm_SenderID = instanceID,
      cm_Event = Some \<lparr>pl_State = state_string (ev_State ev), pl_Stats = ev_Stats ev, pl_Error = ev_Error ev\<rparr>\<rparr>"

definition publishEvent :: "'s MetaStore \<Rightarrow> string \<Rightarrow> time \<Rightarrow> QueryEvent \<Rightarrow> 's \<Rightarrow> 's" where
  "publishEvent ms instanceID now ev s = snd (ms_PublishControl ms now (event_msg instanceID ev) s)"

text \<open>
  \<^verbatim>\<open>eventPublisher\<close> after it is told to stop: it publishes what is queued, in order, as long as
  its deadline has not passed. \<open>clk n\<close> is the clock at the \<open>n\<close>-th check of the deadline.
\<close>

fun drain_events :: "'s MetaStore \<Rightarrow> string \<Rightarrow> time \<Rightarrow> (nat \<Rightarrow> time) \<Rightarrow> nat \<Rightarrow> QueryEvent list \<Rightarrow> 's \<Rightarrow> QueryEvent list \<times> 's" where
  "drain_events ms inst deadline clk n [] s = ([], s)"
| "drain_events ms inst deadline clk n (ev # evs) s =
     (if clk n < deadline
      then drain_events ms inst deadline clk (Suc n) evs (publishEvent ms inst (clk n) ev s)
      else (ev # evs, s))"

section \<open>The invariant of the subscriptions\<close>

definition hub_inv :: "hub \<Rightarrow> bool" where
  "hub_inv h \<longleftrightarrow>
     wf_chans (hb_chans h) \<and>
     (\<forall>qid cs. mget (hb_watchers h) qid = Some cs \<longrightarrow> cs \<noteq> [] \<and> distinct cs) \<and>
     (\<forall>qid. \<forall>c \<in> set (subs_of h qid). open_chan (hb_chans h) c) \<and>
     (\<forall>qid qid' c. c \<in> set (subs_of h qid) \<longrightarrow> c \<in> set (subs_of h qid') \<longrightarrow> qid = qid') \<and>
     length (hb_events h) \<le> eventPublishBuffer"

lemma hub_inv_new: "hub_inv new_hub"
  by (simp add: hub_inv_def new_hub_def subs_of_def)

lemma distinct_subs: "hub_inv h \<Longrightarrow> distinct (subs_of h qid)"
  by (auto simp: hub_inv_def subs_of_def split: option.splits)

text \<open>Dropping a registered subscription: what changes and that it does not panic.\<close>

lemma dropWatcher_registered:
  assumes inv: "hub_inv h" and c: "c \<in> set (subs_of h qid)"
  shows "\<exists>h' cs. dropWatcherLocked qid c h = Some h' \<and> close_chan c (hb_chans h) = Some cs \<and> hb_chans h' = cs
    \<and> subs_of h' qid = remove1 c (subs_of h qid) \<and> (\<forall>q. q \<noteq> qid \<longrightarrow> subs_of h' q = subs_of h q)
    \<and> (mget (hb_watchers h') qid = None \<longleftrightarrow> remove1 c (subs_of h qid) = [])
    \<and> hb_events h' = hb_events h \<and> hub_inv h'"
proof -
  obtain subs where subs: "mget (hb_watchers h) qid = Some subs" "subs_of h qid = subs"
    using c by (cases "mget (hb_watchers h) qid") (auto simp: subs_of_def)
  obtain cs where cs: "close_chan c (hb_chans h) = Some cs"
    using inv c close_chan_open [of "hb_chans h" c] by (auto simp: hub_inv_def)
  define ws where "ws = (if remove1 c subs = [] then mdel qid (hb_watchers h) else mput qid (remove1 c subs) (hb_watchers h))"
  define h' where "h' = h\<lparr>hb_watchers := ws, hb_chans := cs\<rparr>"
  have d: "dropWatcherLocked qid c h = Some h'"
    using subs c cs by (simp add: dropWatcherLocked_def Let_def h'_def ws_def)
  have so: "subs_of h' q = (if q = qid then remove1 c subs else subs_of h q)" for q
    by (auto simp: subs_of_def h'_def ws_def)
  have "c \<notin> set (subs_of h q)" if "q \<noteq> qid" for q using inv c that unfolding hub_inv_def by blast
  moreover have "distinct subs" using distinct_subs [OF inv, of qid] subs by simp
  ultimately have op: "\<forall>q. \<forall>d \<in> set (subs_of h' q). open_chan cs d"
    using inv subs by (auto simp: so close_chan_keeps(1) [OF cs] hub_inv_def dest: notin_set_remove1)
  have "hub_inv h'"
    using inv op close_chan_keeps(3) [OF cs] \<open>distinct subs\<close> subs
    unfolding hub_inv_def so by (auto simp: h'_def ws_def dest!: set_remove1_subset [THEN subsetD] split: if_splits)
  then show ?thesis using d cs subs so by (auto simp: h'_def ws_def)
qed

lemma dropWatcher_other:
  "c \<notin> set (subs_of h qid) \<Longrightarrow> dropWatcherLocked qid c h = Some h"
  by (cases "mget (hb_watchers h) qid") (auto simp: dropWatcherLocked_def subs_of_def)

lemma hub_inv_send:
  assumes "hub_inv h" and "try_send c ev (hb_chans h) = Some (b, cs)"
  shows "hub_inv (h\<lparr>hb_chans := cs\<rparr>)" and "subs_of (h\<lparr>hb_chans := cs\<rparr>) qid = subs_of h qid"
  using assms try_send_keeps [OF assms(2)] by (auto simp: hub_inv_def subs_of_def)

text \<open>
  What a delivery leaves in a subscription's channel: the event is appended when there is room,
  and a terminal event closes the channel.
\<close>

definition delivered :: "QueryEvent \<Rightarrow> QueryEvent chan \<Rightarrow> QueryEvent chan" where
  "delivered ev ch =
     ch\<lparr>ch_buf := (if length (ch_buf ch) < ch_cap ch then ch_buf ch @ [ev] else ch_buf ch),
        ch_closed := (ch_closed ch \<or> IsTerminal (ev_State ev))\<rparr>"

lemma try_send_chan:
  "try_send c ev h = Some (b, h') \<Longrightarrow> mget (cs_heap h) c = Some ch \<Longrightarrow>
     mget (cs_heap h') c = Some (ch\<lparr>ch_buf := (if length (ch_buf ch) < ch_cap ch then ch_buf ch @ [ev] else ch_buf ch)\<rparr>)"
  by (auto simp: try_send_def split: if_splits)

lemma close_chan_chan:
  "close_chan c h = Some h' \<Longrightarrow> mget (cs_heap h) c = Some ch \<Longrightarrow> mget (cs_heap h') c = Some (ch\<lparr>ch_closed := True\<rparr>)"
  by (auto simp: close_chan_def split: if_splits)

lemma open_chan_get: "open_chan h c \<Longrightarrow> \<exists>ch. mget (cs_heap h) c = Some ch \<and> \<not> ch_closed ch"
  by (simp add: open_chan_def)

definition chan_at :: "hub \<Rightarrow> nat \<Rightarrow> QueryEvent chan option" where
  "chan_at h c = mget (cs_heap (hb_chans h)) c"

text \<open>The effect of delivering \<open>ev\<close> to the channels \<open>cs\<close>, all subscriptions of its query.\<close>

definition delivery :: "QueryEvent \<Rightarrow> nat set \<Rightarrow> hub \<Rightarrow> hub \<Rightarrow> bool" where
  "delivery ev cs h h' \<longleftrightarrow>
     hub_inv h' \<and> hb_events h' = hb_events h
     \<and> set (subs_of h' (ev_QueryID ev)) =
         (if IsTerminal (ev_State ev) then set (subs_of h (ev_QueryID ev)) - cs else set (subs_of h (ev_QueryID ev)))
     \<and> (\<forall>q. q \<noteq> ev_QueryID ev \<longrightarrow> subs_of h' q = subs_of h q)
     \<and> (\<forall>c. chan_at h' c = (if c \<in> cs then map_option (delivered ev) (chan_at h c) else chan_at h c))"

lemma deliver_one_effect:
  assumes inv: "hub_inv h" and c: "c \<in> set (subs_of h (ev_QueryID ev))"
  shows "\<exists>h'. deliver_one ev c h = Some h' \<and> delivery ev {c} h h'"
proof -
  let ?q = "ev_QueryID ev"
  have op: "open_chan (hb_chans h) c" using inv c by (auto simp: hub_inv_def)
  then obtain ch where ch: "chan_at h c = Some ch" "\<not> ch_closed ch" by (auto simp: open_chan_def chan_at_def)
  obtain b cs where send: "try_send c ev (hb_chans h) = Some (b, cs)" using try_send_open [OF op] by blast
  let ?h1 = "h\<lparr>hb_chans := cs\<rparr>"
  note h1 = hub_inv_send [OF inv send]
  have c1: "mget (cs_heap cs) c = Some (ch\<lparr>ch_buf := (if length (ch_buf ch) < ch_cap ch then ch_buf ch @ [ev] else ch_buf ch)\<rparr>)"
    using try_send_chan [OF send] ch(1) by (simp add: chan_at_def)
  have o1: "\<And>d. d \<noteq> c \<Longrightarrow> mget (cs_heap cs) d = chan_at h d"
    using try_send_keeps(4) [OF send] by (simp add: chan_at_def)
  show ?thesis
  proof (cases "IsTerminal (ev_State ev)")
    case False
    then have "delivery ev {c} h ?h1" using h1 c1 o1 ch
      by (auto simp: delivery_def chan_at_def delivered_def)
    with False send show ?thesis by (simp add: deliver_one_def)
  next
    case True
    have "c \<in> set (subs_of ?h1 ?q)" using c h1(2) by simp
    from dropWatcher_registered [OF h1(1) this] obtain h2 cs2 where h2: "dropWatcherLocked ?q c ?h1 = Some h2"
      "close_chan c cs = Some cs2" "hb_chans h2 = cs2" "subs_of h2 ?q = remove1 c (subs_of h ?q)"
      "\<forall>q. q \<noteq> ?q \<longrightarrow> subs_of h2 q = subs_of h q" "hb_events h2 = hb_events h" "hub_inv h2"
      using h1(2) by auto
    have "mget (cs_heap cs2) c = Some (delivered ev ch)"
      using close_chan_chan [OF h2(2) c1] True ch(2) by (simp add: delivered_def)
    with h2 True o1 ch close_chan_keeps(4) [OF h2(2)] distinct_subs [OF inv, of ?q]
    have "delivery ev {c} h h2" by (auto simp: delivery_def chan_at_def)
    with True send h2(1) show ?thesis by (simp add: deliver_one_def)
  qed
qed

lemma delivery_trans:
  "delivery ev A h h1 \<Longrightarrow> delivery ev B h1 h2 \<Longrightarrow> A \<inter> B = {} \<Longrightarrow> delivery ev (A \<union> B) h h2"
  by (auto simp: delivery_def)

lemma deliver_loop_effect:
  assumes "hub_inv h" and "distinct chs" and "set chs \<subseteq> set (subs_of h (ev_QueryID ev))"
  shows "\<exists>h'. deliver_loop ev chs h = Some h' \<and> delivery ev (set chs) h h'"
  using assms
proof (induction chs arbitrary: h)
  case Nil
  then show ?case by (simp add: delivery_def)
next
  case (Cons c chs)
  then obtain h1 where h1: "deliver_one ev c h = Some h1" "delivery ev {c} h h1"
    using deliver_one_effect [of h c ev] by auto
  then have "hub_inv h1" and "set chs \<subseteq> set (subs_of h1 (ev_QueryID ev))"
    using Cons.prems by (auto simp: delivery_def)
  from Cons.IH [OF this(1) _ this(2)] Cons.prems(2) obtain h' where
    h': "deliver_loop ev chs h1 = Some h'" "delivery ev (set chs) h1 h'" by auto
  have "delivery ev ({c} \<union> set chs) h h'" by (rule delivery_trans [OF h1(2) h'(2)]) (use Cons.prems in auto)
  with h1 h' show ?case by simp
qed

lemma deliverEvent_effect:
  "hub_inv h \<Longrightarrow> \<exists>h'. deliverEvent ev h = Some h' \<and> delivery ev (set (subs_of h (ev_QueryID ev))) h h'"
  by (simp add: deliverEvent_def deliver_loop_effect distinct_subs)

text \<open>The hub right after \<^verbatim>\<open>Watch\<close> has allocated and registered its channel.\<close>

definition with_sub :: "string \<Rightarrow> hub \<Rightarrow> hub" where
  "with_sub qid h =
     h\<lparr>hb_chans := snd (make_chan watcherBuffer (hb_chans h)),
       hb_watchers := mput qid (subs_of h qid @ [cs_next (hb_chans h)]) (hb_watchers h)\<rparr>"

lemma subs_with_sub:
  "subs_of (with_sub qid h) q = (if q = qid then subs_of h qid @ [cs_next (hb_chans h)] else subs_of h q)"
  by (simp add: subs_of_def with_sub_def)

lemma with_sub_simps [simp]:
  "hb_chans (with_sub qid h) = snd (make_chan watcherBuffer (hb_chans h))" "hb_events (with_sub qid h) = hb_events h"
  by (simp_all add: with_sub_def)

lemma open_with_sub:
  "open_chan (hb_chans (with_sub qid h)) c \<longleftrightarrow> c = cs_next (hb_chans h) \<or> open_chan (hb_chans h) c"
  by (simp add: open_make_chan) (simp add: make_chan_def)

lemma hub_inv_with_sub:
  assumes inv: "hub_inv h"
  shows "hub_inv (with_sub qid h)"
proof -
  let ?c = "cs_next (hb_chans h)"
  have new: "\<forall>q. ?c \<notin> set (subs_of h q)" using inv open_chan_less by (fastforce simp: hub_inv_def)
  have "mget (hb_watchers (with_sub qid h)) q = Some cs \<Longrightarrow> cs \<noteq> [] \<and> distinct cs" for q cs
    using inv distinct_subs [OF inv, of qid] new by (auto simp: with_sub_def hub_inv_def split: if_splits)
  moreover have "\<forall>q. \<forall>c \<in> set (subs_of (with_sub qid h) q). open_chan (hb_chans (with_sub qid h)) c"
    unfolding open_with_sub subs_with_sub using inv by (auto simp: hub_inv_def)
  moreover have "\<forall>q q' c. c \<in> set (subs_of (with_sub qid h) q) \<longrightarrow> c \<in> set (subs_of (with_sub qid h) q') \<longrightarrow> q = q'"
  proof -
    have "c \<in> set (subs_of h q) \<Longrightarrow> c \<in> set (subs_of h q') \<Longrightarrow> q = q'" for c q q'
      using inv unfolding hub_inv_def by blast
    then show ?thesis using new by (auto simp: subs_with_sub)
  qed
  ultimately show ?thesis using inv unfolding hub_inv_def by simp
qed

lemma watch_register_effect:
  assumes inv: "hub_inv h"
  shows "\<exists>h'. watch_register cur h = Some (cs_next (hb_chans h), h') \<and> hub_inv h'
    \<and> hb_events h' = hb_events h
    \<and> chan_at h' (cs_next (hb_chans h)) =
        Some \<lparr>ch_cap = watcherBuffer, ch_buf = [cur], ch_closed = IsTerminal (ev_State cur)\<rparr>
    \<and> (cs_next (hb_chans h) \<in> set (subs_of h' (ev_QueryID cur)) \<longleftrightarrow> \<not> IsTerminal (ev_State cur))"
proof -
  let ?c = "cs_next (hb_chans h)" and ?q = "ev_QueryID cur" and ?h1 = "with_sub (ev_QueryID cur) h"
  have c: "?c \<in> set (subs_of ?h1 ?q)" by (simp add: subs_with_sub)
  have fresh: "chan_at ?h1 ?c = Some \<lparr>ch_cap = watcherBuffer, ch_buf = [], ch_closed = False\<rparr>"
    by (simp add: chan_at_def with_sub_def make_chan_def)
  have reg: "watch_register cur h = (case deliver_one cur ?c ?h1 of None \<Rightarrow> None | Some h \<Rightarrow> Some (?c, h))"
    by (simp add: watch_register_def with_sub_def make_chan_def deliver_one_def Let_def split: option.splits)
  from deliver_one_effect [OF hub_inv_with_sub [OF inv] c] obtain h' where
    h': "deliver_one cur ?c ?h1 = Some h'" "delivery cur {?c} ?h1 h'" by blast
  with reg fresh show ?thesis
    by (auto simp: delivery_def delivered_def watcherBuffer_def subs_with_sub)
qed

lemma enqueue_bounded: "length q \<le> eventPublishBuffer \<Longrightarrow> length (enqueue_event n ev q) \<le> eventPublishBuffer"
  by (auto simp: enqueue_event_def Let_def)

lemma notifyWatchers_effect:
  assumes "hub_inv h"
  shows "\<exists>h'. notifyWatchers n ev h = Some (h'\<lparr>hb_events := enqueue_event n ev (hb_events h)\<rparr>)
     \<and> delivery ev (set (subs_of h (ev_QueryID ev))) h h' \<and> hub_inv (h'\<lparr>hb_events := enqueue_event n ev (hb_events h)\<rparr>)"
proof -
  from deliverEvent_effect [OF assms, of ev] obtain h' where
    h': "deliverEvent ev h = Some h'" "delivery ev (set (subs_of h (ev_QueryID ev))) h h'" by blast
  moreover from h' have "hub_inv h'" and e: "hb_events h' = hb_events h" by (simp_all add: delivery_def)
  then have "hub_inv (h'\<lparr>hb_events := enqueue_event n ev (hb_events h)\<rparr>)"
    using assms enqueue_bounded [of "hb_events h" n ev] by (simp add: hub_inv_def subs_of_def)
  ultimately show ?thesis using e by (auto simp: notifyWatchers_def)
qed

section \<open>Properties\<close>

text \<open>Everything that happens to the subscriptions of an instance.\<close>

datatype hub_step =
    HWatch QueryEvent
  | HUnwatch string nat
  | HNotify nat QueryEvent
  | HRemote QueryEvent
  | HPublished
  | HReceive nat

fun hub_exec :: "hub_step \<Rightarrow> hub \<Rightarrow> hub option" where
  "hub_exec (HWatch cur) h = map_option snd (watch_register cur h)"
| "hub_exec (HUnwatch qid c) h = unwatch qid c h"
| "hub_exec (HNotify n ev) h = notifyWatchers n ev h"
| "hub_exec (HRemote ev) h = deliverEvent ev h"
| "hub_exec HPublished h = Some (h\<lparr>hb_events := tl (hb_events h)\<rparr>)"
| "hub_exec (HReceive c) h = Some (h\<lparr>hb_chans := snd (recv c (hb_chans h))\<rparr>)"

fun hub_run :: "hub_step list \<Rightarrow> hub \<Rightarrow> hub option" where
  "hub_run [] h = Some h"
| "hub_run (st # sts) h = (case hub_exec st h of None \<Rightarrow> None | Some h' \<Rightarrow> hub_run sts h')"

lemma hub_exec_safe: "hub_inv h \<Longrightarrow> \<exists>h'. hub_exec st h = Some h' \<and> hub_inv h'"
proof (cases st)
  case (HWatch cur)
  assume "hub_inv h" with HWatch watch_register_effect [of h cur] show ?thesis by auto
next
  case (HUnwatch qid c)
  assume inv: "hub_inv h"
  show ?thesis
  proof (cases "c \<in> set (subs_of h qid)")
    case True
    with inv HUnwatch dropWatcher_registered [of h c qid] show ?thesis by (auto simp: unwatch_def)
  qed (use inv HUnwatch in \<open>simp add: unwatch_def dropWatcher_other\<close>)
next
  case (HNotify n ev)
  assume "hub_inv h" with HNotify notifyWatchers_effect [of h n ev] show ?thesis by auto
next
  case (HRemote ev)
  assume "hub_inv h" with HRemote deliverEvent_effect [of h ev] show ?thesis by (auto simp: delivery_def)
next
  case HPublished
  assume "hub_inv h" with HPublished show ?thesis by (auto simp: hub_inv_def subs_of_def)
next
  case (HReceive c)
  assume "hub_inv h" with HReceive show ?thesis by (auto simp: hub_inv_def subs_of_def recv_keeps)
qed

lemma hub_run_safe: "hub_inv h \<Longrightarrow> \<exists>h'. hub_run sts h = Some h' \<and> hub_inv h'"
proof (induction sts arbitrary: h)
  case (Cons st sts)
  with hub_exec_safe [of h st] show ?case by fastforce
qed simp

text \<open>
  C24. Subscriptions never panic and stay bounded. Starting from an instance without
  subscriptions, no interleaving of opening and ending subscriptions, local and remote events,
  publishing and receiving sends on a closed channel or closes a channel twice; every registered
  channel is open and belongs to one query only, no subscription buffers more than its capacity
  and at most 256 events wait to be published.
\<close>

theorem hub_never_panics: "\<exists>h. hub_run sts new_hub = Some h \<and> hub_inv h"
  by (rule hub_run_safe [OF hub_inv_new])


definition sample_event :: QueryEvent where
  "sample_event = \<lparr>ev_QueryID = ''q1'', ev_State = StateRunning, ev_Stats = zero_stats, ev_Error = None\<rparr>"


end
