(* ===== verification/Storage.thy ===== *)
theory Storage
  imports Domain
begin

text \<open>
  The result stores, \<^verbatim>\<open>internal/storage/registry.go\<close> and the wrapper of \<^verbatim>\<open>tracing.go\<close>.

  \<open>ResultStore\<close> is the Go interface over a world \<open>'w\<close> - file system, object store, database
  table - together with the \<^verbatim>\<open>io.WriteCloser\<close> and \<^verbatim>\<open>io.ReadCloser\<close> its methods hand out, which
  are handles here. \<open>rs_SupportsFormat\<close> is \<open>None\<close> for a backend that does not implement
  \<^verbatim>\<open>FormatChecker\<close>. The spans of the tracing wrapper have no counterpart, its forwarding has.
\<close>

record 'w ResultStore =
  rs_Writer :: "string \<Rightarrow> string \<Rightarrow> 'w \<Rightarrow> (go_error + nat \<times> ResultRef) \<times> 'w"
  rs_Write :: "nat \<Rightarrow> string \<Rightarrow> 'w \<Rightarrow> (nat \<times> go_error option) \<times> 'w"
  rs_CloseWriter :: "nat \<Rightarrow> 'w \<Rightarrow> go_error option \<times> 'w"
  rs_Reader :: "ResultRef \<Rightarrow> 'w \<Rightarrow> (go_error + nat) \<times> 'w"
  rs_Read :: "nat \<Rightarrow> nat \<Rightarrow> 'w \<Rightarrow> (string \<times> go_error option) \<times> 'w"
  rs_CloseReader :: "nat \<Rightarrow> 'w \<Rightarrow> go_error option \<times> 'w"
  rs_Stat :: "ResultRef \<Rightarrow> 'w \<Rightarrow> (go_error + ResultRef) \<times> 'w"
  rs_Delete :: "ResultRef \<Rightarrow> 'w \<Rightarrow> go_error option \<times> 'w"
  rs_SupportsFormat :: "(string \<Rightarrow> bool) option"

definition SupportsFormat :: "'w ResultStore \<Rightarrow> string \<Rightarrow> bool" where
  "SupportsFormat store format = (case rs_SupportsFormat store of None \<Rightarrow> True | Some f \<Rightarrow> f format)"

definition Traced :: "'w ResultStore \<Rightarrow> 'w ResultStore" where
  "Traced store = store\<lparr>rs_SupportsFormat := Some (SupportsFormat store)\<rparr>"

type_synonym 'w stores = "(string, 'w ResultStore) gomap"

text \<open>\<^verbatim>\<open>Register\<close> panics on a second registration of a name: \<open>None\<close>.\<close>

definition Register :: "string \<Rightarrow> 'w ResultStore \<Rightarrow> 'w stores \<Rightarrow> 'w stores option" where
  "Register name store stores =
     (case mget stores name of Some _ \<Rightarrow> None | None \<Rightarrow> Some (mput name (Traced store) stores))"

definition GetStore :: "'w stores \<Rightarrow> string \<Rightarrow> go_error + 'w ResultStore" where
  "GetStore stores name =
     (case mget stores name of
        None \<Rightarrow> Inl (ErrorString (''storage: unknown storage backend '' @ strconv_Quote name))
      | Some store \<Rightarrow> Inr store)"

lemma SupportsFormat_Traced [simp]: "SupportsFormat (Traced store) = SupportsFormat store"
  by (rule ext) (simp add: SupportsFormat_def Traced_def)

lemma Traced_ops [simp]:
  "rs_Writer (Traced st) = rs_Writer st" "rs_Write (Traced st) = rs_Write st"
  "rs_CloseWriter (Traced st) = rs_CloseWriter st" "rs_Reader (Traced st) = rs_Reader st"
  "rs_Read (Traced st) = rs_Read st" "rs_CloseReader (Traced st) = rs_CloseReader st"
  "rs_Stat (Traced st) = rs_Stat st" "rs_Delete (Traced st) = rs_Delete st"
  by (simp_all add: Traced_def)

lemma GetStore_Register:
  "Register name store stores = Some stores' \<Longrightarrow>
     GetStore stores' n = (if n = name then Inr (Traced store) else GetStore stores n)"
  by (auto simp: Register_def GetStore_def split: option.splits if_splits)

end
