(* ===== verification/Encoder.thy ===== *)
theory Encoder
  imports Domain Utf8 "HOL-Library.Char_ord" "HOL-Library.List_Lexorder"
begin

text \<open>
  Result encoding, \<^verbatim>\<open>internal/storage/encoder.go\<close>: \<^verbatim>\<open>EncodeStream\<close> with its CSV and JSON Lines
  branches, the counting writer and the progress reports.

  The parts of the Go library it uses are written out: \<^verbatim>\<open>encoding/csv\<close> over \<^verbatim>\<open>bufio.Writer\<close>
  (4096 bytes, so a short write error surfaces as late as it does in Go) and \<^verbatim>\<open>encoding/json\<close>
  for a map from column names to values, with its sorted keys and its escaping. The texts of
  floats, times and driver-specific values are the argument \<open>fm\<close>. The Parquet branch is
  the argument \<open>encodeParquet\<close>.

  The environment of the call - the clock, the writer, the progress callbacks, the context -
  acts on a state \<open>'x\<close>. The row stream is the list of what the driver's \<^verbatim>\<open>Next\<close>/\<^verbatim>\<open>Scan\<close> pairs
  return until \<^verbatim>\<open>Next\<close> is false, its columns and its final \<^verbatim>\<open>Err\<close>.
\<close>

section \<open>Values\<close>

text \<open>
  What a driver scans into an \<^verbatim>\<open>any\<close>. \<open>VIntN\<close> is one of \<^verbatim>\<open>int8\<close>, \<^verbatim>\<open>int16\<close>, \<^verbatim>\<open>int32\<close> by its width, \<open>VUint\<close> one of the
  unsigned types, width 0 being \<^verbatim>\<open>uint\<close>; a float is its bit pattern.
\<close>

datatype val =
    VNil
  | VString string
  | VBytes string
  | VInt64 int
  | VInt int
  | VFloat64 nat
  | VBool bool
  | VTime time
  | VIntN nat int
  | VUint nat int
  | VFloat32 nat
  | VOther nat

text \<open>The formats of \<^verbatim>\<open>strconv.FormatFloat(v, 'f', -1, 64)\<close>, \<^verbatim>\<open>time.RFC3339Nano\<close>, \<^verbatim>\<open>%v\<close>, \<^verbatim>\<open>%T\<close>, the conversion
  \<^verbatim>\<open>float64(f)\<close> of a \<^verbatim>\<open>float32\<close>, and of \<^verbatim>\<open>json.Marshal\<close> for the same kinds.\<close>

record formats =
  fm_float :: "nat \<Rightarrow> string"
  fm_time :: "time \<Rightarrow> string"
  fm_other :: "nat \<Rightarrow> string"
  fm_float32 :: "nat \<Rightarrow> string"
  fm_type :: "nat \<Rightarrow> string"
  fm_widen :: "nat \<Rightarrow> nat"
  fm_json_float :: "nat \<Rightarrow> go_error + string"
  fm_json_time :: "time \<Rightarrow> go_error + string"
  fm_json_other :: "nat \<Rightarrow> go_error + string"
  fm_json_float32 :: "nat \<Rightarrow> go_error + string"

definition bool_text :: "bool \<Rightarrow> string" where
  "bool_text b = (if b then ''true'' else ''false'')"

fun toString :: "formats \<Rightarrow> val \<Rightarrow> string" where
  "toString fm VNil = []"
| "toString fm (VString s) = s"
| "toString fm (VBytes s) = s"
| "toString fm (VInt64 i) = itoa i"
| "toString fm (VInt i) = itoa i"
| "toString fm (VFloat64 f) = fm_float fm f"
| "toString fm (VBool b) = bool_text b"
| "toString fm (VTime t) = fm_time fm t"
| "toString fm (VIntN w i) = itoa i"
| "toString fm (VUint w i) = itoa i"
| "toString fm (VFloat32 f) = fm_float32 fm f"
| "toString fm (VOther v) = fm_other fm v"

section \<open>JSON\<close>

definition hex4 :: "nat \<Rightarrow> string" where
  "hex4 r = [CHR 0x5C, CHR ''u'', hex_char (r div 4096 mod 16), hex_char (r div 256 mod 16),
             hex_char (r div 16 mod 16), hex_char (r mod 16)]"

text \<open>One step of \<^verbatim>\<open>appendString\<close>: what a byte below 0x80 becomes, with HTML escaping on.\<close>

definition json_ascii :: "nat \<Rightarrow> string" where
  "json_ascii b =
     (if b = 34 then [CHR 0x5C, CHR 0x22]
      else if b = 92 then [CHR 0x5C, CHR 0x5C]
      else if b = 8 then [CHR 0x5C, CHR ''b'']
      else if b = 12 then [CHR 0x5C, CHR ''f'']
      else if b = 10 then [CHR 0x5C, CHR ''n'']
      else if b = 13 then [CHR 0x5C, CHR ''r'']
      else if b = 9 then [CHR 0x5C, CHR ''t'']
      else if b < 32 \<or> b = 60 \<or> b = 62 \<or> b = 38 then hex4 b
      else [char_of b])"

function json_body :: "nat list \<Rightarrow> string" where
  "json_body [] = []"
| "json_body (b # bs) =
     (if b < 128 then json_ascii b @ json_body bs
      else let (r, rest) = decode_rune (b # bs) in
        (if r = RuneError \<and> length bs = length rest then hex4 65533
         else if r = 8232 \<or> r = 8233 then hex4 r
         else map char_of (take (Suc (length bs) - length rest) (b # bs)))
        @ json_body rest)"
  by pat_completeness auto
termination
proof (relation "measure length", goal_cases)
  case (3 b bs x r rest)
  then have "rest = snd (decode_rune (b # bs))" by (metis snd_conv)
  then show ?case using decode_rune_length [of "b # bs"] by simp
qed simp_all

definition json_string :: "string \<Rightarrow> string" where
  "json_string s = [CHR 0x22] @ json_body (map of_char s) @ [CHR 0x22]"

text \<open>A value of the row map; the source has turned byte slices into strings before.\<close>

fun json_val :: "formats \<Rightarrow> val \<Rightarrow> go_error + string" where
  "json_val fm VNil = Inr ''null''"
| "json_val fm (VString s) = Inr (json_string s)"
| "json_val fm (VBytes s) = Inr (json_string s)"
| "json_val fm (VInt64 i) = Inr (itoa i)"
| "json_val fm (VInt i) = Inr (itoa i)"
| "json_val fm (VFloat64 f) = fm_json_float fm f"
| "json_val fm (VBool b) = Inr (bool_text b)"
| "json_val fm (VTime t) = fm_json_time fm t"
| "json_val fm (VIntN w i) = Inr (itoa i)"
| "json_val fm (VUint w i) = Inr (itoa i)"
| "json_val fm (VFloat32 f) = fm_json_float32 fm f"
| "json_val fm (VOther v) = fm_json_other fm v"

fun json_fields :: "formats \<Rightarrow> (string \<times> val) list \<Rightarrow> go_error + string list" where
  "json_fields fm [] = Inr []"
| "json_fields fm ((k, v) # kvs) =
     (case json_val fm v of
        Inl e \<Rightarrow> Inl e
      | Inr t \<Rightarrow> (case json_fields fm kvs of Inl e \<Rightarrow> Inl e | Inr ts \<Rightarrow> Inr ((json_string k @ '':'' @ t) # ts)))"

text \<open>The row map: a later column of the same name replaces an earlier one.\<close>

definition row_map :: "string list \<Rightarrow> val list \<Rightarrow> (string, val) gomap" where
  "row_map columns values = fold (\<lambda>(c, v) m. mput c v m) (zip columns values) []"

definition json_Marshal :: "formats \<Rightarrow> (string, val) gomap \<Rightarrow> go_error + string" where
  "json_Marshal fm m =
     (case json_fields fm (map (\<lambda>k. (k, the (mget m k))) (sort (mkeys m))) of
        Inl e \<Rightarrow> Inl e
      | Inr ts \<Rightarrow> Inr (''{'' @ strings_Join ts '','' @ ''}''))"

section \<open>CSV records\<close>

definition fieldNeedsQuotes :: "string \<Rightarrow> bool" where
  "fieldNeedsQuotes f \<longleftrightarrow>
     f \<noteq> [] \<and> (f = [CHR 0x5C, CHR ''.''] \<or>
       (\<exists>c \<in> set f. c \<in> {CHR 0x0A, CHR 0x0D, CHR 0x22, CHR '',''}) \<or>
       IsSpace (fst (decode_rune (map of_char f))))"

definition csv_quoted :: "string \<Rightarrow> string" where
  "csv_quoted f = [CHR 0x22] @ concat (map (\<lambda>c. if c = CHR 0x22 then [c, c] else [c]) f) @ [CHR 0x22]"

definition csv_field :: "string \<Rightarrow> string" where
  "csv_field f = (if fieldNeedsQuotes f then csv_quoted f else f)"

definition csv_record :: "string list \<Rightarrow> string" where
  "csv_record fs = strings_Join (map csv_field fs) '','' @ [CHR 0x0A]"

section \<open>Writers\<close>

record 'x enc_env =
  ee_now :: "'x \<Rightarrow> time \<times> 'x"
  ee_write :: "string \<Rightarrow> 'x \<Rightarrow> (nat \<times> go_error option) \<times> 'x"
  ee_progress :: "int \<Rightarrow> int \<Rightarrow> 'x \<Rightarrow> 'x"
  ee_done :: "'x \<Rightarrow> go_error option \<times> 'x"

text \<open>The variables of \<^verbatim>\<open>EncodeStream\<close>: \<^verbatim>\<open>rowCount\<close>, \<^verbatim>\<open>cw.Count\<close>, \<^verbatim>\<open>last\<close>, and the environment's state.\<close>

record 'x enc =
  en_rows :: int
  en_count :: int
  en_last :: time
  en_x :: 'x

definition cw_Write :: "'x enc_env \<Rightarrow> string \<Rightarrow> 'x enc \<Rightarrow> go_error option \<times> 'x enc" where
  "cw_Write env p st =
     (let ((n, e), x) = ee_write env p (en_x st) in
      (e, st\<lparr>en_count := en_count st + int n, en_x := x\<rparr>))"

definition progressReportEvery :: int where "progressReportEvery = 1000"
definition progressReportAfter :: duration where "progressReportAfter = Second"

definition emit :: "'x enc_env \<Rightarrow> int \<Rightarrow> 'x enc \<Rightarrow> 'x enc" where
  "emit env rows st =
     (let (t, x) = ee_now env (en_x st) in
      st\<lparr>en_last := t, en_x := ee_progress env rows (en_count st) x\<rparr>)"

definition report :: "'x enc_env \<Rightarrow> int \<Rightarrow> 'x enc \<Rightarrow> 'x enc" where
  "report env rows st =
     (if rows mod progressReportEvery \<noteq> 0
      then let (t, x) = ee_now env (en_x st); st = st\<lparr>en_x := x\<rparr> in
        if time_Sub t (en_last st) < progressReportAfter then st else emit env rows st
      else emit env rows st)"

text \<open>
  \<^verbatim>\<open>bufio.Writer\<close>: the buffered bytes and the sticky error. The buffer is written out when a byte
  arrives and it is full.
\<close>

record bufio =
  bw_buf :: string
  bw_err :: "go_error option"

definition bufio_size :: nat where "bufio_size = 4096"

definition bufio_Flush :: "'x enc_env \<Rightarrow> bufio \<times> 'x enc \<Rightarrow> bufio \<times> 'x enc" where
  "bufio_Flush env s =
     (let (b, st) = s in
      if bw_err b \<noteq> None \<or> bw_buf b = [] then (b, st)
      else
        let ((n, e), x) = ee_write env (bw_buf b) (en_x st);
            st = st\<lparr>en_count := en_count st + int n, en_x := x\<rparr> in
        (case e of
           None \<Rightarrow> (b\<lparr>bw_buf := []\<rparr>, st)
         | Some e \<Rightarrow> (b\<lparr>bw_buf := drop n (bw_buf b), bw_err := Some e\<rparr>, st)))"

definition bufio_WriteByte :: "'x enc_env \<Rightarrow> char \<Rightarrow> bufio \<times> 'x enc \<Rightarrow> bufio \<times> 'x enc" where
  "bufio_WriteByte env c s =
     (let (b, st) = (if bw_err (fst s) = None \<and> length (bw_buf (fst s)) \<ge> bufio_size then bufio_Flush env s else s) in
      if bw_err b \<noteq> None then (b, st) else (b\<lparr>bw_buf := bw_buf b @ [c]\<rparr>, st))"

definition csv_Write :: "'x enc_env \<Rightarrow> string list \<Rightarrow> bufio \<times> 'x enc \<Rightarrow> go_error option \<times> (bufio \<times> 'x enc)" where
  "csv_Write env fs s = (let s' = fold (bufio_WriteByte env) (csv_record fs) s in (bw_err (fst s'), s'))"

section \<open>EncodeStream\<close>

text \<open>What the driver returns for one row: the scanned values or a scan error.\<close>

type_synonym row_event = "go_error + val list"

text \<open>One iteration of the JSON Lines loop, with the error it returns, if any.\<close>

definition jsonl_row :: "formats \<Rightarrow> 'x enc_env \<Rightarrow> string list \<Rightarrow> row_event \<Rightarrow> 'x enc \<Rightarrow> go_error option \<times> 'x enc" where
  "jsonl_row fm env columns ev st =
     (let (d, x) = ee_done env (en_x st); st = st\<lparr>en_x := x\<rparr> in
      case d of Some e \<Rightarrow> (Some e, st)
      | None \<Rightarrow>
        (case ev of Inl e \<Rightarrow> (Some (Wrapf ''failed to scan row'' e), st)
         | Inr values \<Rightarrow>
           (case json_Marshal fm (row_map columns values) of
              Inl e \<Rightarrow> (Some (Wrapf ''failed to marshal row to json'' e), st)
            | Inr data \<Rightarrow>
              (let (e, st) = cw_Write env (data @ [CHR 0x0A]) st in
               case e of Some e \<Rightarrow> (Some (Wrapf ''failed to write jsonl row'' e), st)
               | None \<Rightarrow>
                 let rows = en_rows st + 1 in (None, report env rows (st\<lparr>en_rows := rows\<rparr>))))))"

text \<open>The loop: an error to return at once, or \<open>None\<close> to go on after the switch.\<close>

fun jsonl_loop :: "formats \<Rightarrow> 'x enc_env \<Rightarrow> string list \<Rightarrow> row_event list \<Rightarrow> 'x enc \<Rightarrow> go_error option \<times> 'x enc" where
  "jsonl_loop fm env columns [] st = (None, st)"
| "jsonl_loop fm env columns (ev # evs) st =
     (case jsonl_row fm env columns ev st of
        (Some e, st) \<Rightarrow> (Some e, st)
      | (None, st) \<Rightarrow> jsonl_loop fm env columns evs st)"

definition csv_row :: "formats \<Rightarrow> 'x enc_env \<Rightarrow> row_event \<Rightarrow> bufio \<times> 'x enc \<Rightarrow> go_error option \<times> (bufio \<times> 'x enc)" where
  "csv_row fm env ev s =
     (let (b, st) = s; (d, x) = ee_done env (en_x st); st = st\<lparr>en_x := x\<rparr> in
      case d of Some e \<Rightarrow> (Some e, (b, st))
      | None \<Rightarrow>
        (case ev of Inl e \<Rightarrow> (Some (Wrapf ''failed to scan row'' e), (b, st))
         | Inr values \<Rightarrow>
           (let (e, (b, st)) = csv_Write env (map (toString fm) values) (b, st) in
            case e of Some e \<Rightarrow> (Some (Wrapf ''failed to write csv row'' e), (b, st))
            | None \<Rightarrow> let rows = en_rows st + 1 in (None, (b, report env rows (st\<lparr>en_rows := rows\<rparr>))))))"

fun csv_loop :: "formats \<Rightarrow> 'x enc_env \<Rightarrow> row_event list \<Rightarrow> bufio \<times> 'x enc \<Rightarrow> go_error option \<times> (bufio \<times> 'x enc)" where
  "csv_loop fm env [] s = (None, s)"
| "csv_loop fm env (ev # evs) s =
     (case csv_row fm env ev s of (Some e, s) \<Rightarrow> (Some e, s) | (None, s) \<Rightarrow> csv_loop fm env evs s)"

text \<open>The result triple, and the deferred last report, which runs on every return after the writer exists.\<close>

definition enc_return :: "'x enc_env \<Rightarrow> int \<times> int \<times> go_error option \<Rightarrow> 'x enc \<Rightarrow> (int \<times> int \<times> go_error option) \<times> 'x" where
  "enc_return env r st = (r, en_x (emit env (en_rows st) st))"

definition EncodeStream ::
  "formats \<Rightarrow> 'x enc_env \<Rightarrow> (string list \<Rightarrow> row_event list \<Rightarrow> 'x enc \<Rightarrow> go_error option \<times> 'x enc) \<Rightarrow>
   go_error + string list \<Rightarrow> row_event list \<Rightarrow> go_error option \<Rightarrow> string \<Rightarrow> 'x \<Rightarrow>
   (int \<times> int \<times> go_error option) \<times> 'x" where
  "EncodeStream fm env encodeParquet columns rows streamErr format x =
     (case columns of
        Inl e \<Rightarrow> ((0, 0, Some (Wrapf ''failed to get columns'' e)), x)
      | Inr columns \<Rightarrow>
        let (t, x) = ee_now env x; st = \<lparr>en_rows = 0, en_count = 0, en_last = t, en_x = x\<rparr> in
        if format = ''csv'' then
          (let (e, (b, st)) = csv_Write env columns (\<lparr>bw_buf = [], bw_err = None\<rparr>, st) in
           case e of Some e \<Rightarrow> enc_return env (0, 0, Some (Wrapf ''failed to write csv header'' e)) st
           | None \<Rightarrow>
             (let (e, (b, st)) = csv_loop fm env rows (b, st) in
              case e of Some e \<Rightarrow> enc_return env (en_rows st, en_count st, Some e) st
              | None \<Rightarrow>
                (let (b, st) = bufio_Flush env (b, st) in
                 case bw_err b of
                   Some e \<Rightarrow> enc_return env (en_rows st, en_count st, Some (Wrapf ''csv flush failed'' e)) st
                 | None \<Rightarrow>
                   enc_return env (en_rows st, en_count st, map_option (Wrapf ''row stream error'') streamErr) st)))
        else if format = ''parquet'' then
          (let (e, st) = encodeParquet columns rows st in enc_return env (en_rows st, en_count st, e) st)
        else if format = ''jsonl'' then
          (let (e, st) = jsonl_loop fm env columns rows st in
           case e of Some e \<Rightarrow> enc_return env (en_rows st, en_count st, Some e) st
           | None \<Rightarrow>
             enc_return env (en_rows st, en_count st, map_option (Wrapf ''row stream error'') streamErr) st)
        else enc_return env (0, 0, Some (ErrorString (''unsupported format '' @ strconv_Quote format))) st)"

section \<open>What reaches the writer\<close>

text \<open>
  An environment with a byte sink: \<open>out\<close> are the bytes the writer has taken. A write that reports
  no error has taken all of its bytes and says so, which is the contract of \<^verbatim>\<open>io.Writer\<close>; the
  clock, the reports and the context do not write.
\<close>

definition sink :: "'x enc_env \<Rightarrow> ('x \<Rightarrow> string) \<Rightarrow> bool" where
  "sink env out \<longleftrightarrow>
     (\<forall>p x n x'. ee_write env p x = ((n, None), x') \<longrightarrow> n = length p \<and> out x' = out x @ p) \<and>
     (\<forall>x. out (snd (ee_now env x)) = out x) \<and>
     (\<forall>r b x. out (ee_progress env r b x) = out x) \<and>
     (\<forall>x. out (snd (ee_done env x)) = out x)"

text \<open>The bytes written since \<open>x0\<close> are \<open>p\<close>, and the counter says how many.\<close>

definition wrote :: "('x \<Rightarrow> string) \<Rightarrow> 'x \<Rightarrow> string \<Rightarrow> 'x enc \<Rightarrow> bool" where
  "wrote out x0 p st \<longleftrightarrow> out (en_x st) = out x0 @ p \<and> en_count st = int (length p)"

lemma wrote_rows: "wrote out x0 p (st\<lparr>en_rows := r\<rparr>) = wrote out x0 p st"
  by (simp add: wrote_def)

lemma wrote_emit: "sink env out \<Longrightarrow> wrote out x0 p st \<Longrightarrow> wrote out x0 p (emit env r st)"
  by (cases "ee_now env (en_x st)") (auto simp: sink_def wrote_def emit_def Let_def, metis snd_conv)

lemma wrote_report: "sink env out \<Longrightarrow> wrote out x0 p st \<Longrightarrow> wrote out x0 p (report env r st)"
proof -
  assume a: "sink env out" "wrote out x0 p st"
  obtain t x where t: "ee_now env (en_x st) = (t, x)" by (cases "ee_now env (en_x st)")
  then have "out x = out (en_x st)" using a(1) by (metis sink_def snd_conv)
  then have "wrote out x0 p (st\<lparr>en_x := x\<rparr>)" using a(2) by (simp add: wrote_def)
  with a t show ?thesis by (simp add: report_def Let_def wrote_emit)
qed

lemma emit_rows [simp]: "en_rows (emit env r st) = en_rows st" "en_count (emit env r st) = en_count st"
  by (simp_all add: emit_def Let_def split_beta)

lemma report_rows [simp]: "en_rows (report env r st) = en_rows st" "en_count (report env r st) = en_count st"
  by (simp_all add: report_def Let_def split_beta)

lemma wrote_cw_Write:
  assumes "sink env out" and "wrote out x0 p st" and "cw_Write env q st = (None, st')"
  shows "wrote out x0 (p @ q) st'" and "en_rows st' = en_rows st"
proof -
  obtain n e' x where w: "ee_write env q (en_x st) = ((n, e'), x)" by (metis surj_pair)
  then have e: "e' = None" using assms(3) by (simp add: cw_Write_def)
  then have "n = length q" "out x = out (en_x st) @ q" using assms(1) w unfolding sink_def by blast+
  with w e assms(2,3) show "wrote out x0 (p @ q) st'" "en_rows st' = en_rows st" by (auto simp: cw_Write_def wrote_def)
qed

lemma wrote_done:
  "sink env out \<Longrightarrow> wrote out x0 p st \<Longrightarrow> ee_done env (en_x st) = (d, x) \<Longrightarrow> wrote out x0 p (st\<lparr>en_x := x\<rparr>)"
  by (metis (no_types, lifting) enc.select_convs(2,4) enc.surjective enc.update_convs(4) sink_def snd_conv wrote_def)

text \<open>The lines of a JSON Lines result.\<close>

definition jsonl_line :: "formats \<Rightarrow> string list \<Rightarrow> row_event \<Rightarrow> string option" where
  "jsonl_line fm columns ev =
     (case ev of Inl _ \<Rightarrow> None
      | Inr values \<Rightarrow> (case json_Marshal fm (row_map columns values) of Inl _ \<Rightarrow> None | Inr t \<Rightarrow> Some (t @ [CHR 0x0A])))"

lemma jsonl_row_writes:
  assumes sink: "sink env out" and w: "wrote out x0 p st" and row: "jsonl_row fm env columns ev st = (None, st')"
  shows "\<exists>q. wrote out x0 (p @ q) st' \<and> en_rows st' = en_rows st + 1 \<and> jsonl_line fm columns ev = Some q"
proof -
  obtain x where d: "ee_done env (en_x st) = (None, x)"
    using row by (cases "ee_done env (en_x st)") (auto simp: jsonl_row_def Let_def split: option.splits)
  let ?st1 = "st\<lparr>en_x := x\<rparr>"
  obtain vs data where ev: "ev = Inr vs" "json_Marshal fm (row_map columns vs) = Inr data"
    using row d by (auto simp: jsonl_row_def Let_def split: sum.splits)
  obtain st2 where cw: "cw_Write env (data @ [CHR 0x0A]) ?st1 = (None, st2)"
    and st': "st' = report env (en_rows st2 + 1) (st2\<lparr>en_rows := en_rows st2 + 1\<rparr>)"
    using row d ev by (auto simp: jsonl_row_def Let_def split: prod.splits option.splits)
  note c = wrote_cw_Write [OF sink wrote_done [OF sink w d] cw]
  have "wrote out x0 (p @ data @ [CHR 0x0A]) st'"
    unfolding st' using c(1) by (intro wrote_report [OF sink]) (simp only: wrote_rows)
  with c(2) ev show ?thesis by (intro exI [of _ "data @ [CHR 0x0A]"]) (simp add: st' jsonl_line_def)
qed

lemma jsonl_loop_writes:
  assumes "sink env out" and "wrote out x0 p st" and "jsonl_loop fm env columns rows st = (None, st')"
  shows "\<exists>ts. wrote out x0 (p @ concat ts) st' \<and> en_rows st' = en_rows st + int (length rows) \<and>
     map (jsonl_line fm columns) rows = map Some ts"
  using assms(2,3)
proof (induction rows arbitrary: st p)
  case (Cons ev evs)
  then obtain st1 where r: "jsonl_row fm env columns ev st = (None, st1)" "jsonl_loop fm env columns evs st1 = (None, st')"
    by (auto split: prod.splits option.splits)
  from jsonl_row_writes [OF assms(1) Cons.prems(1) r(1)] obtain q where
    q: "wrote out x0 (p @ q) st1" "en_rows st1 = en_rows st + 1" "jsonl_line fm columns ev = Some q" by blast
  from Cons.IH [OF q(1) r(2)] obtain ts where "wrote out x0 ((p @ q) @ concat ts) st'"
    "en_rows st' = en_rows st1 + int (length evs)" "map (jsonl_line fm columns) evs = map Some ts" by blast
  with q show ?case by (intro exI [of _ "q # ts"]) auto
qed auto

text \<open>
  Through the buffer: \<open>tx\<close> has been handed to the CSV writer; without an error what has not
  reached the sink is in the buffer.
\<close>

definition buffered :: "('x \<Rightarrow> string) \<Rightarrow> 'x \<Rightarrow> string \<Rightarrow> bufio \<times> 'x enc \<Rightarrow> bool" where
  "buffered out x0 tx s \<longleftrightarrow>
     (bw_err (fst s) = None \<longrightarrow> (\<exists>p. wrote out x0 p (snd s) \<and> p @ bw_buf (fst s) = tx))"

lemma buffered_step:
  "(\<And>p. wrote out x0 p st \<Longrightarrow> wrote out x0 p st') \<Longrightarrow> buffered out x0 tx (b, st) \<Longrightarrow> buffered out x0 tx (b, st')"
  unfolding buffered_def by (metis fst_conv snd_conv)

lemma buffered_Flush:
  assumes "sink env out" and "buffered out x0 tx s"
  shows "buffered out x0 tx (bufio_Flush env s)"
    and "bw_err (fst (bufio_Flush env s)) = None \<Longrightarrow> wrote out x0 tx (snd (bufio_Flush env s))"
    and "en_rows (snd (bufio_Flush env s)) = en_rows (snd s)"
proof -
  obtain b st where s: "s = (b, st)" by (cases s)
  obtain n e x where w: "ee_write env (bw_buf b) (en_x st) = ((n, e), x)" by (metis surj_pair)
  show en: "en_rows (snd (bufio_Flush env s)) = en_rows (snd s)"
    using w by (cases e) (auto simp: bufio_Flush_def s)
  have "buffered out x0 tx (bufio_Flush env s) \<and>
      (bw_err (fst (bufio_Flush env s)) = None \<longrightarrow> wrote out x0 tx (snd (bufio_Flush env s)))"
  proof (cases "bw_err b = None \<and> bw_buf b \<noteq> [] \<and> e = None")
    case True
    then have n: "n = length (bw_buf b)" "out x = out (en_x st) @ bw_buf b"
      using assms(1) w unfolding sink_def by blast+
    from assms(2) True obtain p where "wrote out x0 p st" "p @ bw_buf b = tx" by (auto simp: buffered_def s)
    with n have "wrote out x0 tx (st\<lparr>en_count := en_count st + int n, en_x := x\<rparr>)" by (auto simp: wrote_def)
    with True w show ?thesis by (simp add: bufio_Flush_def s buffered_def)
  next
    case False
    with assms(2) w show ?thesis by (cases e) (auto simp: bufio_Flush_def s buffered_def)
  qed
  then show "buffered out x0 tx (bufio_Flush env s)"
    and "bw_err (fst (bufio_Flush env s)) = None \<Longrightarrow> wrote out x0 tx (snd (bufio_Flush env s))" by blast+
qed

lemma buffered_WriteByte:
  assumes "sink env out" and "buffered out x0 tx s"
  shows "buffered out x0 (tx @ [c]) (bufio_WriteByte env c s)"
    and "en_rows (snd (bufio_WriteByte env c s)) = en_rows (snd s)"
proof -
  define s1 where "s1 = (if bw_err (fst s) = None \<and> length (bw_buf (fst s)) \<ge> bufio_size then bufio_Flush env s else s)"
  have b: "buffered out x0 tx s1" and r: "en_rows (snd s1) = en_rows (snd s)"
    using assms buffered_Flush [OF assms] by (simp_all add: s1_def)
  have w: "bufio_WriteByte env c s =
      (if bw_err (fst s1) \<noteq> None then s1 else ((fst s1)\<lparr>bw_buf := bw_buf (fst s1) @ [c]\<rparr>, snd s1))"
    unfolding bufio_WriteByte_def s1_def [symmetric] by (cases s1) simp
  from b show "buffered out x0 (tx @ [c]) (bufio_WriteByte env c s)"
    unfolding w buffered_def by auto
  show "en_rows (snd (bufio_WriteByte env c s)) = en_rows (snd s)" unfolding w by (simp add: r)
qed

lemma buffered_fold:
  "sink env out \<Longrightarrow> buffered out x0 tx s \<Longrightarrow>
     buffered out x0 (tx @ cs) (fold (bufio_WriteByte env) cs s)
     \<and> en_rows (snd (fold (bufio_WriteByte env) cs s)) = en_rows (snd s)"
proof (induction cs arbitrary: s tx)
  case (Cons c cs)
  from Cons.IH [OF Cons.prems(1) buffered_WriteByte(1) [OF Cons.prems, of c]] buffered_WriteByte(2) [OF Cons.prems, of c]
  show ?case by simp
qed simp

lemma buffered_csv_Write:
  "sink env out \<Longrightarrow> buffered out x0 tx s \<Longrightarrow> csv_Write env fs s = (e, s') \<Longrightarrow>
     buffered out x0 (tx @ csv_record fs) s' \<and> e = bw_err (fst s') \<and> en_rows (snd s') = en_rows (snd s)"
  using buffered_fold [of env out x0 tx s "csv_record fs"] by (auto simp: csv_Write_def Let_def)

text \<open>The record of a row: its values as text.\<close>

definition csv_line :: "formats \<Rightarrow> row_event \<Rightarrow> string option" where
  "csv_line fm ev = (case ev of Inl _ \<Rightarrow> None | Inr vs \<Rightarrow> Some (csv_record (map (toString fm) vs)))"

lemma csv_row_writes:
  assumes sink: "sink env out" and b: "buffered out x0 tx s" and row: "csv_row fm env ev s = (None, s')"
  shows "\<exists>q. buffered out x0 (tx @ q) s' \<and> bw_err (fst s') = None \<and> en_rows (snd s') = en_rows (snd s) + 1 \<and>
     csv_line fm ev = Some q"
proof -
  obtain bw st where s: "s = (bw, st)" by (cases s)
  obtain x where d: "ee_done env (en_x st) = (None, x)"
    using row by (cases "ee_done env (en_x st)") (auto simp: csv_row_def Let_def s split: option.splits)
  let ?st1 = "st\<lparr>en_x := x\<rparr>"
  have b1: "buffered out x0 tx (bw, ?st1)"
    using b wrote_done [OF sink _ d] unfolding s by (rule buffered_step [rotated])
  obtain vs where ev: "ev = Inr vs" using row d by (auto simp: csv_row_def Let_def s split: sum.splits)
  let ?r = "csv_record (map (toString fm) vs)"
  obtain b2 st2 where cw: "csv_Write env (map (toString fm) vs) (bw, ?st1) = (None, (b2, st2))"
    and s': "s' = (b2, report env (en_rows st2 + 1) (st2\<lparr>en_rows := en_rows st2 + 1\<rparr>))"
    using row d ev by (auto simp: csv_row_def Let_def s split: prod.splits option.splits)
  from buffered_csv_Write [OF sink b1 cw] have b2: "buffered out x0 (tx @ ?r) (b2, st2)" "bw_err b2 = None"
    "en_rows st2 = en_rows st" by simp_all
  have "wrote out x0 p st2 \<Longrightarrow> wrote out x0 p (report env (en_rows st2 + 1) (st2\<lparr>en_rows := en_rows st2 + 1\<rparr>))" for p
    by (intro wrote_report [OF sink]) (simp add: wrote_def)
  with b2(1) have "buffered out x0 (tx @ ?r) s'" unfolding s' by (rule buffered_step [rotated])
  with b2 show ?thesis by (intro exI [of _ ?r]) (simp add: s' csv_line_def ev s)
qed

lemma csv_loop_writes:
  assumes "sink env out" and "buffered out x0 tx s" and "csv_loop fm env rows s = (None, s')" and "bw_err (fst s) = None"
  shows "\<exists>ts. buffered out x0 (tx @ concat ts) s' \<and> bw_err (fst s') = None \<and>
     en_rows (snd s') = en_rows (snd s) + int (length rows) \<and> map (csv_line fm) rows = map Some ts"
  using assms(2-4)
proof (induction rows arbitrary: s tx)
  case Nil
  then show ?case by auto
next
  case (Cons ev evs)
  then obtain s1 where r: "csv_row fm env ev s = (None, s1)" "csv_loop fm env evs s1 = (None, s')"
    by (auto split: prod.splits option.splits)
  from csv_row_writes [OF assms(1) Cons.prems(1) r(1)] obtain q where
    q: "buffered out x0 (tx @ q) s1" "bw_err (fst s1) = None" "en_rows (snd s1) = en_rows (snd s) + 1" "csv_line fm ev = Some q"
    by blast
  from Cons.IH [OF q(1) r(2) q(2)] obtain ts where "buffered out x0 ((tx @ q) @ concat ts) s'" "bw_err (fst s') = None"
    "en_rows (snd s') = en_rows (snd s1) + int (length evs)" "map (csv_line fm) evs = map Some ts" by blast
  with q show ?case by (intro exI [of _ "q # ts"]) auto
qed

text \<open>The whole text of a result.\<close>

definition result_text :: "formats \<Rightarrow> string \<Rightarrow> string list \<Rightarrow> row_event list \<Rightarrow> string \<Rightarrow> bool" where
  "result_text fm format columns rows tx \<longleftrightarrow>
     (if format = ''csv''
      then \<exists>ts. map (csv_line fm) rows = map Some ts \<and> tx = csv_record columns @ concat ts
      else \<exists>ts. map (jsonl_line fm columns) rows = map Some ts \<and> tx = concat ts)"

lemma enc_return_out:
  assumes "sink env out" and "wrote out x0 p st" and "enc_return env r st = (r', x')"
  shows "r' = r" and "out x' = out x0 @ p" and "en_count st = int (length p)"
  using assms(3) wrote_emit [OF assms(1,2), of "en_rows st"] assms(2)
  by (simp_all add: enc_return_def wrote_def)

lemma wrote_start:
  "sink env out \<Longrightarrow> ee_now env x = (t, x1) \<Longrightarrow> wrote out x [] \<lparr>en_rows = 0, en_count = 0, en_last = t, en_x = x1\<rparr>"
  by (simp add: wrote_def) (metis sink_def snd_conv)

lemma encode_jsonl:
  assumes sink: "sink env out"
    and enc: "EncodeStream fm env encP (Inr columns) rows serr ''jsonl'' x = ((n, b, None), x')"
  shows "\<exists>tx. result_text fm ''jsonl'' columns rows tx \<and> out x' = out x @ tx \<and> b = int (length tx)
    \<and> n = int (length rows) \<and> serr = None"
proof -
  obtain t x1 where t: "ee_now env x = (t, x1)" by (cases "ee_now env x")
  let ?st = "\<lparr>en_rows = 0, en_count = 0, en_last = t, en_x = x1\<rparr>"
  obtain st where l: "jsonl_loop fm env columns rows ?st = (None, st)"
    and r: "enc_return env (en_rows st, en_count st, map_option (Wrapf ''row stream error'') serr) st = ((n, b, None), x')"
    using enc t by (auto simp: EncodeStream_def enc_return_def split: prod.splits option.splits)
  from jsonl_loop_writes [OF sink wrote_start [OF sink t] l] obtain ts where q: "wrote out x (concat ts) st"
    "en_rows st = int (length rows)" "map (jsonl_line fm columns) rows = map Some ts" by auto
  from enc_return_out [OF sink q(1) r] q show ?thesis
    by (intro exI [of _ "concat ts"]) (auto simp: result_text_def)
qed

lemma encode_csv:
  assumes sink: "sink env out"
    and enc: "EncodeStream fm env encP (Inr columns) rows serr ''csv'' x = ((n, b, None), x')"
  shows "\<exists>tx. result_text fm ''csv'' columns rows tx \<and> out x' = out x @ tx \<and> b = int (length tx)
    \<and> n = int (length rows) \<and> serr = None"
proof -
  obtain t x1 where t: "ee_now env x = (t, x1)" by (cases "ee_now env x")
  let ?st = "\<lparr>en_rows = 0, en_count = 0, en_last = t, en_x = x1\<rparr>" and ?b = "\<lparr>bw_buf = [], bw_err = None\<rparr>"
  have b0: "buffered out x [] (?b, ?st)" using wrote_start [OF sink t] by (auto simp: buffered_def)
  obtain e1 b1 st1 where h: "csv_Write env columns (?b, ?st) = (e1, (b1, st1))" by (metis surj_pair)
  from buffered_csv_Write [OF sink b0 h] have h1: "buffered out x (csv_record columns) (b1, st1)"
    "e1 = bw_err b1" "en_rows st1 = 0" by simp_all
  have e1: "e1 = None" using enc t h by (cases e1) (simp_all add: EncodeStream_def enc_return_def)
  obtain e2 b2 st2 where l: "csv_loop fm env rows (b1, st1) = (e2, (b2, st2))" by (metis surj_pair)
  have "bw_err (fst (b1, st1)) = None" using e1 h1(2) by simp
  have e2: "e2 = None" using enc t h e1 l by (cases e2) (simp_all add: EncodeStream_def enc_return_def)
  from csv_loop_writes [OF sink h1(1) l [unfolded e2] \<open>bw_err (fst (b1, st1)) = None\<close>] obtain ts
    where q: "buffered out x (csv_record columns @ concat ts) (b2, st2)" "bw_err b2 = None" "en_rows st2 = int (length rows)"
      "map (csv_line fm) rows = map Some ts" using h1(3) by auto
  obtain b3 st3 where f: "bufio_Flush env (b2, st2) = (b3, st3)" by (cases "bufio_Flush env (b2, st2)")
  note fl = buffered_Flush [OF sink q(1)]
  have e3: "bw_err b3 = None" using enc t h e1 l e2 f
    by (cases "bw_err b3") (simp_all add: EncodeStream_def enc_return_def)
  have w: "wrote out x (csv_record columns @ concat ts) st3" and r: "en_rows st3 = en_rows st2" using fl(2,3) e3 by (simp_all add: f)
  have "enc_return env (en_rows st3, en_count st3, map_option (Wrapf ''row stream error'') serr) st3 = ((n, b, None), x')"
    using enc t h e1 l e2 f e3 by (simp add: EncodeStream_def)
  with enc_return_out [OF sink w] q(3,4) r show ?thesis
    by (intro exI [of _ "csv_record columns @ concat ts"]) (auto simp: result_text_def enc_return_def)
qed

lemma encode_complete:
  assumes "sink env out" and "format \<in> {''csv'', ''jsonl''}"
    and "EncodeStream fm env encP columns rows serr format x = ((n, b, None), x')"
  shows "\<exists>cols tx. columns = Inr cols \<and> result_text fm format cols rows tx \<and> out x' = out x @ tx
    \<and> b = int (length tx) \<and> n = int (length rows) \<and> serr = None"
proof -
  obtain cols where c: "columns = Inr cols" using assms(3) by (cases columns) (simp_all add: EncodeStream_def)
  from assms(2) consider "format = ''csv''" | "format = ''jsonl''" by auto
  then show ?thesis
  proof cases
    case 1
    then show ?thesis using encode_csv [OF assms(1) assms(3) [unfolded c 1]] c by auto
  next
    case 2
    then show ?thesis using encode_jsonl [OF assms(1) assms(3) [unfolded c 2]] c by auto
  qed
qed

section \<open>Reading the result back\<close>

text \<open>A reader of RFC 4180 text, independent of the writer.\<close>

datatype csv_state = FieldStart | InBare | InQuotes | QuoteSeen

fun csv_read :: "csv_state \<Rightarrow> string \<Rightarrow> string list \<Rightarrow> string \<Rightarrow> string list list" where
  "csv_read st f fs [] = (if st = FieldStart \<and> fs = [] then [] else [fs @ [f]])"
| "csv_read FieldStart f fs (c # cs) =
     (if c = CHR 0x22 then csv_read InQuotes [] fs cs
      else if c = CHR '','' then csv_read FieldStart [] (fs @ [[]]) cs
      else if c = CHR 0x0A then (fs @ [[]]) # csv_read FieldStart [] [] cs
      else csv_read InBare [c] fs cs)"
| "csv_read InBare f fs (c # cs) =
     (if c = CHR '','' then csv_read FieldStart [] (fs @ [f]) cs
      else if c = CHR 0x0A then (fs @ [f]) # csv_read FieldStart [] [] cs
      else csv_read InBare (f @ [c]) fs cs)"
| "csv_read InQuotes f fs (c # cs) =
     (if c = CHR 0x22 then csv_read QuoteSeen f fs cs else csv_read InQuotes (f @ [c]) fs cs)"
| "csv_read QuoteSeen f fs (c # cs) =
     (if c = CHR 0x22 then csv_read InQuotes (f @ [c]) fs cs
      else if c = CHR '','' then csv_read FieldStart [] (fs @ [f]) cs
      else if c = CHR 0x0A then (fs @ [f]) # csv_read FieldStart [] [] cs
      else csv_read InBare (f @ [c]) fs cs)"

definition csv_end :: "string \<Rightarrow> string list \<Rightarrow> char \<Rightarrow> string \<Rightarrow> string list list" where
  "csv_end f fs d rest =
     (if d = CHR '','' then csv_read FieldStart [] (fs @ [f]) rest else (fs @ [f]) # csv_read FieldStart [] [] rest)"

lemma csv_read_bare:
  "\<forall>c \<in> set f. c \<notin> {CHR 0x0A, CHR 0x0D, CHR 0x22, CHR '',''} \<Longrightarrow> d \<in> {CHR '','', CHR 0x0A} \<Longrightarrow>
     csv_read InBare g fs (f @ d # rest) = csv_end (g @ f) fs d rest"
  by (induction f arbitrary: g) (auto simp: csv_end_def)

lemma csv_read_quotes:
  "csv_read InQuotes g fs (concat (map (\<lambda>c. if c = CHR 0x22 then [c, c] else [c]) f) @ rest)
     = csv_read InQuotes (g @ f) fs rest"
  by (induction f arbitrary: g) auto

lemma csv_read_field:
  assumes "d \<in> {CHR '','', CHR 0x0A}"
  shows "csv_read FieldStart [] fs (csv_field f @ d # rest) = csv_end f fs d rest"
proof (cases "fieldNeedsQuotes f")
  case True
  with assms show ?thesis by (auto simp: csv_field_def csv_quoted_def csv_read_quotes csv_end_def)
next
  case False
  then have bare: "\<forall>c \<in> set f. c \<notin> {CHR 0x0A, CHR 0x0D, CHR 0x22, CHR '',''}"
    by (auto simp: fieldNeedsQuotes_def)
  show ?thesis
  proof (cases f)
    case Nil
    with assms show ?thesis by (auto simp: csv_field_def fieldNeedsQuotes_def csv_end_def)
  next
    case (Cons c cs)
    with bare csv_read_bare [of cs d "[c]" fs rest] assms False show ?thesis by (simp add: csv_field_def)
  qed
qed

lemma csv_read_record:
  "fs \<noteq> [] \<Longrightarrow> csv_read FieldStart [] acc (csv_record fs @ rest) = (acc @ fs) # csv_read FieldStart [] [] rest"
proof (induction fs arbitrary: acc)
  case (Cons f fs)
  show ?case
  proof (cases fs)
    case Nil
    with csv_read_field [of "CHR 0x0A" acc f rest] show ?thesis by (simp add: csv_record_def csv_end_def)
  next
    case (Cons g gs)
    have "csv_record (f # fs) @ rest = csv_field f @ CHR '','' # (csv_record fs @ rest)"
      by (simp add: csv_record_def Cons)
    with Cons.IH [of "acc @ [f]"] csv_read_field [of "CHR '',''" acc f "csv_record fs @ rest"] show ?thesis
      by (simp add: csv_end_def Cons)
  qed
qed simp

lemma csv_read_records:
  "\<forall>fs \<in> set rs. fs \<noteq> [] \<Longrightarrow> csv_read FieldStart [] [] (concat (map csv_record rs)) = rs"
  by (induction rs) (auto simp: csv_read_record)

text \<open>No newline in a JSON text, so that a line is a row.\<close>

definition no_newline :: "string \<Rightarrow> bool" where
  "no_newline t \<longleftrightarrow> CHR 0x0A \<notin> set t"

definition formats_ok :: "formats \<Rightarrow> bool" where
  "formats_ok fm \<longleftrightarrow>
     (\<forall>f t. fm_json_float fm f = Inr t \<longrightarrow> no_newline t) \<and> (\<forall>v t. fm_json_time fm v = Inr t \<longrightarrow> no_newline t) \<and>
     (\<forall>f t. fm_json_float32 fm f = Inr t \<longrightarrow> no_newline t) \<and>
     (\<forall>v t. fm_json_other fm v = Inr t \<longrightarrow> no_newline t)"

lemma no_newline_append [simp]: "no_newline (s @ t) \<longleftrightarrow> no_newline s \<and> no_newline t"
  by (auto simp: no_newline_def)

lemma no_newline_Cons [simp]: "no_newline (c # t) \<longleftrightarrow> c \<noteq> CHR 0x0A \<and> no_newline t"
  by (auto simp: no_newline_def)

lemma no_newline_Nil [simp]: "no_newline []"
  by (simp add: no_newline_def)

lemma char_of_not_newline: "n < (256 :: nat) \<Longrightarrow> n \<noteq> 10 \<Longrightarrow> char_of n \<noteq> CHR 0x0A"
proof
  assume "n < 256" "n \<noteq> 10" "char_of n = CHR 0x0A"
  then have "(of_char (char_of n) :: nat) = of_char (CHR 0x0A)" by (simp only:)
  with \<open>n < 256\<close> \<open>n \<noteq> 10\<close> show False by simp
qed

lemma hex_char_not_newline: "d < 16 \<Longrightarrow> hex_char d \<noteq> CHR 0x0A"
  using char_of_not_newline [of "48 + d"] char_of_not_newline [of "87 + d"] by (simp add: hex_char_def)

lemma hex4_no_newline: "no_newline (hex4 r)"
  by (simp add: hex4_def hex_char_not_newline)

lemma json_ascii_no_newline: "b < 128 \<Longrightarrow> no_newline (json_ascii b)"
  by (auto simp: json_ascii_def hex4_no_newline char_of_not_newline)

lemma second_ok_high: "second_ok b0 b1 \<Longrightarrow> 128 \<le> b1"
  by (simp add: second_ok_def cont_byte_def split: if_splits)

text \<open>The bytes of a multi-byte rune are all above 127.\<close>

lemma decode_rune_high:
  assumes "decode_rune (b # bs) = (r, rest)" and "128 \<le> b" and "length bs \<noteq> length rest"
  shows "\<forall>x \<in> set (take (Suc (length bs) - length rest) (b # bs)). 128 \<le> x"
proof -
  consider (two) b1 where "bs = b1 # rest" "cont_byte b1"
    | (three) b1 b2 where "bs = b1 # b2 # rest" "second_ok b b1" "cont_byte b2"
    | (four) b1 b2 b3 where "bs = b1 # b2 # b3 # rest" "second_ok b b1" "cont_byte b2" "cont_byte b3"
    using assms by (auto split: if_splits list.splits)
  then show ?thesis using assms(2)
    by cases (auto simp: cont_byte_def dest: second_ok_high)
qed

lemma json_body_no_newline: "\<forall>x \<in> set bs. x < 256 \<Longrightarrow> no_newline (json_body bs)"
proof (induction bs rule: json_body.induct)
  case (2 b bs)
  show ?case
  proof (cases "b < 128")
    case True
    with 2 show ?thesis by (simp add: json_ascii_no_newline)
  next
    case False
    obtain r rest where d: "decode_rune (b # bs) = (r, rest)" by (cases "decode_rune (b # bs)")
    have sub: "set rest \<subseteq> set (b # bs)"
      using d False by (auto split: if_splits list.splits)
    have rest: "no_newline (json_body rest)"
      using "2.IH"(2) [OF False refl d [symmetric]] "2.prems" sub by blast
    have "no_newline (map char_of (take (Suc (length bs) - length rest) (b # bs)))" if "length bs \<noteq> length rest"
    proof -
      have "\<forall>x \<in> set (take (Suc (length bs) - length rest) (b # bs)). 128 \<le> x \<and> x < 256"
        using decode_rune_high [OF d _ that] False "2.prems" by (meson in_set_takeD not_less)
      then have "CHR 0x0A \<noteq> char_of x" if "x \<in> set (take (Suc (length bs) - length rest) (b # bs))" for x
        using char_of_not_newline [of x] that by fastforce
      then show ?thesis unfolding no_newline_def set_map by blast
    qed
    moreover have "length bs = length rest \<Longrightarrow> r = RuneError"
      using d False by (auto split: if_splits list.splits)
    ultimately show ?thesis using False d rest by (auto simp: Let_def hex4_no_newline)
  qed
qed simp

lemma json_string_no_newline: "no_newline (json_string s)"
  by (simp add: json_string_def json_body_no_newline)

lemma digit_not_newline: "d < 10 \<Longrightarrow> digit_char d \<noteq> CHR 0x0A"
  using char_of_not_newline [of "48 + d"] by (simp add: digit_char_def)

lemma utoa_no_newline: "no_newline (utoa n)"
proof (induction n rule: utoa.induct)
  case (1 n)
  then show ?case by (subst utoa.simps) (simp add: digit_not_newline)
qed

lemma json_val_no_newline: "formats_ok fm \<Longrightarrow> json_val fm v = Inr t \<Longrightarrow> no_newline t"
  by (cases v) (auto simp: formats_ok_def json_string_no_newline itoa_def utoa_no_newline bool_text_def split: if_splits)

lemma json_fields_no_newline: "formats_ok fm \<Longrightarrow> json_fields fm kvs = Inr ts \<Longrightarrow> \<forall>t \<in> set ts. no_newline t"
proof (induction fm kvs arbitrary: ts rule: json_fields.induct)
  case (2 fm k v kvs)
  then obtain t ts' where "json_val fm v = Inr t" "json_fields fm kvs = Inr ts'" "ts = (json_string k @ '':'' @ t) # ts'"
    by (auto split: sum.splits)
  with 2 json_val_no_newline [of fm v t] show ?case by (simp add: json_string_no_newline)
qed simp

lemma strings_Join_no_newline: "\<forall>t \<in> set ts. no_newline t \<Longrightarrow> no_newline (strings_Join ts '','')"
  by (induction ts "'',''" rule: strings_Join.induct) auto

lemma json_Marshal_no_newline: "formats_ok fm \<Longrightarrow> json_Marshal fm m = Inr t \<Longrightarrow> no_newline t"
  by (auto simp: json_Marshal_def strings_Join_no_newline dest: json_fields_no_newline split: sum.splits)

lemma split_lines:
  "\<forall>t \<in> set ts. no_newline t \<Longrightarrow> split_char (CHR 0x0A) (concat (map (\<lambda>t. t @ [CHR 0x0A]) ts)) = ts @ [[]]"
proof (induction ts)
  case (Cons t ts)
  have "no_newline t \<Longrightarrow> split_char (CHR 0x0A) (t @ CHR 0x0A # rest) = t # split_char (CHR 0x0A) rest" for rest
    by (induction t) auto
  with Cons show ?case by simp
qed simp

section \<open>Properties\<close>

text \<open>
  C26. A result that is reported as encoded is complete. For every clock, progress callback,
  context and writer that keeps the \<^verbatim>\<open>io.Writer\<close> contract, when encoding a row stream as CSV or
  JSON Lines ends without an error, the writer has received exactly the text of all rows the
  driver produced - with the header for CSV, through a buffer that is written out in pieces - and
  nothing else; the row count is the number of rows, the byte count the number of bytes, and the
  stream itself ended without an error.
\<close>

theorem encoded_completely:
  assumes "sink env out" and "format \<in> {''csv'', ''jsonl''}"
    and "EncodeStream fm env encP columns rows serr format x = ((n, b, None), x')"
  shows "\<exists>cols tx. columns = Inr cols \<and> result_text fm format cols rows tx \<and> out x' = out x @ tx
    \<and> b = int (length tx) \<and> n = int (length rows) \<and> serr = None"
  using assms by (rule encode_complete)

text \<open>A concrete environment: the state is the output, the clock stands still, writes succeed.\<close>

definition plain_env :: "string enc_env" where
  "plain_env = \<lparr>ee_now = (\<lambda>x. (0, x)), ee_write = (\<lambda>p x. ((length p, None), x @ p)),
     ee_progress = (\<lambda>r b x. x), ee_done = (\<lambda>x. (None, x))\<rparr>"

definition plain_formats :: formats where
  "plain_formats = \<lparr>fm_float = utoa, fm_time = itoa, fm_other = utoa, fm_float32 = utoa, fm_type = utoa, fm_widen = (\<lambda>f. f),
     fm_json_float = (\<lambda>f. Inr (utoa f)),
     fm_json_time = (\<lambda>t. Inr (itoa t)), fm_json_other = (\<lambda>v. Inr (utoa v)), fm_json_float32 = (\<lambda>f. Inr (utoa f))\<rparr>"

lemma sink_plain: "sink plain_env (\<lambda>x. x)"
  by (auto simp: sink_def plain_env_def)

definition no_parquet :: "string list \<Rightarrow> row_event list \<Rightarrow> 'x enc \<Rightarrow> go_error option \<times> 'x enc" where
  "no_parquet columns rows st = (Some EOF, st)"

definition sample_rows :: "row_event list" where
  "sample_rows = [Inr [VInt64 7, VString ''a,b''], Inr [VInt64 8, VNil]]"

theorem encoded_completely_witness:
  "fst (EncodeStream plain_formats plain_env no_parquet (Inr [''id'', ''name'']) sample_rows None ''jsonl'' [])
     = (2, 43, None)
   \<and> (\<exists>tx. result_text plain_formats ''jsonl'' [''id'', ''name''] sample_rows tx \<and> length tx = 43)"
proof -
  let ?e = "EncodeStream plain_formats plain_env no_parquet (Inr [''id'', ''name'']) sample_rows None ''jsonl'' []"
  have e: "fst ?e = (2, 43, None)" by code_simp
  then have "?e = ((2, 43, None), snd ?e)" by (metis prod.collapse)
  from encoded_completely [OF sink_plain _ this] show ?thesis using e by auto
qed



end
