(* ===== verification/Parquet.thy ===== *)
theory Parquet
  imports Encoder
begin

text \<open>
  The Parquet branch of the encoder, \<^verbatim>\<open>internal/storage/parquet.go\<close>: unique column names, the
  column types inferred from a sample of the rows, the conversions, and \<^verbatim>\<open>encodeParquet\<close>.

  The library \<^verbatim>\<open>parquet-go\<close> is the argument \<open>lib\<close>. Its writer is a deterministic object: the bytes
  a call hands to the underlying \<^verbatim>\<open>io.Writer\<close>, and what the call returns given the first write error it
  meets, are functions of the schema and of the calls made before. \<open>pq_fields\<close> is the order
  of \<^verbatim>\<open>schema.Fields()\<close>; \<open>fields_ok\<close> states that it has each field of the group once.
\<close>

section \<open>The library\<close>

datatype parquetKind = kindString | kindInt | kindUint | kindFloat | kindBool | kindTimestamp

text \<open>The nodes \<^verbatim>\<open>nodeFor\<close> builds; all of them are wrapped in \<^verbatim>\<open>parquet.Optional\<close>.\<close>

datatype pq_node = PqString | PqInt nat | PqUint nat | PqDouble | PqBoolean | PqTimestampMicro

type_synonym pq_group = "(string, pq_node) gomap"

datatype pq_data = DNull | DInt64 int | DDouble nat | DBoolean bool | DByteArray string

text \<open>A \<^verbatim>\<open>parquet.Value\<close>: the datum, its definition level and its column index.\<close>

record pq_value =
  pv_data :: pq_data
  pv_level :: nat
  pv_index :: nat

datatype pq_call = WriteRows "pq_value list" | Flush | Close

type_synonym pq_log = "(pq_call \<times> go_error option) list"

record parquet_lib =
  pq_fields :: "pq_group \<Rightarrow> string list"
  pq_bytes :: "pq_group \<Rightarrow> pq_log \<Rightarrow> pq_call \<Rightarrow> string list"
  pq_answer :: "pq_group \<Rightarrow> pq_log \<Rightarrow> pq_call \<Rightarrow> go_error option \<Rightarrow> go_error option"

definition fields_ok :: "parquet_lib \<Rightarrow> bool" where
  "fields_ok lib \<longleftrightarrow> (\<forall>g. mwf g \<longrightarrow> distinct (pq_fields lib g) \<and> set (pq_fields lib g) = set (mkeys g))"

section \<open>Column names\<close>

definition candidate :: "string \<Rightarrow> nat \<Rightarrow> string" where
  "candidate base n = (if n = 0 then base else base @ ''_'' @ itoa (int n))"

lemma candidate_inj: "candidate base m = candidate base n \<longleftrightarrow> m = n"
  by (auto simp: candidate_def itoa_def utoa_inj)

text \<open>The inner loop: it ends because a finite set of names cannot hold every candidate.\<close>

function free_name :: "string list \<Rightarrow> string \<Rightarrow> nat \<Rightarrow> string" where
  "free_name seen base n =
     (if candidate base n \<in> set seen then free_name seen base (Suc n) else candidate base n)"
  by pat_completeness auto
termination
proof (relation "measure (\<lambda>(seen, base, n). card (set seen \<inter> candidate base ` {n..}))", goal_cases)
  case (2 seen base n)
  have "set seen \<inter> candidate base ` {Suc n..} \<subset> set seen \<inter> candidate base ` {n..}"
  proof
    show "set seen \<inter> candidate base ` {Suc n..} \<subseteq> set seen \<inter> candidate base ` {n..}" by auto
    have "candidate base n \<notin> candidate base ` {Suc n..}" by (auto simp: candidate_inj)
    with 2 show "set seen \<inter> candidate base ` {Suc n..} \<noteq> set seen \<inter> candidate base ` {n..}" by auto
  qed
  then show ?case by (simp add: psubset_card_mono)
qed simp

declare free_name.simps [simp del]

definition column_base :: "nat \<Rightarrow> string \<Rightarrow> string" where
  "column_base i col = (if col = [] then ''column_'' @ itoa (int i) else col)"

fun unique_names :: "string list \<Rightarrow> nat \<Rightarrow> string list \<Rightarrow> string list" where
  "unique_names seen i [] = []"
| "unique_names seen i (col # cols) =
     (let name = free_name seen (column_base i col) 0 in name # unique_names (name # seen) (Suc i) cols)"

definition uniqueColumnNames :: "string list \<Rightarrow> string list" where
  "uniqueColumnNames columns = unique_names [] 0 columns"

section \<open>Column types\<close>

fun kindOf :: "val \<Rightarrow> parquetKind" where
  "kindOf (VBool b) = kindBool"
| "kindOf (VInt i) = kindInt"
| "kindOf (VIntN w i) = kindInt"
| "kindOf (VInt64 i) = kindInt"
| "kindOf (VUint w i) = kindUint"
| "kindOf (VFloat32 f) = kindFloat"
| "kindOf (VFloat64 f) = kindFloat"
| "kindOf (VTime t) = kindTimestamp"
| "kindOf _ = kindString"

text \<open>One element of \<^verbatim>\<open>kinds\<close> and \<^verbatim>\<open>decided\<close>.\<close>

definition decide :: "parquetKind \<times> bool \<Rightarrow> val \<Rightarrow> parquetKind \<times> bool" where
  "decide kd v =
     (if v = VNil then kd
      else if \<not> snd kd then (kindOf v, True)
      else if fst kd \<noteq> kindOf v then (kindString, True)
      else kd)"

fun decide_row :: "val list \<Rightarrow> (parquetKind \<times> bool) list \<Rightarrow> (parquetKind \<times> bool) list" where
  "decide_row (v # vs) (kd # kds) = decide kd v # decide_row vs kds"
| "decide_row _ kds = kds"

definition infer_kinds :: "nat \<Rightarrow> val list list \<Rightarrow> parquetKind list" where
  "infer_kinds n sample = map fst (fold decide_row sample (replicate n (kindString, False)))"

fun nodeFor :: "parquetKind \<Rightarrow> pq_node" where
  "nodeFor kindInt = PqInt 64"
| "nodeFor kindUint = PqUint 64"
| "nodeFor kindFloat = PqDouble"
| "nodeFor kindBool = PqBoolean"
| "nodeFor kindTimestamp = PqTimestampMicro"
| "nodeFor kindString = PqString"

text \<open>The \<^verbatim>\<open>%T\<close> of a value.\<close>

fun type_name :: "formats \<Rightarrow> val \<Rightarrow> string" where
  "type_name fm VNil = ''<nil>''"
| "type_name fm (VString s) = ''string''"
| "type_name fm (VBytes s) = ''[]uint8''"
| "type_name fm (VInt64 i) = ''int64''"
| "type_name fm (VInt i) = ''int''"
| "type_name fm (VFloat64 f) = ''float64''"
| "type_name fm (VBool b) = ''bool''"
| "type_name fm (VTime t) = ''time.Time''"
| "type_name fm (VIntN w i) = ''int'' @ utoa w"
| "type_name fm (VUint w i) = ''uint'' @ (if w = 0 then [] else utoa w)"
| "type_name fm (VFloat32 f) = ''float32''"
| "type_name fm (VOther v) = fm_type fm v"

definition errUnconvertible :: "formats \<Rightarrow> val \<Rightarrow> string \<Rightarrow> go_error" where
  "errUnconvertible fm v kind =
     ErrorString (''value of type '' @ type_name fm v @ '' does not fit the inferred '' @ kind @ '' column'')"

fun toInt64 :: "val \<Rightarrow> int option" where
  "toInt64 (VInt i) = Some i"
| "toInt64 (VIntN w i) = Some i"
| "toInt64 (VInt64 i) = Some i"
| "toInt64 _ = None"

fun toUint64 :: "val \<Rightarrow> int option" where
  "toUint64 (VUint w i) = Some i"
| "toUint64 _ = None"

fun toFloat64 :: "formats \<Rightarrow> val \<Rightarrow> nat option" where
  "toFloat64 fm (VFloat32 f) = Some (fm_widen fm f)"
| "toFloat64 fm (VFloat64 f) = Some f"
| "toFloat64 fm _ = None"

text \<open>The nanoseconds from Go's zero time to the Unix epoch, and \<^verbatim>\<open>UnixMicro\<close>, which rounds down.\<close>

definition unix_epoch :: time where "unix_epoch = 62135596800 * 1000000000"

definition UnixMicro :: "time \<Rightarrow> int" where
  "UnixMicro t = wrap64 ((t - unix_epoch) div 1000)"

definition leaf_value :: "pq_data \<Rightarrow> nat \<Rightarrow> pq_value" where
  "leaf_value d index = \<lparr>pv_data = d, pv_level = (if d = DNull then 0 else 1), pv_index = index\<rparr>"

fun convert :: "formats \<Rightarrow> parquetKind \<Rightarrow> val \<Rightarrow> go_error + pq_data" where
  "convert fm kindInt v = (case toInt64 v of None \<Rightarrow> Inl (errUnconvertible fm v ''integer'') | Some n \<Rightarrow> Inr (DInt64 n))"
| "convert fm kindUint v =
     (case toUint64 v of None \<Rightarrow> Inl (errUnconvertible fm v ''unsigned integer'') | Some n \<Rightarrow> Inr (DInt64 (wrap64 n)))"
| "convert fm kindFloat v = (case toFloat64 fm v of None \<Rightarrow> Inl (errUnconvertible fm v ''float'') | Some f \<Rightarrow> Inr (DDouble f))"
| "convert fm kindBool v = (case v of VBool b \<Rightarrow> Inr (DBoolean b) | _ \<Rightarrow> Inl (errUnconvertible fm v ''boolean''))"
| "convert fm kindTimestamp v =
     (case v of VTime t \<Rightarrow> Inr (DInt64 (UnixMicro t)) | _ \<Rightarrow> Inl (errUnconvertible fm v ''timestamp''))"
| "convert fm kindString v = Inr (DByteArray (toString fm v))"

definition converterFor :: "formats \<Rightarrow> parquetKind \<Rightarrow> nat \<Rightarrow> val \<Rightarrow> go_error + pq_value" where
  "converterFor fm k index v =
     (if v = VNil then Inr (leaf_value DNull index)
      else case convert fm k v of Inl e \<Rightarrow> Inl e | Inr d \<Rightarrow> Inr (leaf_value d index))"

text \<open>A \<^verbatim>\<open>parquetColumn\<close>: its index and the kind that selects its conversion.\<close>

record parquetColumn =
  pc_index :: nat
  pc_kind :: parquetKind

definition schema_group :: "string list \<Rightarrow> parquetKind list \<Rightarrow> pq_group" where
  "schema_group names kinds = fold (\<lambda>(name, k). mput name (nodeFor k)) (zip names kinds) []"

definition positions :: "string list \<Rightarrow> (string, nat) gomap" where
  "positions order = fold (\<lambda>(idx, name). mput name idx) (enumerate 0 order) []"

definition position_of :: "string list \<Rightarrow> string \<Rightarrow> nat" where
  "position_of order name = (case mget (positions order) name of None \<Rightarrow> 0 | Some idx \<Rightarrow> idx)"

definition buildParquetSchema :: "parquet_lib \<Rightarrow> string list \<Rightarrow> val list list \<Rightarrow> go_error + pq_group \<times> parquetColumn list" where
  "buildParquetSchema lib names sample =
     (let kinds = infer_kinds (length names) sample;
          grp = schema_group names kinds;
          order = pq_fields lib grp in
      if length order \<noteq> length names
      then Inl (ErrorString (''parquet schema has '' @ itoa (int (length order)) @ '' fields for '' @
                  itoa (int (length names)) @ '' result columns''))
      else Inr (grp, map (\<lambda>(name, k). \<lparr>pc_index = position_of order name, pc_kind = k\<rparr>) (zip names kinds)))"

section \<open>Writing\<close>

definition parquetSchemaSample :: nat where "parquetSchemaSample = 128"
definition parquetRowsPerRowGroup :: int where "parquetRowsPerRowGroup = 50000"

fun write_chunks :: "'x enc_env \<Rightarrow> string list \<Rightarrow> 'x enc \<Rightarrow> go_error option \<times> 'x enc" where
  "write_chunks env [] st = (None, st)"
| "write_chunks env (p # ps) st =
     (case cw_Write env p st of (Some e, st) \<Rightarrow> (Some e, st) | (None, st) \<Rightarrow> write_chunks env ps st)"

definition pq_do :: "'x enc_env \<Rightarrow> parquet_lib \<Rightarrow> pq_group \<Rightarrow> pq_call \<Rightarrow> pq_log \<times> 'x enc \<Rightarrow> go_error option \<times> pq_log \<times> 'x enc" where
  "pq_do env lib grp c s =
     (let (log, st) = s; (e, st) = write_chunks env (pq_bytes lib grp log c) st in
      (pq_answer lib grp log c e, log @ [(c, e)], st))"

text \<open>The sampling loop. It stops at the sample size without asking for another row.\<close>

fun sample_rows_loop ::
  "'x enc_env \<Rightarrow> nat \<Rightarrow> row_event list \<Rightarrow> 'x enc \<Rightarrow> (go_error + val list list \<times> row_event list) \<times> 'x enc" where
  "sample_rows_loop env 0 evs st = (Inr ([], evs), st)"
| "sample_rows_loop env (Suc n) [] st = (Inr ([], []), st)"
| "sample_rows_loop env (Suc n) (ev # evs) st =
     (let (d, x) = ee_done env (en_x st); st = st\<lparr>en_x := x\<rparr> in
      case d of Some e \<Rightarrow> (Inl e, st)
      | None \<Rightarrow>
        (case ev of Inl e \<Rightarrow> (Inl (Wrapf ''failed to scan row'' e), st)
         | Inr row \<Rightarrow>
           (case sample_rows_loop env n evs st of
              (Inl e, st) \<Rightarrow> (Inl e, st)
            | (Inr (sample, rest), st) \<Rightarrow> (Inr (row # sample, rest), st))))"

text \<open>
  Filling the positional row. An index outside the row panics in Go: \<open>None\<close>.
\<close>

fun fill_row :: "formats \<Rightarrow> ((string \<times> parquetColumn) \<times> val) list \<Rightarrow> pq_value list \<Rightarrow> (go_error + pq_value list) option" where
  "fill_row fm [] row = Some (Inr row)"
| "fill_row fm (((name, col), v) # rest) row =
     (case converterFor fm (pc_kind col) (pc_index col) v of
        Inl e \<Rightarrow> Some (Inl (Wrapf (''column '' @ strconv_Quote name) e))
      | Inr pv \<Rightarrow> if pc_index col < length row then fill_row fm rest (row[pc_index col := pv]) else None)"

text \<open>The closure \<^verbatim>\<open>writeRow\<close> over the row buffer, the writer and \<^verbatim>\<open>rowCount\<close>.\<close>

definition writeRow ::
  "formats \<Rightarrow> 'x enc_env \<Rightarrow> parquet_lib \<Rightarrow> pq_group \<Rightarrow> (string \<times> parquetColumn) list \<Rightarrow> val list \<Rightarrow>
   pq_value list \<times> pq_log \<times> 'x enc \<Rightarrow> go_error option \<times> pq_value list \<times> pq_log \<times> 'x enc" where
  "writeRow fm env lib grp cols src s =
     (let (row, log, st) = s in
      case fill_row fm (zip cols src) row of
        None \<Rightarrow> (Some (ErrorString ''runtime error: index out of range''), row, log, st)
      | Some (Inl e) \<Rightarrow> (Some e, row, log, st)
      | Some (Inr row) \<Rightarrow>
        (case pq_do env lib grp (WriteRows row) (log, st) of
           (Some e, log, st) \<Rightarrow> (Some (Wrapf ''failed to write parquet row'' e), row, log, st)
         | (None, log, st) \<Rightarrow>
           (let rows = en_rows st + 1; st = st\<lparr>en_rows := rows\<rparr>;
                (e, log, st) = (if rows mod parquetRowsPerRowGroup = 0 then pq_do env lib grp Flush (log, st) else (None, log, st)) in
            case e of
              Some e \<Rightarrow> (Some (Wrapf ''failed to flush parquet row group'' e), row, log, st)
            | None \<Rightarrow> (None, row, log, report env rows st))))"

fun write_sampled ::
  "formats \<Rightarrow> 'x enc_env \<Rightarrow> parquet_lib \<Rightarrow> pq_group \<Rightarrow> (string \<times> parquetColumn) list \<Rightarrow> val list list \<Rightarrow>
   pq_value list \<times> pq_log \<times> 'x enc \<Rightarrow> go_error option \<times> pq_value list \<times> pq_log \<times> 'x enc" where
  "write_sampled fm env lib grp cols [] s = (None, s)"
| "write_sampled fm env lib grp cols (src # srcs) s =
     (case writeRow fm env lib grp cols src s of
        (Some e, s) \<Rightarrow> (Some e, s)
      | (None, s) \<Rightarrow> write_sampled fm env lib grp cols srcs s)"

fun write_streamed ::
  "formats \<Rightarrow> 'x enc_env \<Rightarrow> parquet_lib \<Rightarrow> pq_group \<Rightarrow> (string \<times> parquetColumn) list \<Rightarrow> row_event list \<Rightarrow>
   pq_value list \<times> pq_log \<times> 'x enc \<Rightarrow> go_error option \<times> pq_value list \<times> pq_log \<times> 'x enc" where
  "write_streamed fm env lib grp cols [] s = (None, s)"
| "write_streamed fm env lib grp cols (ev # evs) (row, log, st) =
     (let (d, x) = ee_done env (en_x st); st = st\<lparr>en_x := x\<rparr> in
      case d of Some e \<Rightarrow> (Some e, row, log, st)
      | None \<Rightarrow>
        (case ev of Inl e \<Rightarrow> (Some (Wrapf ''failed to scan row'' e), row, log, st)
         | Inr src \<Rightarrow>
           (case writeRow fm env lib grp cols src (row, log, st) of
              (Some e, s) \<Rightarrow> (Some e, s)
            | (None, s) \<Rightarrow> write_streamed fm env lib grp cols evs s)))"

text \<open>
  From \<^verbatim>\<open>NewGenericWriter\<close> to the return, with the calls made on the writer: all rows, then
  \<^verbatim>\<open>Close\<close>; after an error the deferred \<^verbatim>\<open>Close\<close>, whose own error is only logged.
\<close>

definition write_parquet ::
  "formats \<Rightarrow> 'x enc_env \<Rightarrow> parquet_lib \<Rightarrow> go_error option \<Rightarrow> pq_group \<Rightarrow> (string \<times> parquetColumn) list \<Rightarrow>
   val list list \<Rightarrow> row_event list \<Rightarrow> 'x enc \<Rightarrow> go_error option \<times> pq_log \<times> 'x enc" where
  "write_parquet fm env lib streamErr grp cols sample rest st =
     (let row = replicate (length cols) (leaf_value DNull 0);
          (e, s) = write_sampled fm env lib grp cols sample (row, [], st);
          (e, row, log, st) = (case e of Some e \<Rightarrow> (Some e, s) | None \<Rightarrow> write_streamed fm env lib grp cols rest s);
          e = (case e of Some e \<Rightarrow> Some e | None \<Rightarrow> map_option (Wrapf ''row stream error'') streamErr);
          (cerr, log, st) = pq_do env lib grp Close (log, st) in
      (case e of Some e \<Rightarrow> Some e | None \<Rightarrow> map_option (Wrapf ''failed to finalize parquet file'') cerr, log, st))"

definition encodeParquet ::
  "formats \<Rightarrow> 'x enc_env \<Rightarrow> parquet_lib \<Rightarrow> go_error option \<Rightarrow> string list \<Rightarrow> row_event list \<Rightarrow> 'x enc \<Rightarrow>
   go_error option \<times> 'x enc" where
  "encodeParquet fm env lib streamErr columns rows st =
     (let names = uniqueColumnNames columns in
      case sample_rows_loop env parquetSchemaSample rows st of
        (Inl e, st) \<Rightarrow> (Some e, st)
      | (Inr (sample, rest), st) \<Rightarrow>
        if length sample < parquetSchemaSample \<and> streamErr \<noteq> None
        then (map_option (Wrapf ''row stream error'') streamErr, st)
        else
          (case buildParquetSchema lib names sample of
             Inl e \<Rightarrow> (Some e, st)
           | Inr (grp, cols) \<Rightarrow>
             (let (e, log, st) = write_parquet fm env lib streamErr grp (zip names cols) sample rest st in (e, st))))"

section \<open>Column names are unique\<close>

lemma free_name_fresh: "free_name seen base n \<notin> set seen"
  by (induction seen base n rule: free_name.induct) (subst free_name.simps, simp)

lemma free_name_candidate: "\<exists>m. free_name seen base n = candidate base m"
proof (induction seen base n rule: free_name.induct)
  case (1 seen base n)
  show ?case
  proof (cases "candidate base n \<in> set seen")
    case True
    with 1 show ?thesis by (simp add: free_name.simps [of seen base n])
  next
    case False
    then show ?thesis by (auto simp: free_name.simps [of seen base n])
  qed
qed

lemma free_name_first: "base \<notin> set seen \<Longrightarrow> free_name seen base 0 = base"
  by (subst free_name.simps) (simp add: candidate_def)

lemma length_unique_names [simp]: "length (unique_names seen i cols) = length cols"
  by (induction seen i cols rule: unique_names.induct) (simp_all add: Let_def)

lemma distinct_unique_names:
  "distinct (unique_names seen i cols) \<and> set (unique_names seen i cols) \<inter> set seen = {}"
proof (induction seen i cols rule: unique_names.induct)
  case (2 seen i col cols)
  define name where "name = free_name seen (column_base i col) 0"
  have "distinct (unique_names (name # seen) (Suc i) cols)"
    "set (unique_names (name # seen) (Suc i) cols) \<inter> set (name # seen) = {}"
    using "2.IH" [OF name_def] by auto
  moreover have "name \<notin> set seen" by (simp add: name_def free_name_fresh)
  ultimately show ?case by (auto simp: Let_def name_def [symmetric])
qed simp

lemma nth_unique_names:
  "j < length cols \<Longrightarrow>
     unique_names seen i cols ! j = free_name (rev (take j (unique_names seen i cols)) @ seen) (column_base (i + j) (cols ! j)) 0"
proof (induction seen i cols arbitrary: j rule: unique_names.induct)
  case (2 seen i col cols)
  show ?case
  proof (cases j)
    case 0
    then show ?thesis by (simp add: Let_def)
  next
    case (Suc k)
    with "2.prems" "2.IH" [OF refl, of k] show ?thesis by (simp add: Let_def)
  qed
qed simp

text \<open>
  C36. Parquet column names. The names given to the columns of a result are pairwise different,
  one per column, whatever names the query selected - repeated, empty, or equal to a name that was
  generated before; a column keeps a nonempty name of its own unless an earlier column already has it, and
  otherwise gets its name with a numeric suffix. The search for a free suffix always ends.
\<close>

theorem column_names_unique:
  "distinct (uniqueColumnNames columns) \<and> length (uniqueColumnNames columns) = length columns \<and>
   (\<forall>i < length columns.
      (\<exists>n. uniqueColumnNames columns ! i = candidate (column_base i (columns ! i)) n) \<and>
      (columns ! i \<noteq> [] \<and> columns ! i \<notin> set (take i (uniqueColumnNames columns)) \<longrightarrow>
         uniqueColumnNames columns ! i = columns ! i))"
  using distinct_unique_names [of "[]" 0 columns]
  by (auto simp: uniqueColumnNames_def nth_unique_names [of _ columns "[]" 0] free_name_candidate free_name_first column_base_def)

theorem column_names_unique_witness:
  "uniqueColumnNames [''a'', ''a'', ''a_1'', []] = [''a'', ''a_1'', ''a_1_1'', ''column_3''] \<and>
   distinct (uniqueColumnNames [''a'', ''a'', ''a_1'', []]) \<and>
   uniqueColumnNames [''a'', ''a'', ''a_1'', []] ! 0 = ''a''"
proof -
  have "uniqueColumnNames [''a'', ''a'', ''a_1'', []] = [''a'', ''a_1'', ''a_1_1'', ''column_3'']" by code_simp
  with column_names_unique [of "[''a'', ''a'', ''a_1'', []]"] show ?thesis by auto
qed

section \<open>The positional row\<close>

lemma schema_group_fold:
  "length ks = length names \<Longrightarrow> mwf g \<Longrightarrow>
     mwf (fold (\<lambda>(name, k). mput name (nodeFor k)) (zip names ks) g) \<and>
     set (mkeys (fold (\<lambda>(name, k). mput name (nodeFor k)) (zip names ks) g)) = set names \<union> set (mkeys g)"
proof (induction names arbitrary: ks g)
  case (Cons a names)
  then show ?case by (cases ks) auto
qed simp

lemma schema_group_get:
  "length ks = length names \<Longrightarrow> distinct names \<Longrightarrow> i < length names \<Longrightarrow>
     mget (fold (\<lambda>(name, k). mput name (nodeFor k)) (zip names ks) g) (names ! i) = Some (nodeFor (ks ! i))"
proof (induction names arbitrary: ks g i)
  case (Cons a names)
  have skip: "a \<notin> set ns \<Longrightarrow> length js = length ns \<Longrightarrow>
      mget (fold (\<lambda>(name, k). mput name (nodeFor k)) (zip ns js) h) a = mget h a" for ns js h
  proof (induction ns arbitrary: js h)
    case (Cons b ns)
    then show ?case by (cases js) auto
  qed simp
  from Cons.prems obtain k js where ks: "ks = k # js" "length js = length names" by (cases ks) auto
  show ?case
  proof (cases i)
    case 0
    with Cons.prems ks skip show ?thesis by simp
  next
    case (Suc j)
    with Cons.prems ks Cons.IH [of js j] show ?thesis by simp
  qed
qed simp

lemma decide_row_length [simp]: "length (decide_row vs kds) = length kds"
  by (induction vs kds rule: decide_row.induct) simp_all

lemma infer_kinds_length [simp]: "length (infer_kinds n sample) = n"
proof -
  have "length (fold decide_row sample kds) = length kds" for kds
    by (induction sample arbitrary: kds) simp_all
  then show ?thesis by (simp add: infer_kinds_def)
qed

lemma positions_fold:
  "distinct order \<Longrightarrow> j < length order \<Longrightarrow>
     mget (fold (\<lambda>(idx, name). mput name idx) (enumerate k order) m) (order ! j) = Some (k + j)"
proof (induction order arbitrary: k m j)
  case (Cons a order)
  have skip: "a \<notin> set ns \<Longrightarrow> mget (fold (\<lambda>(idx, name). mput name idx) (enumerate i ns) h) a = mget h a" for ns i h
    by (induction ns arbitrary: i h) auto
  show ?case
  proof (cases j)
    case 0
    with Cons.prems skip show ?thesis by simp
  next
    case (Suc i)
    with Cons.prems Cons.IH [of i "Suc k"] show ?thesis by simp
  qed
qed simp

lemma position_of_nth: "distinct order \<Longrightarrow> j < length order \<Longrightarrow> position_of order (order ! j) = j"
  using positions_fold [of order j 0 "[]"] by (simp add: position_of_def positions_def)

lemma position_of_less: "distinct order \<Longrightarrow> name \<in> set order \<Longrightarrow>
    position_of order name < length order \<and> order ! position_of order name = name"
  by (auto simp: in_set_conv_nth position_of_nth)

text \<open>What the schema of unique names is: a field per column, and the columns' indexes are a numbering of the fields.\<close>

lemma buildParquetSchema_ok:
  fixes sample :: "val list list"
  assumes "fields_ok lib" and "distinct names"
  defines "kinds \<equiv> infer_kinds (length names) sample"
  defines "grp \<equiv> schema_group names kinds"
  shows "buildParquetSchema lib names sample =
      Inr (grp, map (\<lambda>(name, k). \<lparr>pc_index = position_of (pq_fields lib grp) name, pc_kind = k\<rparr>) (zip names kinds))"
    and "distinct (pq_fields lib grp)" and "set (pq_fields lib grp) = set names" and "length (pq_fields lib grp) = length names"
proof -
  have "mwf grp" "set (mkeys grp) = set names"
    using schema_group_fold [of kinds names "[]"] by (simp_all add: grp_def kinds_def schema_group_def)
  with assms(1) show f: "distinct (pq_fields lib grp)" "set (pq_fields lib grp) = set names" by (auto simp: fields_ok_def)
  with assms(2) show "length (pq_fields lib grp) = length names" by (metis distinct_card)
  then show "buildParquetSchema lib names sample =
      Inr (grp, map (\<lambda>(name, k). \<lparr>pc_index = position_of (pq_fields lib grp) name, pc_kind = k\<rparr>) (zip names kinds))"
    by (simp add: buildParquetSchema_def kinds_def grp_def Let_def)
qed

definition schema_columns :: "string list \<Rightarrow> string list \<Rightarrow> parquetKind list \<Rightarrow> parquetColumn list" where
  "schema_columns order names kinds =
     map (\<lambda>(name, k). \<lparr>pc_index = position_of order name, pc_kind = k\<rparr>) (zip names kinds)"

lemma fill_row_total:
  "\<forall>p \<in> set ps. pc_index (snd (fst p)) < length row \<Longrightarrow> fill_row fm ps row \<noteq> None"
  by (induction fm ps row rule: fill_row.induct) (auto split: sum.splits)

lemma fill_row_cells:
  assumes "fill_row fm ps row = Some (Inr row')" and "distinct (map (\<lambda>p. pc_index (snd (fst p))) ps)"
  shows "length row' = length row"
    and "p \<in> set ps \<Longrightarrow> converterFor fm (pc_kind (snd (fst p))) (pc_index (snd (fst p))) (snd p) = Inr (row' ! pc_index (snd (fst p)))"
    and "j \<notin> set (map (\<lambda>p. pc_index (snd (fst p))) ps) \<Longrightarrow> row' ! j = row ! j"
proof -
  have "length row' = length row \<and>
     (\<forall>p \<in> set ps. converterFor fm (pc_kind (snd (fst p))) (pc_index (snd (fst p))) (snd p) = Inr (row' ! pc_index (snd (fst p)))) \<and>
     (\<forall>j. j \<notin> set (map (\<lambda>p. pc_index (snd (fst p))) ps) \<longrightarrow> row' ! j = row ! j)"
    using assms
  proof (induction fm ps row rule: fill_row.induct)
    case (2 fm name col v rest row)
    then obtain pv where pv: "converterFor fm (pc_kind col) (pc_index col) v = Inr pv" "pc_index col < length row"
      "fill_row fm rest (row[pc_index col := pv]) = Some (Inr row')" by (auto split: sum.splits if_splits)
    from "2.IH" [OF pv] "2.prems"(2) pv show ?case by auto
  qed simp
  then show "length row' = length row"
    "p \<in> set ps \<Longrightarrow> converterFor fm (pc_kind (snd (fst p))) (pc_index (snd (fst p))) (snd p) = Inr (row' ! pc_index (snd (fst p)))"
    "j \<notin> set (map (\<lambda>p. pc_index (snd (fst p))) ps) \<Longrightarrow> row' ! j = row ! j" by auto
qed

lemma position_inj: "distinct order \<Longrightarrow> a \<in> set order \<Longrightarrow> b \<in> set order \<Longrightarrow> position_of order a = position_of order b \<longleftrightarrow> a = b"
  by (metis position_of_less)

lemma length_uniqueColumnNames [simp]: "length (uniqueColumnNames columns) = length columns"
  by (simp add: uniqueColumnNames_def)

lemma distinct_uniqueColumnNames [simp]: "distinct (uniqueColumnNames columns)"
  using distinct_unique_names [of "[]" 0 columns] by (simp add: uniqueColumnNames_def)

lemma length_schema_columns [simp]:
  "length kinds = length names \<Longrightarrow> length (schema_columns order names kinds) = length names"
  by (simp add: schema_columns_def)

lemma schema_columns_nth:
  "length kinds = length names \<Longrightarrow> i < length names \<Longrightarrow>
     schema_columns order names kinds ! i = \<lparr>pc_index = position_of order (names ! i), pc_kind = kinds ! i\<rparr>"
  by (simp add: schema_columns_def)

lemma schema_columns_index:
  assumes "distinct order" and "set order = set names" and "length order = length names" and "distinct names"
    and "length kinds = length names"
  shows "distinct (map pc_index (schema_columns order names kinds))"
    and "c \<in> set (schema_columns order names kinds) \<Longrightarrow> pc_index c < length names"
proof -
  have m: "map pc_index (schema_columns order names kinds) = map (position_of order) names"
    using assms(5) by (intro nth_equalityI) (auto simp: schema_columns_nth)
  moreover have "distinct (map (position_of order) names)"
    using assms(1,2,4) by (auto simp: distinct_map inj_on_def position_inj)
  ultimately show "distinct (map pc_index (schema_columns order names kinds))" by simp
  assume "c \<in> set (schema_columns order names kinds)"
  then have "pc_index c \<in> set (map pc_index (schema_columns order names kinds))" by simp
  then show "pc_index c < length names" using position_of_less [of order] assms(1,2,3) by (auto simp: m)
qed

lemma indexes_of_zip:
  "length cols = length names \<Longrightarrow>
     map (\<lambda>p. pc_index (snd (fst p))) (zip (zip names cols) src) = take (length src) (map pc_index cols)"
  by (intro nth_equalityI) auto

lemma in_zip_column: "p \<in> set (zip (zip names cols) src) \<Longrightarrow> snd (fst p) \<in> set cols"
  by (auto simp: set_zip)

text \<open>
  Writing a Parquet row cannot go out of range. For the column names the encoder generates and whatever
  sample of rows, building the schema succeeds, different columns have different indexes,
  every index is inside the row, and filling the row with any values does not panic.
\<close>

theorem parquet_row_in_range:
  assumes "fields_ok lib"
  shows "\<exists>grp cols. buildParquetSchema lib (uniqueColumnNames columns) sample = Inr (grp, cols) \<and>
    length cols = length columns \<and> distinct (map pc_index cols) \<and> (\<forall>c \<in> set cols. pc_index c < length cols) \<and>
    (\<forall>src row. length row = length cols \<longrightarrow> fill_row fm (zip (zip (uniqueColumnNames columns) cols) src) row \<noteq> None)"
proof -
  define names where "names = uniqueColumnNames columns"
  define kinds where "kinds = infer_kinds (length names) sample"
  define cols where "cols = schema_columns (pq_fields lib (schema_group names kinds)) names kinds"
  have d: "distinct names" "length kinds = length names" "length cols = length columns"
    by (simp_all add: names_def kinds_def cols_def)
  note b = buildParquetSchema_ok [OF assms d(1), of sample, folded kinds_def]
  note i = schema_columns_index [OF b(2,3,4) d(1,2), folded cols_def]
  have "fill_row fm (zip (zip names cols) src) row \<noteq> None" if "length row = length cols" for src row
    using i(2) in_zip_column that d(3) by (intro fill_row_total) (fastforce simp: names_def)
  with b(1) i d(3) show ?thesis by (auto simp: schema_columns_def cols_def names_def)
qed

text \<open>A library that orders the fields by name, writes a byte per value and passes errors on.\<close>

definition sample_lib :: parquet_lib where
  "sample_lib = \<lparr>pq_fields = (\<lambda>g. sort (mkeys g)),
     pq_bytes = (\<lambda>g log c. case c of WriteRows r \<Rightarrow> [replicate (length r) (CHR ''v'')] | Flush \<Rightarrow> [] | Close \<Rightarrow> [''PAR1'']),
     pq_answer = (\<lambda>g log c e. e)\<rparr>"

lemma sample_lib_ok: "fields_ok sample_lib"
  by (auto simp: fields_ok_def sample_lib_def mwf_def)

theorem parquet_row_in_range_witness:
  "fields_ok sample_lib \<and>
   (\<exists>grp cols. buildParquetSchema sample_lib (uniqueColumnNames [''b'', ''a'', ''b'']) [[VInt64 1, VNil, VBool True]] = Inr (grp, cols) \<and>
     distinct (map pc_index cols))"
  using parquet_row_in_range [OF sample_lib_ok, of "[''b'', ''a'', ''b'']" "[[VInt64 1, VNil, VBool True]]"] sample_lib_ok by blast

section \<open>Reading a Parquet file back\<close>

text \<open>How a reader takes a datum of a node's logical type.\<close>

fun read_datum :: "pq_node \<Rightarrow> pq_data \<Rightarrow> val" where
  "read_datum PqString (DByteArray s) = VString s"
| "read_datum (PqInt w) (DInt64 n) = VInt64 n"
| "read_datum (PqUint w) (DInt64 n) = VUint w (n mod 2 ^ w)"
| "read_datum PqDouble (DDouble f) = VFloat64 f"
| "read_datum PqBoolean (DBoolean b) = VBool b"
| "read_datum PqTimestampMicro (DInt64 n) = VTime (n * 1000 + unix_epoch)"
| "read_datum _ _ = VNil"

text \<open>A column addressed by name, as readers do.\<close>

definition read_column :: "parquet_lib \<Rightarrow> pq_group \<Rightarrow> pq_value list \<Rightarrow> string \<Rightarrow> val" where
  "read_column lib grp row name =
     (case mget grp name of
        None \<Rightarrow> VNil
      | Some node \<Rightarrow> read_datum node (pv_data (row ! position_of (pq_fields lib grp) name)))"

text \<open>
  \<open>u\<close>, read from a file, stands for the value \<open>v\<close> of the database: NULL only for NULL,
  numbers and booleans the same, a timestamp to the microsecond below, everything else as text.
\<close>

definition represents :: "formats \<Rightarrow> val \<Rightarrow> val \<Rightarrow> bool" where
  "represents fm v u =
     (case u of
        VNil \<Rightarrow> v = VNil
      | VInt64 n \<Rightarrow> toInt64 v = Some n
      | VUint w n \<Rightarrow> toUint64 v = Some n
      | VFloat64 f \<Rightarrow> toFloat64 fm v = Some f
      | VBool b \<Rightarrow> v = VBool b
      | VTime t' \<Rightarrow> (case v of VTime t \<Rightarrow> t' \<le> t \<and> t < t' + 1000 | _ \<Rightarrow> False)
      | VString s \<Rightarrow> v \<noteq> VNil \<and> s = toString fm v
      | _ \<Rightarrow> False)"

text \<open>The ranges of the Go types; for a time, that \<^verbatim>\<open>UnixMicro\<close> is defined.\<close>

definition val_ok :: "val \<Rightarrow> bool" where
  "val_ok v =
     (case v of
        VUint w n \<Rightarrow> 0 \<le> n \<and> n < 2 ^ 64
      | VTime t \<Rightarrow> in64 ((t - unix_epoch) div 1000)
      | _ \<Rightarrow> True)"

lemma wrap64_mod: "0 \<le> n \<Longrightarrow> n < 2 ^ 64 \<Longrightarrow> wrap64 n mod 2 ^ 64 = n"
proof -
  assume n: "0 \<le> n" "n < 2 ^ 64"
  have "wrap64 n mod 2 ^ 64 = (n + 2 ^ 63 - 2 ^ 63) mod 2 ^ 64" unfolding wrap64_def by (metis mod_diff_left_eq)
  with n show ?thesis by simp
qed

lemma micro_bounds: "in64 ((t - unix_epoch) div 1000) \<Longrightarrow>
    UnixMicro t * 1000 + unix_epoch \<le> t \<and> t < UnixMicro t * 1000 + unix_epoch + 1000"
  using pos_mod_sign [of 1000 "t - unix_epoch"] pos_mod_bound [of 1000 "t - unix_epoch"]
    div_mult_mod_eq [of "t - unix_epoch" 1000]
  unfolding UnixMicro_def by (simp only: wrap64_id) linarith

lemma convert_represents:
  "convert fm k v = Inr d \<Longrightarrow> val_ok v \<Longrightarrow> v \<noteq> VNil \<Longrightarrow> represents fm v (read_datum (nodeFor k) d)"
  by (cases k; cases v) (auto simp: represents_def val_ok_def wrap64_mod [simplified] dest: micro_bounds)

lemma converter_represents:
  assumes "val_ok v" and "converterFor fm k i v = Inr pv"
  shows "represents fm v (read_datum (nodeFor k) (pv_data pv))"
proof (cases "v = VNil")
  case True
  with assms show ?thesis by (cases k) (auto simp: converterFor_def leaf_value_def represents_def)
next
  case False
  with assms obtain d where "convert fm k v = Inr d" "pv_data pv = d"
    by (auto simp: converterFor_def leaf_value_def split: sum.splits)
  with assms(1) False show ?thesis using convert_represents by blast
qed

section \<open>Every row is written\<close>

text \<open>The rows among the calls on the writer, and how often it was closed.\<close>

fun written_rows :: "pq_log \<Rightarrow> pq_value list list" where
  "written_rows [] = []"
| "written_rows ((WriteRows r, e) # log) = r # written_rows log"
| "written_rows (_ # log) = written_rows log"

definition closes :: "pq_log \<Rightarrow> nat" where
  "closes log = length (filter (\<lambda>p. fst p = Close) log)"

lemma written_rows_append [simp]: "written_rows (l @ l') = written_rows l @ written_rows l'"
  by (induction l rule: written_rows.induct) auto

lemma closes_simps [simp]: "closes [] = 0" "closes (l @ l') = closes l + closes l'"
  "closes (p # l) = (if fst p = Close then 1 else 0) + closes l"
  by (simp_all add: closes_def)

lemma cw_Write_rows: "en_rows (snd (cw_Write env p st)) = en_rows st"
  by (simp add: cw_Write_def Let_def split: prod.splits)

lemma write_chunks_rows: "en_rows (snd (write_chunks env ps st)) = en_rows st"
proof (induction env ps st rule: write_chunks.induct)
  case (2 env p ps st)
  then show ?case using cw_Write_rows [of env p st] by (auto split: prod.splits option.splits)
qed simp

lemma pq_do_result:
  "pq_do env lib grp c (log, st) = (e, log', st') \<Longrightarrow> (\<exists>we. log' = log @ [(c, we)]) \<and> en_rows st' = en_rows st"
  using write_chunks_rows [of env "pq_bytes lib grp log c" st] by (auto simp: pq_do_def Let_def split: prod.splits)

lemma writeRow_ok:
  assumes "writeRow fm env lib grp cols src (row, log, st) = (None, row', log', st')"
  shows "fill_row fm (zip cols src) row = Some (Inr row')" and "written_rows log' = written_rows log @ [row']"
    and "closes log' = closes log" and "en_rows st' = en_rows st + 1"
proof -
  obtain r where r: "fill_row fm (zip cols src) row = Some (Inr r)"
    using assms by (auto simp: writeRow_def split: option.splits sum.splits)
  obtain e1 log1 st1 where w: "pq_do env lib grp (WriteRows r) (log, st) = (e1, log1, st1)" by (cases "pq_do env lib grp (WriteRows r) (log, st)")
  note p = pq_do_result [OF w]
  obtain e2 log2 st2 where f: "pq_do env lib grp Flush (log1, st1\<lparr>en_rows := en_rows st1 + 1\<rparr>) = (e2, log2, st2)"
    by (cases "pq_do env lib grp Flush (log1, st1\<lparr>en_rows := en_rows st1 + 1\<rparr>)")
  note q = pq_do_result [OF f]
  have "row' = r \<and> written_rows log' = written_rows log @ [r] \<and> closes log' = closes log \<and> en_rows st' = en_rows st + 1"
    using assms r w f p q by (auto simp: writeRow_def Let_def split: option.splits if_splits)
  with r show "fill_row fm (zip cols src) row = Some (Inr row')" "written_rows log' = written_rows log @ [row']"
    "closes log' = closes log" "en_rows st' = en_rows st + 1" by auto
qed

text \<open>\<open>r\<close> is the source row \<open>src\<close> put into a row buffer.\<close>

definition row_of :: "formats \<Rightarrow> (string \<times> parquetColumn) list \<Rightarrow> val list \<Rightarrow> pq_value list \<Rightarrow> bool" where
  "row_of fm cols src r \<longleftrightarrow> (\<exists>row. fill_row fm (zip cols src) row = Some (Inr r))"

lemma row_ofI: "fill_row fm (zip cols src) row = Some (Inr r) \<Longrightarrow> row_of fm cols src r"
  by (auto simp: row_of_def)

lemma write_sampled_ok:
  "write_sampled fm env lib grp cols srcs (row, log, st) = (None, row', log', st') \<Longrightarrow>
     \<exists>rs. written_rows log' = written_rows log @ rs \<and> list_all2 (row_of fm cols) srcs rs \<and>
       closes log' = closes log \<and> en_rows st' = en_rows st + int (length srcs)"
proof (induction srcs arbitrary: row log st)
  case (Cons src srcs)
  then obtain row1 log1 st1 where w: "writeRow fm env lib grp cols src (row, log, st) = (None, row1, log1, st1)"
    and r: "write_sampled fm env lib grp cols srcs (row1, log1, st1) = (None, row', log', st')"
    by (auto split: prod.splits option.splits)
  from Cons.IH [OF r] obtain rs where "written_rows log' = written_rows log1 @ rs" "list_all2 (row_of fm cols) srcs rs"
    "closes log' = closes log1" "en_rows st' = en_rows st1 + int (length srcs)" by blast
  with writeRow_ok [OF w] show ?case by (intro exI [of _ "row1 # rs"]) (auto intro: row_ofI)
qed simp

lemma write_streamed_ok:
  "write_streamed fm env lib grp cols evs (row, log, st) = (None, row', log', st') \<Longrightarrow>
     \<exists>srcs rs. evs = map Inr srcs \<and> written_rows log' = written_rows log @ rs \<and> list_all2 (row_of fm cols) srcs rs \<and>
       closes log' = closes log \<and> en_rows st' = en_rows st + int (length srcs)"
proof (induction evs arbitrary: row log st)
  case (Cons ev evs)
  obtain x where "ee_done env (en_x st) = (None, x)"
    using Cons.prems by (cases "ee_done env (en_x st)") (auto simp: Let_def split: option.splits)
  then obtain src row1 log1 st1 where w: "ev = Inr src" "writeRow fm env lib grp cols src (row, log, st\<lparr>en_x := x\<rparr>) = (None, row1, log1, st1)"
    and r: "write_streamed fm env lib grp cols evs (row1, log1, st1) = (None, row', log', st')"
    using Cons.prems by (auto simp: Let_def split: prod.splits option.splits sum.splits)
  from Cons.IH [OF r] obtain srcs rs where i: "evs = map Inr srcs" "written_rows log' = written_rows log1 @ rs"
    "list_all2 (row_of fm cols) srcs rs" "closes log' = closes log1" "en_rows st' = en_rows st1 + int (length srcs)" by blast
  with writeRow_ok [OF w(2)] w(1) show ?case
    by (intro exI [of _ "src # srcs"] exI [of _ "row1 # rs"]) (auto intro: row_ofI)
qed simp

lemma write_parquet_ok:
  assumes "write_parquet fm env lib streamErr grp cols sample rest st = (None, log, st')"
  shows "\<exists>srcs rs. rest = map Inr srcs \<and> streamErr = None \<and> written_rows log = rs \<and>
     list_all2 (row_of fm cols) (sample @ srcs) rs \<and> closes log = 1 \<and> fst (last log) = Close \<and>
     en_rows st' = en_rows st + int (length (sample @ srcs))"
proof -
  define row where "row = replicate (length cols) (leaf_value DNull 0)"
  obtain e1 row1 log1 st1 where s: "write_sampled fm env lib grp cols sample (row, [], st) = (e1, row1, log1, st1)"
    by (cases "write_sampled fm env lib grp cols sample (row, [], st)")
  obtain e2 row2 log2 st2 where t: "write_streamed fm env lib grp cols rest (row1, log1, st1) = (e2, row2, log2, st2)"
    by (cases "write_streamed fm env lib grp cols rest (row1, log1, st1)")
  obtain e3 log3 st3 where c: "pq_do env lib grp Close (log2, st2) = (e3, log3, st3)" by (cases "pq_do env lib grp Close (log2, st2)")
  have "e1 = None"
    using assms s by (cases e1) (auto simp: write_parquet_def Let_def row_def [symmetric] split: prod.splits)
  moreover from this have "e2 = None"
    using assms s t by (cases e2) (auto simp: write_parquet_def Let_def row_def [symmetric] split: prod.splits)
  ultimately have e: "e1 = None" "e2 = None" "streamErr = None" "log = log3" "st' = st3"
    using assms s t c by (auto simp: write_parquet_def Let_def row_def [symmetric] split: prod.splits option.splits)
  from write_sampled_ok [OF s [unfolded e]] obtain rs1 where 1: "written_rows log1 = rs1" "list_all2 (row_of fm cols) sample rs1"
    "closes log1 = 0" "en_rows st1 = en_rows st + int (length sample)" by auto
  from write_streamed_ok [OF t [unfolded e]] obtain srcs rs2 where 2: "rest = map Inr srcs" "written_rows log2 = written_rows log1 @ rs2"
    "list_all2 (row_of fm cols) srcs rs2" "closes log2 = closes log1" "en_rows st2 = en_rows st1 + int (length srcs)" by blast
  from pq_do_result [OF c] 1 2 e show ?thesis
    by (intro exI [of _ srcs] exI [of _ "rs1 @ rs2"]) (auto intro: list_all2_appendI)
qed

lemma sample_rows_loop_ok:
  "sample_rows_loop env n evs st = (Inr (sample, rest), st') \<Longrightarrow>
     evs = map Inr sample @ rest \<and> en_rows st' = en_rows st"
proof (induction env n evs st arbitrary: sample rest rule: sample_rows_loop.induct)
  case (3 env n ev evs st)
  obtain x where x: "ee_done env (en_x st) = (None, x)"
    using "3.prems" by (cases "ee_done env (en_x st)") (auto simp: Let_def split: option.splits)
  from x "3.prems" obtain row s' where r: "ev = Inr row" "sample = row # s'"
    "sample_rows_loop env n evs (st\<lparr>en_x := x\<rparr>) = (Inr (s', rest), st')"
    by (auto simp: Let_def split: prod.splits option.splits sum.splits)
  from "3.IH" [OF refl x [symmetric] refl refl r(1) r(3)] r show ?case by simp
qed auto

text \<open>A row read by column name, when its source row has a value per column.\<close>

lemma row_of_reads:
  assumes "fields_ok lib" and "distinct names" and "length src = length names" and "\<forall>v \<in> set src. val_ok v"
    and "buildParquetSchema lib names sample = Inr (grp, cols)" and "row_of fm (zip names cols) src r" and "i < length names"
  shows "represents fm (src ! i) (read_column lib grp r (names ! i))"
proof -
  define kinds where "kinds = infer_kinds (length names) sample"
  have k: "length kinds = length names" by (simp add: kinds_def)
  note b = buildParquetSchema_ok [OF assms(1,2), of sample, folded kinds_def]
  from b(1) assms(5) have g: "grp = schema_group names kinds" "cols = schema_columns (pq_fields lib grp) names kinds"
    by (auto simp: schema_columns_def)
  note x = schema_columns_index [OF b(2,3,4) assms(2) k, folded g(1), folded g(2)]
  have l: "length cols = length names" by (simp add: g(2) k)
  from assms(6) obtain row where f: "fill_row fm (zip (zip names cols) src) row = Some (Inr r)" by (auto simp: row_of_def)
  have d: "distinct (map (\<lambda>p. pc_index (snd (fst p))) (zip (zip names cols) src))"
    using x(1) l by (simp add: indexes_of_zip)
  have "((names ! i, cols ! i), src ! i) \<in> set (zip (zip names cols) src)"
    using assms(3,7) l by (auto simp: set_zip intro!: exI [of _ i])
  from fill_row_cells(2) [OF f d this]
  have "converterFor fm (kinds ! i) (position_of (pq_fields lib grp) (names ! i)) (src ! i)
      = Inr (r ! position_of (pq_fields lib grp) (names ! i))"
    using g(2) k assms(7) by (simp add: schema_columns_nth)
  moreover have "mget grp (names ! i) = Some (nodeFor (kinds ! i))"
    using schema_group_get [OF k assms(2,7), of "[]"] by (simp add: g(1) schema_group_def)
  moreover have "val_ok (src ! i)" using assms(3,4,7) by simp
  ultimately show ?thesis by (simp add: read_column_def converter_represents)
qed



section \<open>What the encoder leaves alone\<close>

text \<open>
  The encoder touches its surroundings only through the clock, the writer, the reports and the
  context: what these four keep, \<^verbatim>\<open>EncodeStream\<close> keeps, in each format and on every return.
\<close>

locale surroundings =
  fixes env :: "'x enc_env" and P :: "'x \<Rightarrow> bool"
  assumes keep_now: "ee_now env x = (t, x') \<Longrightarrow> P x \<Longrightarrow> P x'"
    and keep_write: "ee_write env p x = (r, x') \<Longrightarrow> P x \<Longrightarrow> P x'"
    and keep_progress: "P x \<Longrightarrow> P (ee_progress env m b x)"
    and keep_done: "ee_done env x = (d, x') \<Longrightarrow> P x \<Longrightarrow> P x'"
begin

abbreviation kept :: "'x enc \<Rightarrow> bool" where
  "kept st \<equiv> P (en_x st)"

lemma cw_Write_kept: "cw_Write env p st = (e, st') \<Longrightarrow> kept st \<Longrightarrow> kept st'"
  unfolding cw_Write_def Let_def by (auto split: prod.splits dest: keep_write)

lemma emit_kept: "kept st \<Longrightarrow> kept (emit env r st)"
  unfolding emit_def Let_def by (auto split: prod.splits dest: keep_now intro: keep_progress)

lemma report_kept: "kept st \<Longrightarrow> kept (report env r st)"
  unfolding report_def Let_def by (auto split: prod.splits dest: keep_now intro!: emit_kept)

lemma jsonl_row_kept: "jsonl_row fm env columns ev st = (e, st') \<Longrightarrow> kept st \<Longrightarrow> kept st'"
  unfolding jsonl_row_def Let_def
  by (auto split: prod.splits option.splits sum.splits dest!: keep_done cw_Write_kept intro!: report_kept)

lemma jsonl_loop_kept: "jsonl_loop fm env columns evs st = (e, st') \<Longrightarrow> kept st \<Longrightarrow> kept st'"
proof (induction evs arbitrary: st)
  case (Cons ev evs)
  then show ?case by (auto split: prod.splits option.splits dest: jsonl_row_kept)
qed simp

lemma bufio_Flush_kept: "bufio_Flush env (b, st) = (b', st') \<Longrightarrow> kept st \<Longrightarrow> kept st'"
  unfolding bufio_Flush_def Let_def by (auto split: prod.splits option.splits if_splits dest: keep_write)

lemma bufio_WriteByte_kept: "bufio_WriteByte env c (b, st) = (b', st') \<Longrightarrow> kept st \<Longrightarrow> kept st'"
  unfolding bufio_WriteByte_def Let_def by (auto split: prod.splits if_splits dest: bufio_Flush_kept)

lemma csv_Write_kept: "csv_Write env fs (b, st) = (e, b', st') \<Longrightarrow> kept st \<Longrightarrow> kept st'"
proof -
  have "fold (bufio_WriteByte env) cs (b, st) = (b', st') \<Longrightarrow> kept st \<Longrightarrow> kept st'" for cs
  proof (induction cs arbitrary: b st)
    case (Cons c cs)
    then show ?case by (cases "bufio_WriteByte env c (b, st)") (auto dest: bufio_WriteByte_kept)
  qed simp
  then show "csv_Write env fs (b, st) = (e, b', st') \<Longrightarrow> kept st \<Longrightarrow> kept st'" by (auto simp: csv_Write_def Let_def)
qed

lemma csv_row_kept: "csv_row fm env ev (b, st) = (e, b', st') \<Longrightarrow> kept st \<Longrightarrow> kept st'"
  unfolding csv_row_def Let_def
  by (auto split: prod.splits option.splits sum.splits dest!: keep_done csv_Write_kept intro!: report_kept)

lemma csv_loop_kept: "csv_loop fm env evs (b, st) = (e, b', st') \<Longrightarrow> kept st \<Longrightarrow> kept st'"
proof (induction evs arbitrary: b st)
  case (Cons ev evs)
  then show ?case by (auto split: prod.splits option.splits dest: csv_row_kept)
qed simp

lemma write_chunks_kept: "write_chunks env ps st = (e, st') \<Longrightarrow> kept st \<Longrightarrow> kept st'"
proof (induction ps arbitrary: st)
  case (Cons p ps)
  then show ?case by (auto split: prod.splits option.splits dest: cw_Write_kept)
qed simp

lemma pq_do_kept: "pq_do env lib grp c (log, st) = (e, log', st') \<Longrightarrow> kept st \<Longrightarrow> kept st'"
  unfolding pq_do_def Let_def by (auto split: prod.splits dest: write_chunks_kept)

lemma sample_rows_loop_kept: "sample_rows_loop env n evs st = (r, st') \<Longrightarrow> kept st \<Longrightarrow> kept st'"
proof (induction n arbitrary: evs st r)
  case (Suc n)
  then show ?case by (cases evs) (auto simp: Let_def split: prod.splits option.splits sum.splits dest: keep_done)
qed simp

lemma writeRow_kept: "writeRow fm env lib grp cols src (row, log, st) = (e, row', log', st') \<Longrightarrow> kept st \<Longrightarrow> kept st'"
  unfolding writeRow_def Let_def
  by (auto split: prod.splits option.splits sum.splits if_splits dest!: pq_do_kept intro!: report_kept)

lemma write_sampled_kept:
  "write_sampled fm env lib grp cols srcs (row, log, st) = (e, row', log', st') \<Longrightarrow> kept st \<Longrightarrow> kept st'"
proof (induction srcs arbitrary: row log st)
  case (Cons src srcs)
  then show ?case by (auto split: prod.splits option.splits dest: writeRow_kept)
qed simp

lemma write_streamed_kept:
  "write_streamed fm env lib grp cols evs (row, log, st) = (e, row', log', st') \<Longrightarrow> kept st \<Longrightarrow> kept st'"
proof (induction evs arbitrary: row log st)
  case (Cons ev evs)
  then show ?case
    by (auto simp: Let_def split: prod.splits option.splits sum.splits dest!: keep_done writeRow_kept)
qed simp

lemma write_parquet_kept:
  "write_parquet fm env lib streamErr grp cols sample rest st = (e, log, st') \<Longrightarrow> kept st \<Longrightarrow> kept st'"
  unfolding write_parquet_def Let_def
  by (auto split: prod.splits option.splits dest!: write_sampled_kept write_streamed_kept pq_do_kept)

lemma encodeParquet_kept: "encodeParquet fm env lib streamErr columns rows st = (e, st') \<Longrightarrow> kept st \<Longrightarrow> kept st'"
  unfolding encodeParquet_def Let_def
  by (auto split: prod.splits sum.splits if_splits dest!: sample_rows_loop_kept write_parquet_kept)

lemma enc_return_kept: "enc_return env r st = (r', x) \<Longrightarrow> kept st \<Longrightarrow> P x"
  unfolding enc_return_def by (auto intro: emit_kept)

lemma EncodeStream_kept:
  "EncodeStream fm env (encodeParquet fm env lib streamErr) columns rows streamErr format x = (r, x') \<Longrightarrow> P x \<Longrightarrow> P x'"
  unfolding EncodeStream_def Let_def
  by (auto split: prod.splits sum.splits option.splits if_splits
    dest!: keep_now csv_Write_kept csv_loop_kept bufio_Flush_kept jsonl_loop_kept encodeParquet_kept enc_return_kept)

end

end
