(* ===== verification/Manager.thy ===== *)
theory Manager
  imports Config Watchers Storage Authn Sqlguard
begin

text \<open>
  The query manager, \<^verbatim>\<open>internal/core/manager/manager.go\<close>, first part: its state, the connection
  pools and their reload, the derived GC durations, admission (registry, drain flag, slots) and
  the defaults of a submission. The driver registry of \<^verbatim>\<open>internal/db/registry.go\<close> is here as
  well, since only the pools use it.

  The state is split as the code splits it between its owners: \<open>QueryManager\<close> is what one
  process holds, and the metadata store is a separate state that all instances share. A pool of a
  driver is a value of the parameter type \<open>'p\<close>. \<open>qm_ctxErrs\<close> holds the \<^verbatim>\<open>Err()\<close> of the
  execution contexts that are done, by query ID, and \<open>qm_retired\<close> the pools handed to
  \<^verbatim>\<open>closePoolWhenIdle\<close>.
  \<open>qm_panicked\<close> records a panic of event delivery; it is shown never to be set.
\<close>

section \<open>Constants\<close>

definition gcInterval :: duration where "gcInterval = Minute"
definition gcLockName :: string where "gcLockName = ''gc''"
definition reapBudget :: duration where "reapBudget = 15 * Second"
definition terminalPersistAttempts :: nat where "terminalPersistAttempts = 5"
definition progressPersistInterval :: duration where "progressPersistInterval = 2 * Second"

section \<open>State\<close>

record 'p managedPool =
  mp_pool :: 'p
  mp_cfg :: DatabaseConfig

record 'p QueryManager =
  qm_cfgManager :: config_Manager
  qm_instanceID :: string
  qm_defaultStorage :: string
  qm_dbPools :: "(string, 'p managedPool) gomap"
  qm_gcPeriodDur :: duration
  qm_activeReg :: "(string, string) gomap"
  qm_draining :: bool
  qm_slots :: "nat option"
  qm_used :: nat
  qm_hub :: hub
  qm_ctxErrs :: "(string, go_error) gomap"
  qm_retired :: "(string \<times> 'p) list"
  qm_ctxDone :: bool
  qm_panicked :: bool

definition qm_cfg :: "'p QueryManager \<Rightarrow> Config" where
  "qm_cfg qm = (case config_Get (qm_cfgManager qm) of Some c \<Rightarrow> c | None \<Rightarrow> zero_config)"

definition heartbeatTTL :: "'p QueryManager \<Rightarrow> duration" where
  "heartbeatTTL qm = in_HeartbeatTTL (cf_Instance (qm_cfg qm))"

definition gcPeriod :: "'p QueryManager \<Rightarrow> duration" where
  "gcPeriod qm = (if qm_gcPeriodDur qm > 0 then qm_gcPeriodDur qm else gcInterval)"

definition gcBudget :: "'p QueryManager \<Rightarrow> duration" where
  "gcBudget qm = quot64 (wrap64 (gcPeriod qm * 3)) 4"

definition gcLockTTL :: "'p QueryManager \<Rightarrow> duration" where
  "gcLockTTL qm = quot64 (wrap64 (gcPeriod qm * 5)) 6"

section \<open>Drivers and pools\<close>

type_synonym 'p drivers = "(string, string \<Rightarrow> int \<Rightarrow> go_error + 'p) gomap"

definition db_Register :: "string \<Rightarrow> (string \<Rightarrow> int \<Rightarrow> go_error + 'p) \<Rightarrow> 'p drivers \<Rightarrow> 'p drivers option" where
  "db_Register engine drv drivers =
     (case mget drivers engine of Some _ \<Rightarrow> None | None \<Rightarrow> Some (mput engine drv drivers))"

definition OpenPool :: "'p drivers \<Rightarrow> string \<Rightarrow> string \<Rightarrow> int \<Rightarrow> go_error + 'p" where
  "OpenPool drivers engine dsn maxConns =
     (case mget drivers engine of
        None \<Rightarrow> Inl (ErrorString (''db: unknown database engine '' @ strconv_Quote engine))
      | Some drv \<Rightarrow> drv dsn maxConns)"

definition samePoolConfig :: "DatabaseConfig \<Rightarrow> DatabaseConfig \<Rightarrow> bool" where
  "samePoolConfig a b \<longleftrightarrow> db_Engine a = db_Engine b \<and> db_DSN a = db_DSN b \<and> db_MaxConns a = db_MaxConns b"

text \<open>The variables of the loop of \<^verbatim>\<open>syncPools\<close>.\<close>

record 'p sync_state =
  sy_current :: "(string, 'p managedPool) gomap"
  sy_next :: "(string, 'p managedPool) gomap"
  sy_stale :: "(string \<times> 'p) list"
  sy_errs :: "go_error list"

definition sync_one :: "'p drivers \<Rightarrow> DatabaseConfig \<Rightarrow> 'p sync_state \<Rightarrow> 'p sync_state" where
  "sync_one drivers dbCfg st =
     (let existing = mget (sy_current st) (db_ID dbCfg);
          st = (if existing \<noteq> None then st\<lparr>sy_current := mdel (db_ID dbCfg) (sy_current st)\<rparr> else st) in
      if (case existing of Some mp \<Rightarrow> samePoolConfig (mp_cfg mp) dbCfg | None \<Rightarrow> False)
      then st\<lparr>sy_next := mput (db_ID dbCfg) (the existing) (sy_next st)\<rparr>
      else
        case OpenPool drivers (db_Engine dbCfg) (db_DSN dbCfg) (db_MaxConns dbCfg) of
          Inl err \<Rightarrow>
            let st = st\<lparr>sy_errs := sy_errs st @ [Wrapf (''database '' @ db_ID dbCfg) err]\<rparr> in
            (case existing of
               Some mp \<Rightarrow> st\<lparr>sy_next := mput (db_ID dbCfg) mp (sy_next st)\<rparr>
             | None \<Rightarrow> st)
        | Inr pool \<Rightarrow>
            let st = st\<lparr>sy_next := mput (db_ID dbCfg) \<lparr>mp_pool = pool, mp_cfg = dbCfg\<rparr> (sy_next st)\<rparr> in
            (case existing of
               Some mp \<Rightarrow> st\<lparr>sy_stale := sy_stale st @ [(db_ID dbCfg, mp_pool mp)]\<rparr>
             | None \<Rightarrow> st))"

text \<open>\<^verbatim>\<open>errors.Join\<close>: nil without errors, otherwise their texts on lines of their own.\<close>

definition errors_Join :: "go_error list \<Rightarrow> go_error option" where
  "errors_Join errs = (if errs = [] then None else Some (ErrorString (strings_Join (map error_text errs) [CHR 0x0A])))"

definition syncPools :: "'p drivers \<Rightarrow> 'p QueryManager \<Rightarrow> go_error option \<times> 'p QueryManager" where
  "syncPools drivers qm =
     (let st = fold (sync_one drivers) (cf_Databases (qm_cfg qm))
                 \<lparr>sy_current = qm_dbPools qm, sy_next = [], sy_stale = [], sy_errs = []\<rparr>;
          stale = sy_stale st @ map (\<lambda>(i, mp). (i, mp_pool mp)) (sy_current st) in
      (errors_Join (sy_errs st), qm\<lparr>qm_dbPools := sy_next st, qm_retired := qm_retired qm @ stale\<rparr>))"

definition activeForDB :: "string \<Rightarrow> 'p QueryManager \<Rightarrow> nat" where
  "activeForDB dbID qm = length (filter (\<lambda>(i, d). d = dbID) (qm_activeReg qm))"

definition dbIDs :: "DatabaseConfig list \<Rightarrow> string list" where
  "dbIDs dbs = map db_ID dbs"

text \<open>
  \<^verbatim>\<open>QueryManager.Reload\<close>. The attempt \<open>a\<close> is what the file, the parser and the environment
  return. \<^verbatim>\<open>strings.Split(err.Error(), "\n")\<close> gives the failure lines.
\<close>

definition qm_Reload :: "'p drivers \<Rightarrow> attempt \<Rightarrow> 'p QueryManager \<Rightarrow> (ReloadReport \<times> go_error option) \<times> 'p QueryManager" where
  "qm_Reload drivers a qm =
     (let oldCfg = config_Get (qm_cfgManager qm) in
      case do_attempt a (qm_cfgManager qm) of
        (Some e, cm) \<Rightarrow>
          ((\<lparr>rr_Added = [], rr_Removed = [], rr_Updated = [], rr_Ignored = [], rr_Failures = []\<rparr>, Some e),
           qm\<lparr>qm_cfgManager := cm\<rparr>)
      | (None, cm) \<Rightarrow>
          let newCfg = config_Get cm;
              diff = DiffDatabases oldCfg newCfg;
              rep = \<lparr>rr_Added = dbIDs (dd_Added diff), rr_Removed = dbIDs (dd_Removed diff),
                        rr_Updated = dbIDs (dd_Updated diff), rr_Ignored = NonReloadableChanges oldCfg newCfg,
                        rr_Failures = []\<rparr> in
          (case syncPools drivers (qm\<lparr>qm_cfgManager := cm\<rparr>) of
             (Some e, qm') \<Rightarrow> ((rep\<lparr>rr_Failures := split_char (CHR 0x0A) (error_text e)\<rparr>, Some e), qm')
           | (None, qm') \<Rightarrow> ((rep, None), qm')))"

definition lookupPool :: "string \<Rightarrow> 'p QueryManager \<Rightarrow> 'p option" where
  "lookupPool dbID qm = map_option mp_pool (mget (qm_dbPools qm) dbID)"

definition getEngine :: "string \<Rightarrow> 'p QueryManager \<Rightarrow> string" where
  "getEngine dbID qm =
     (case find (\<lambda>db. db_ID db = dbID) (cf_Databases (qm_cfg qm)) of Some db \<Rightarrow> db_Engine db | None \<Rightarrow> ''unknown'')"

section \<open>Defaults and keys of a submission\<close>

definition applyDefaults :: "'p QueryManager \<Rightarrow> QueryOptions \<Rightarrow> QueryOptions" where
  "applyDefaults qm opts =
     opts\<lparr>opt_Mode := orelse [] (opt_Mode opts) ''async'',
          opt_ResultTTL := orelse 0 (opt_ResultTTL opts) (df_ResultTTL (cf_Defaults (qm_cfg qm))),
          opt_Timeout := orelse 0 (opt_Timeout opts) (df_QueryTimeout (cf_Defaults (qm_cfg qm))),
          opt_ResultFormat := orelse [] (opt_ResultFormat opts) ''jsonl'',
          opt_StorageBackend := orelse [] (opt_StorageBackend opts) (qm_defaultStorage qm)\<rparr>"

definition idempotencySubmitTTL :: "QueryOptions \<Rightarrow> duration" where
  "idempotencySubmitTTL opts = wrap64 (opt_ResultTTL opts + 24 * Hour)"

definition scopedIdempotencyKey :: "string \<Rightarrow> string \<Rightarrow> string" where
  "scopedIdempotencyKey subject key = subject @ [CHR 0x00] @ key"

section \<open>Admission\<close>

definition admit :: "string \<Rightarrow> string \<Rightarrow> 'p QueryManager \<Rightarrow> go_error option \<times> 'p QueryManager" where
  "admit queryID dbID qm =
     (if qm_draining qm then (Some DrainingError, qm)
      else (None, qm\<lparr>qm_activeReg := mput queryID dbID (qm_activeReg qm)\<rparr>))"

definition deregister :: "string \<Rightarrow> 'p QueryManager \<Rightarrow> 'p QueryManager" where
  "deregister queryID qm = qm\<lparr>qm_activeReg := mdel queryID (qm_activeReg qm)\<rparr>"

definition acquireSlot :: "'p QueryManager \<Rightarrow> bool \<times> 'p QueryManager" where
  "acquireSlot qm =
     (case qm_slots qm of
        None \<Rightarrow> (True, qm)
      | Some n \<Rightarrow> if qm_used qm < n then (True, qm\<lparr>qm_used := Suc (qm_used qm)\<rparr>) else (False, qm))"

definition releaseSlot :: "'p QueryManager \<Rightarrow> 'p QueryManager" where
  "releaseSlot qm =
     (case qm_slots qm of
        None \<Rightarrow> qm
      | Some n \<Rightarrow> if 0 < qm_used qm then qm\<lparr>qm_used := qm_used qm - 1\<rparr> else qm)"

definition Drain :: "'p QueryManager \<Rightarrow> 'p QueryManager" where
  "Drain qm = qm\<lparr>qm_draining := True\<rparr>"

text \<open>
  Execution contexts: \<^verbatim>\<open>cancel\<close> and the timer of \<^verbatim>\<open>context.WithTimeout\<close>. A context that is done
  keeps its first error.
\<close>

definition end_context :: "go_error \<Rightarrow> string \<Rightarrow> 'p QueryManager \<Rightarrow> 'p QueryManager" where
  "end_context e queryID qm =
     (case mget (qm_ctxErrs qm) queryID of
        Some _ \<Rightarrow> qm
      | None \<Rightarrow> qm\<lparr>qm_ctxErrs := mput queryID e (qm_ctxErrs qm)\<rparr>)"

definition cancelExec :: "string \<Rightarrow> 'p QueryManager \<Rightarrow> 'p QueryManager" where
  "cancelExec queryID qm = end_context Canceled queryID qm"

definition expireExec :: "string \<Rightarrow> 'p QueryManager \<Rightarrow> 'p QueryManager" where
  "expireExec queryID qm = end_context DeadlineExceeded queryID qm"

definition qm_notify :: "nat \<Rightarrow> QueryEvent \<Rightarrow> 'p QueryManager \<Rightarrow> 'p QueryManager" where
  "qm_notify drained ev qm =
     (case notifyWatchers drained ev (qm_hub qm) of
        None \<Rightarrow> qm\<lparr>qm_panicked := True\<rparr>
      | Some h \<Rightarrow> qm\<lparr>qm_hub := h\<rparr>)"

section \<open>Properties of the durations and keys\<close>

lemma gcPeriod_pos: "0 < gcPeriod qm"
  by (simp add: gcPeriod_def gcInterval_def dur_defs)

text \<open>
  C34. GC exclusivity fits inside the period. For every GC interval validation accepts, the
  period is positive, neither product overflows, the budget of a pass is at most the time the
  cluster lock is held, and the lock expires before the next tick; from 12 ns on the budget is
  positive and strictly below the lock time. At the default of a minute they are 45 s and 50 s.
\<close>

theorem gc_durations:
  assumes "qm_gcPeriodDur qm \<le> max_gc_interval"
  shows "0 < gcPeriod qm \<and> gcBudget qm = gcPeriod qm * 3 div 4 \<and> gcLockTTL qm = gcPeriod qm * 5 div 6
    \<and> 0 \<le> gcBudget qm \<and> gcBudget qm \<le> gcLockTTL qm \<and> gcLockTTL qm < gcPeriod qm
    \<and> (12 \<le> gcPeriod qm \<longrightarrow> 0 < gcBudget qm \<and> gcBudget qm < gcLockTTL qm)
    \<and> (gcPeriod qm = Minute \<longrightarrow> gcBudget qm = 45 * Second \<and> gcLockTTL qm = 50 * Second)"
proof -
  have p: "0 < gcPeriod qm" by (rule gcPeriod_pos)
  have le: "gcPeriod qm \<le> 1829088000000000000"
    using assms by (auto simp: gcPeriod_def gcInterval_def max_gc_interval_def dur_defs)
  have w: "wrap64 (gcPeriod qm * 3) = gcPeriod qm * 3" "wrap64 (gcPeriod qm * 5) = gcPeriod qm * 5"
    using p le by (auto intro!: wrap64_id simp: in64_def)
  have b: "gcBudget qm = gcPeriod qm * 3 div 4" and l: "gcLockTTL qm = gcPeriod qm * 5 div 6"
    using p by (simp_all add: gcBudget_def gcLockTTL_def w quot64_nonneg)
  show ?thesis using p unfolding b l by (auto simp: dur_defs)
qed

definition sample_qm :: "nat QueryManager" where
  "sample_qm = \<lparr>qm_cfgManager = \<lparr>cm_configPath = ''c'', cm_ptr = Some (with_defaults sample_config)\<rparr>,
     qm_instanceID = ''n1'', qm_defaultStorage = ''fs'', qm_dbPools = [], qm_gcPeriodDur = 30 * Minute,
     qm_activeReg = [], qm_draining = False, qm_slots = Some 2, qm_used = 0, qm_hub = new_hub,
     qm_ctxErrs = [], qm_retired = [], qm_ctxDone = False, qm_panicked = False\<rparr>"

theorem gc_durations_witness:
  "gcBudget sample_qm = 1350 * Second \<and> gcLockTTL sample_qm = 1500 * Second"
proof -
  have le: "qm_gcPeriodDur sample_qm \<le> max_gc_interval" by (simp add: sample_qm_def max_gc_interval_def dur_defs)
  have p: "gcPeriod sample_qm = 30 * Minute" by (simp add: gcPeriod_def sample_qm_def dur_defs)
  show ?thesis using gc_durations [OF le] by (simp add: p dur_defs)
qed

text \<open>The bound of the validation is needed: at 60 years the lock time is negative.\<close>

lemma gc_lock_overflow:
  "gcLockTTL (sample_qm\<lparr>qm_gcPeriodDur := 60 * 365 * 24 * Hour\<rparr>) < 0"
  by (simp add: gcLockTTL_def gcPeriod_def quot64_def wrap64_def dur_defs)

text \<open>
  Idempotency keys do not collide across databases, subjects and client keys: when database
  IDs hold no colon and subjects no NUL byte, the stored key determines all three.
\<close>

theorem idempotency_keys_distinct:
  assumes "CHR '':'' \<notin> set db" and "CHR '':'' \<notin> set db'"
    and "CHR 0x00 \<notin> set subj" and "CHR 0x00 \<notin> set subj'"
  shows "fullKey db (scopedIdempotencyKey subj key) = fullKey db' (scopedIdempotencyKey subj' key')
    \<longleftrightarrow> db = db' \<and> subj = subj' \<and> key = key'"
proof
  have split: "c \<notin> set a \<Longrightarrow> c \<notin> set b \<Longrightarrow> a @ c # x = b @ c # y \<Longrightarrow> a = b \<and> x = y"
    for c :: char and a b x y
    by (induction a arbitrary: b) (auto simp: Cons_eq_append_conv append_eq_Cons_conv)
  assume "fullKey db (scopedIdempotencyKey subj key) = fullKey db' (scopedIdempotencyKey subj' key')"
  then have "db @ CHR '':'' # (subj @ CHR 0x00 # key) = db' @ CHR '':'' # (subj' @ CHR 0x00 # key')"
    by (simp add: fullKey_def scopedIdempotencyKey_def)
  from split [OF assms(1,2) this] split [OF assms(3,4)] show "db = db' \<and> subj = subj' \<and> key = key'" by blast
qed simp

theorem idempotency_keys_distinct_witness:
  "fullKey ''main'' (scopedIdempotencyKey ''alice'' ''k'') \<noteq> fullKey ''main'' (scopedIdempotencyKey ''bob'' ''k'')"
  using idempotency_keys_distinct [of "''main''" "''main''" "''alice''" "''bob''" "''k''" "''k''"] by simp

text \<open>
  Validation does not exclude a colon in a database ID. Then two subjects on two databases can
  share one stored key.
\<close>

lemma idempotency_keys_collide:
  "fullKey ''a'' (scopedIdempotencyKey ''b:c'' ''k'') = fullKey ''a:b'' (scopedIdempotencyKey ''c'' ''k'')"
  by (simp add: fullKey_def scopedIdempotencyKey_def)

text \<open>The submit time to live wraps for a result TTL near the end of the range, which validation accepts.\<close>

lemma submit_ttl_wraps: "idempotencySubmitTTL (sample_options\<lparr>opt_ResultTTL := 2 ^ 63 - 1\<rparr>) < 0"
  by (simp add: idempotencySubmitTTL_def wrap64_def dur_defs)

lemma submit_ttl:
  "0 \<le> opt_ResultTTL opts \<Longrightarrow> opt_ResultTTL opts < 2 ^ 63 - 24 * Hour \<Longrightarrow>
     idempotencySubmitTTL opts = opt_ResultTTL opts + 24 * Hour"
  unfolding idempotencySubmitTTL_def by (rule wrap64_id) (simp add: in64_def dur_defs)

section \<open>Properties of the pools\<close>

text \<open>What \<^verbatim>\<open>syncPools\<close> is to do with one database, given the pool it has.\<close>

definition want_pool :: "'p drivers \<Rightarrow> DatabaseConfig \<Rightarrow> 'p managedPool option \<Rightarrow> 'p managedPool option" where
  "want_pool drivers db old =
     (case old of
        Some mp \<Rightarrow> if samePoolConfig (mp_cfg mp) db then Some mp
                   else (case OpenPool drivers (db_Engine db) (db_DSN db) (db_MaxConns db) of
                           Inl _ \<Rightarrow> Some mp | Inr p \<Rightarrow> Some \<lparr>mp_pool = p, mp_cfg = db\<rparr>)
      | None \<Rightarrow> (case OpenPool drivers (db_Engine db) (db_DSN db) (db_MaxConns db) of
                   Inl _ \<Rightarrow> None | Inr p \<Rightarrow> Some \<lparr>mp_pool = p, mp_cfg = db\<rparr>))"

definition superseded :: "'p drivers \<Rightarrow> DatabaseConfig \<Rightarrow> 'p managedPool \<Rightarrow> bool" where
  "superseded drivers db mp \<longleftrightarrow>
     \<not> samePoolConfig (mp_cfg mp) db \<and> is_ok (OpenPool drivers (db_Engine db) (db_DSN db) (db_MaxConns db))"

definition replaced_pool :: "'p drivers \<Rightarrow> DatabaseConfig \<Rightarrow> 'p managedPool option \<Rightarrow> (string \<times> 'p) list" where
  "replaced_pool drivers db old =
     (case old of Some mp \<Rightarrow> if superseded drivers db mp then [(db_ID db, mp_pool mp)] else [] | None \<Rightarrow> [])"

lemma mem_replaced_pool:
  "(i, p) \<in> set (replaced_pool drivers db old) \<longleftrightarrow>
     (\<exists>mp. old = Some mp \<and> superseded drivers db mp \<and> i = db_ID db \<and> p = mp_pool mp)"
  by (auto simp: replaced_pool_def split: option.splits)

definition failed_open :: "'p drivers \<Rightarrow> DatabaseConfig \<Rightarrow> 'p managedPool option \<Rightarrow> bool" where
  "failed_open drivers db old \<longleftrightarrow>
     (case old of Some mp \<Rightarrow> \<not> samePoolConfig (mp_cfg mp) db | None \<Rightarrow> True)
     \<and> \<not> is_ok (OpenPool drivers (db_Engine db) (db_DSN db) (db_MaxConns db))"

lemma sync_one_effect:
  fixes st :: "'p sync_state"
  defines "old \<equiv> \<lambda>db. mget (sy_current st) (db_ID db)"
  shows "sy_current (sync_one drivers db st) = mdel (db_ID db) (sy_current st)"
    and "mget (sy_next st) (db_ID db) = None \<Longrightarrow> mget (sy_next (sync_one drivers db st)) i =
       (if i = db_ID db then want_pool drivers db (old db) else mget (sy_next st) i)"
    and "sy_stale (sync_one drivers db st) = sy_stale st @ replaced_pool drivers db (old db)"
    and "sy_errs (sync_one drivers db st) = [] \<longleftrightarrow> sy_errs st = [] \<and> \<not> failed_open drivers db (old db)"
  unfolding old_def
  by (auto simp: sync_one_def want_pool_def replaced_pool_def superseded_def failed_open_def Let_def mdel_id
      split: option.splits sum.splits)

lemma sync_fold_current:
  "sy_current (fold (sync_one drivers) dbs st) = fold (\<lambda>db m. mdel (db_ID db) m) dbs (sy_current st)"
  by (induction dbs arbitrary: st) (simp_all add: sync_one_effect(1))

lemma fold_mdel:
  "mget (fold (\<lambda>db m. mdel (db_ID db) m) dbs m) i = (if i \<in> db_ID ` set dbs then None else mget m i)"
  "mwf m \<Longrightarrow> mwf (fold (\<lambda>db m. mdel (db_ID db) m) dbs m)"
  by (induction dbs arbitrary: m) auto

lemma sync_others:
  assumes "distinct (map db_ID (db # dbs))" and "d \<in> set dbs"
  shows "db_ID d \<noteq> db_ID db" and "mget (sy_current (sync_one drivers db st)) (db_ID d) = mget (sy_current st) (db_ID d)"
proof -
  have "db_ID db \<notin> db_ID ` set dbs" using assms(1) by simp
  with assms(2) show "db_ID d \<noteq> db_ID db" by (metis imageI)
  then show "mget (sy_current (sync_one drivers db st)) (db_ID d) = mget (sy_current st) (db_ID d)"
    by (simp add: sync_one_effect(1))
qed

lemma sync_fold_next:
  assumes "distinct (map db_ID dbs)" and "\<forall>db \<in> set dbs. mget (sy_next st) (db_ID db) = None"
  shows "(\<forall>db \<in> set dbs. mget (sy_next (fold (sync_one drivers) dbs st)) (db_ID db)
            = want_pool drivers db (mget (sy_current st) (db_ID db)))
    \<and> (\<forall>i. i \<notin> db_ID ` set dbs \<longrightarrow> mget (sy_next (fold (sync_one drivers) dbs st)) i = mget (sy_next st) i)"
  using assms
proof (induction dbs arbitrary: st)
  case (Cons db dbs)
  let ?st = "sync_one drivers db st"
  have free: "mget (sy_next st) (db_ID db) = None" using Cons.prems(2) by simp
  note nx = sync_one_effect(2) [where drivers = drivers, OF free]
  note o = sync_others [OF Cons.prems(1)]
  have "\<forall>d \<in> set dbs. mget (sy_next ?st) (db_ID d) = None" using Cons.prems(2) o(1) by (simp add: nx)
  from Cons.IH [OF _ this] Cons.prems(1) nx o show ?case by (auto simp: o(2))
qed simp

lemma sync_fold_stale:
  "distinct (map db_ID dbs) \<Longrightarrow> sy_stale (fold (sync_one drivers) dbs st) =
     sy_stale st @ concat (map (\<lambda>db. replaced_pool drivers db (mget (sy_current st) (db_ID db))) dbs)"
proof (induction dbs arbitrary: st)
  case (Cons db dbs)
  have "map (\<lambda>d. replaced_pool drivers d (mget (sy_current (sync_one drivers db st)) (db_ID d))) dbs
      = map (\<lambda>d. replaced_pool drivers d (mget (sy_current st) (db_ID d))) dbs"
    by (intro map_cong refl arg_cong [where f = "replaced_pool drivers _"] sync_others(2) [OF Cons.prems])
  with Cons.IH [of "sync_one drivers db st"] Cons.prems show ?case by (simp add: sync_one_effect(3))
qed simp

lemma sync_fold_errs:
  "distinct (map db_ID dbs) \<Longrightarrow> sy_errs (fold (sync_one drivers) dbs st) = [] \<longleftrightarrow>
     sy_errs st = [] \<and> (\<forall>db \<in> set dbs. \<not> failed_open drivers db (mget (sy_current st) (db_ID db)))"
proof (induction dbs arbitrary: st)
  case (Cons db dbs)
  have "(\<forall>d \<in> set dbs. \<not> failed_open drivers d (mget (sy_current (sync_one drivers db st)) (db_ID d)))
      = (\<forall>d \<in> set dbs. \<not> failed_open drivers d (mget (sy_current st) (db_ID d)))"
    by (intro ball_cong refl arg_cong [where f = Not] arg_cong [where f = "failed_open drivers _"] sync_others(2) [OF Cons.prems])
  with Cons.IH [of "sync_one drivers db st"] Cons.prems show ?case by (simp add: sync_one_effect(4))
qed simp

text \<open>
  C23. Reloading the pools. For a configuration with distinct database IDs, afterwards every
  configured database is served by: its old pool, when the connection settings are unchanged or
  the replacement could not be opened; otherwise the newly opened pool; and by none only when it
  had none and could not be opened. Nothing else is served. The pools handed over to be drained
  and closed are exactly the old pools that were replaced or whose database left the
  configuration - never one that is still serving its database - and an error is returned
  exactly when some pool could not be opened.
\<close>

theorem syncPools_correct:
  fixes drivers :: "'p drivers" and qm :: "'p QueryManager"
  assumes "distinct (map db_ID (cf_Databases (qm_cfg qm)))" and "mwf (qm_dbPools qm)"
  defines "dbs \<equiv> cf_Databases (qm_cfg qm)" and "old \<equiv> mget (qm_dbPools qm)"
    and "res \<equiv> syncPools drivers qm"
  shows "(\<forall>db \<in> set dbs. mget (qm_dbPools (snd res)) (db_ID db) = want_pool drivers db (old (db_ID db)))
    \<and> (\<forall>i. i \<notin> db_ID ` set dbs \<longrightarrow> mget (qm_dbPools (snd res)) i = None)
    \<and> (\<exists>stale. qm_retired (snd res) = qm_retired qm @ stale \<and>
         set stale = {(i, mp_pool mp) | i mp. old i = Some mp \<and>
            (\<forall>db \<in> set dbs. db_ID db = i \<longrightarrow> superseded drivers db mp)})
    \<and> (fst res = None \<longleftrightarrow> (\<forall>db \<in> set dbs. \<not> failed_open drivers db (old (db_ID db))))"
proof -
  let ?st0 = "\<lparr>sy_current = qm_dbPools qm, sy_next = [], sy_stale = [], sy_errs = []\<rparr>"
  define st where "st = fold (sync_one drivers) dbs ?st0"
  note d = assms(1) [folded dbs_def]
  have next0: "\<forall>db \<in> set dbs. mget (sy_next ?st0) (db_ID db) = None" by simp
  note nx = sync_fold_next [where drivers = drivers, OF d next0, folded st_def, simplified, folded old_def]
  note stale = sync_fold_stale [where drivers = drivers and st = ?st0, OF d, folded st_def, simplified, folded old_def]
  note errs = sync_fold_errs [where drivers = drivers and st = ?st0, OF d, folded st_def, simplified, folded old_def]
  have res: "res = (errors_Join (sy_errs st), qm\<lparr>qm_dbPools := sy_next st,
      qm_retired := qm_retired qm @ (sy_stale st @ map (\<lambda>(i, mp). (i, mp_pool mp)) (sy_current st))\<rparr>)"
    by (simp add: res_def syncPools_def Let_def st_def dbs_def)
  have cur: "set (map (\<lambda>(i, mp). (i, mp_pool mp)) (sy_current st)) = {(i, mp_pool mp) | i mp. old i = Some mp \<and> i \<notin> db_ID ` set dbs}"
  proof -
    have "(i, mp) \<in> set (sy_current st) \<longleftrightarrow> old i = Some mp \<and> i \<notin> db_ID ` set dbs" for i mp
    proof -
      have "mwf (sy_current st)" using assms(2) by (simp add: st_def sync_fold_current fold_mdel)
      from mget_iff_mem [OF this, of i mp] show ?thesis
        by (auto simp: st_def sync_fold_current fold_mdel old_def split: if_splits)
    qed
    then show ?thesis by force
  qed
  have rep: "(i, p) \<in> set (sy_stale st) \<longleftrightarrow> (\<exists>mp. p = mp_pool mp \<and> old i = Some mp \<and>
      (\<exists>db \<in> set dbs. db_ID db = i \<and> superseded drivers db mp))" for i p
    unfolding stale by (simp add: mem_replaced_pool) blast
  have inj: "db \<in> set dbs \<Longrightarrow> db' \<in> set dbs \<Longrightarrow> db_ID db = db_ID db' \<Longrightarrow> db = db'" for db db'
    using d by (simp add: distinct_map inj_on_def)
  have split: "(\<forall>db \<in> set dbs. db_ID db = i \<longrightarrow> superseded drivers db mp) \<longleftrightarrow>
      (\<exists>db \<in> set dbs. db_ID db = i \<and> superseded drivers db mp) \<or> i \<notin> db_ID ` set dbs" for i mp
    using inj by blast
  have retired: "set (sy_stale st @ map (\<lambda>(i, mp). (i, mp_pool mp)) (sy_current st)) =
      {(i, mp_pool mp) | i mp. old i = Some mp \<and> (\<forall>db \<in> set dbs. db_ID db = i \<longrightarrow> superseded drivers db mp)}"
    unfolding split set_append cur by (rule set_eqI, clarsimp simp: rep) blast
  show ?thesis using nx errs retired by (simp add: res errors_Join_def)
qed

definition sample_drivers :: "nat drivers" where
  "sample_drivers = [(''postgres'', \<lambda>dsn n. Inr 1)]"

theorem syncPools_correct_witness:
  "mget (qm_dbPools (snd (syncPools sample_drivers sample_qm))) ''main'' = Some \<lparr>mp_pool = 1, mp_cfg = sample_database\<rparr>
   \<and> fst (syncPools sample_drivers sample_qm) = None"
proof -
  have dbs: "cf_Databases (qm_cfg sample_qm) = [sample_database]"
    by (simp add: qm_cfg_def sample_qm_def config_Get_def with_defaults_def sample_config_def)
  have d: "distinct (map db_ID (cf_Databases (qm_cfg sample_qm)))" and w: "mwf (qm_dbPools sample_qm)"
    by (simp_all add: dbs) (simp add: sample_qm_def)
  have db: "db_ID sample_database = ''main''" "db_Engine sample_database = ''postgres''" by (simp_all add: sample_database_def)
  have o: "OpenPool sample_drivers ''postgres'' dsn n = Inr 1" for dsn n
    by (simp add: OpenPool_def sample_drivers_def mget_def)
  have old: "mget (qm_dbPools sample_qm) i = None" for i by (simp add: sample_qm_def)
  show ?thesis using syncPools_correct [OF d w, of sample_drivers]
    by (simp add: dbs db old want_pool_def failed_open_def o)
qed

end
