(* ===== verification/World.thy ===== *)
theory World
  imports Manager Parquet "HOL-Library.State_Monad"
begin

text \<open>
  The setting the operations of the query manager run in.

  \<^item> \<open>world\<close> is what they act on: the manager of this process, the metadata store all instances
    share, the contents of the result stores, and the query goroutines started so far.
  \<^item> \<open>env\<close> is what they depend on and cannot change: the clock, the drivers, the registered
    result stores, random IDs - and the other goroutines and instances. The latter act between
    any two accesses to shared state: \<open>en_other E n\<close> is what they have done to the world at the
    \<open>n\<close>-th access. Nothing is assumed of it here; a theorem that needs something states it.
  \<^item> \<open>atomically\<close> is one access: the others act, then this goroutine does, at the clock reading
    of that moment. \<open>meta\<close> is a call of the metadata store, \<open>data\<close> one of a result store,
    \<open>critical\<close> and \<open>act\<close> a critical section on the manager's own state, \<open>look\<close> a read of it.
  \<^item> The operations are programs of the state monad over \<open>world\<close>. \<open>wp m Q w\<close> says that \<open>Q\<close> holds
    of the result and the world \<open>m\<close> ends in from \<open>w\<close>; every program ends, the loops that may not are
    bounded by fuel.
\<close>

text \<open>A goroutine started by \<^verbatim>\<open>queryWG.Go\<close>: the arguments of \<^verbatim>\<open>run\<close> and the deadline of its context.\<close>

record 'p launch =
  la_record :: QueryRecord
  la_pool :: 'p
  la_deadline :: "time option"

record ('p, 's, 'w) world =
  wd_qm :: "'p QueryManager"
  wd_meta :: 's
  wd_data :: 'w
  wd_runs :: "'p launch list"
  wd_tick :: nat

text \<open>What a driver returns for a statement: its columns, the rows and the final \<^verbatim>\<open>Err\<close>.\<close>

record row_stream =
  rw_columns :: "go_error + string list"
  rw_rows :: "row_event list"
  rw_err :: "go_error option"

record ('p, 's, 'w) env =
  en_clk :: "nat \<Rightarrow> time"
  en_other :: "nat \<Rightarrow> ('p, 's, 'w) world \<Rightarrow> ('p, 's, 'w) world"
  en_drained :: "nat \<Rightarrow> nat"
  en_uuid :: "nat \<Rightarrow> string"
  en_ping :: "nat \<Rightarrow> 'p \<Rightarrow> go_error option"
  en_exec :: "nat \<Rightarrow> 'p \<Rightarrow> string \<Rightarrow> go_error + row_stream"
  en_stores :: "'w stores"
  en_unicode :: unicode_tables
  en_formats :: formats
  en_sha256 :: "string \<Rightarrow> string"
  en_parquet :: parquet_lib
  en_writer :: "nat \<Rightarrow> bool"

section \<open>Accesses\<close>

type_synonym ('p, 's, 'w, 'a) prog = "(('p, 's, 'w) world, 'a) state"

abbreviation ret :: "'a \<Rightarrow> ('s, 'a) state" where
  "ret \<equiv> State_Monad.return"

definition others :: "('p, 's, 'w) env \<Rightarrow> ('p, 's, 'w) world \<Rightarrow> ('p, 's, 'w) world" where
  "others E w = (en_other E (wd_tick w) w)\<lparr>wd_tick := Suc (wd_tick w)\<rparr>"

definition atomically ::
  "('p, 's, 'w) env \<Rightarrow> (nat \<Rightarrow> ('p, 's, 'w) world \<Rightarrow> 'a \<times> ('p, 's, 'w) world) \<Rightarrow> ('p, 's, 'w, 'a) prog" where
  "atomically E f = State (\<lambda>w. f (wd_tick w) (others E w))"

definition meta :: "('p, 's, 'w) env \<Rightarrow> (time \<Rightarrow> 's \<Rightarrow> 'a \<times> 's) \<Rightarrow> ('p, 's, 'w, 'a) prog" where
  "meta E f = atomically E (\<lambda>n w. let (r, s) = f (en_clk E n) (wd_meta w) in (r, w\<lparr>wd_meta := s\<rparr>))"

definition data :: "('p, 's, 'w) env \<Rightarrow> ('w \<Rightarrow> 'a \<times> 'w) \<Rightarrow> ('p, 's, 'w, 'a) prog" where
  "data E f = atomically E (\<lambda>n w. let (r, d) = f (wd_data w) in (r, w\<lparr>wd_data := d\<rparr>))"

definition critical :: "('p, 's, 'w) env \<Rightarrow> ('p QueryManager \<Rightarrow> 'a \<times> 'p QueryManager) \<Rightarrow> ('p, 's, 'w, 'a) prog" where
  "critical E f = atomically E (\<lambda>n w. let (r, q) = f (wd_qm w) in (r, w\<lparr>wd_qm := q\<rparr>))"

definition act :: "('p, 's, 'w) env \<Rightarrow> ('p QueryManager \<Rightarrow> 'p QueryManager) \<Rightarrow> ('p, 's, 'w, unit) prog" where
  "act E f = critical E (\<lambda>q. ((), f q))"

definition look :: "('p, 's, 'w) env \<Rightarrow> ('p QueryManager \<Rightarrow> 'a) \<Rightarrow> ('p, 's, 'w, 'a) prog" where
  "look E f = critical E (\<lambda>q. (f q, q))"

text \<open>A value the environment gives at that moment: the clock, a driver's answer.\<close>

definition ask :: "('p, 's, 'w) env \<Rightarrow> (nat \<Rightarrow> 'a) \<Rightarrow> ('p, 's, 'w, 'a) prog" where
  "ask E f = atomically E (\<lambda>n w. (f n, w))"

definition Now :: "('p, 's, 'w) env \<Rightarrow> ('p, 's, 'w, time) prog" where
  "Now E = ask E (en_clk E)"

definition notify :: "('p, 's, 'w) env \<Rightarrow> QueryEvent \<Rightarrow> ('p, 's, 'w, unit) prog" where
  "notify E ev = atomically E (\<lambda>n w. ((), w\<lparr>wd_qm := qm_notify (en_drained E n) ev (wd_qm w)\<rparr>))"

definition start_run :: "('p, 's, 'w) env \<Rightarrow> 'p launch \<Rightarrow> ('p, 's, 'w, unit) prog" where
  "start_run E l = atomically E (\<lambda>n w. ((), w\<lparr>wd_runs := wd_runs w @ [l]\<rparr>))"

text \<open>An event without statistics and error, as most call sites build it.\<close>

definition state_event :: "string \<Rightarrow> QueryState \<Rightarrow> QueryEvent" where
  "state_event qid st = \<lparr>ev_QueryID = qid, ev_State = st, ev_Stats = zero_stats, ev_Error = None\<rparr>"

section \<open>Reasoning about programs\<close>

definition wp :: "('w, 'a) state \<Rightarrow> ('a \<Rightarrow> 'w \<Rightarrow> bool) \<Rightarrow> 'w \<Rightarrow> bool" where
  "wp m Q w = (case run_state m w of (r, w') \<Rightarrow> Q r w')"

lemma wp_run: "run_state m w = (r, w') \<Longrightarrow> wp m Q w \<longleftrightarrow> Q r w'"
  by (simp add: wp_def)

lemma wp_return [simp]: "wp (ret x) Q = Q x"
  by (rule ext) (simp add: wp_def)

lemma wp_bind [simp]: "wp (m \<bind> f) Q = wp m (\<lambda>x. wp (f x) Q)"
  by (rule ext) (simp add: wp_def split: prod.splits)

lemma wp_if [simp]: "wp (if b then m else n) Q = (if b then wp m Q else wp n Q)"
  by simp

lemma wp_option [simp]:
  "wp (case x of None \<Rightarrow> m | Some y \<Rightarrow> f y) Q = (case x of None \<Rightarrow> wp m Q | Some y \<Rightarrow> wp (f y) Q)"
  by (simp split: option.splits)

lemma wp_sum [simp]:
  "wp (case x of Inl e \<Rightarrow> g e | Inr y \<Rightarrow> f y) Q = (case x of Inl e \<Rightarrow> wp (g e) Q | Inr y \<Rightarrow> wp (f y) Q)"
  by (simp split: sum.splits)

lemma wp_prod [simp]: "wp (case x of (a, b) \<Rightarrow> f a b) Q = (case x of (a, b) \<Rightarrow> wp (f a b) Q)"
  by (simp split: prod.splits)

lemma wp_True [simp]: "wp m (\<lambda>r w'. True) w"
  by (simp add: wp_def split: prod.splits)

lemma wp_mono: "wp m Q w \<Longrightarrow> (\<And>r w'. Q r w' \<Longrightarrow> Q' r w') \<Longrightarrow> wp m Q' w"
  by (auto simp: wp_def split: prod.splits)

lemma wp_conj: "wp m (\<lambda>r w'. Q r w' \<and> Q' r w') w \<longleftrightarrow> wp m Q w \<and> wp m Q' w"
  by (simp add: wp_def split: prod.splits)

text \<open>The accesses.\<close>

lemma others_tick [simp]: "wd_tick (others E w) = Suc (wd_tick w)"
  by (simp add: others_def)

lemma wp_meta:
  "wp (meta E f) Q w \<longleftrightarrow>
     (case f (en_clk E (wd_tick w)) (wd_meta (others E w)) of (r, s) \<Rightarrow> Q r ((others E w)\<lparr>wd_meta := s\<rparr>))"
  by (simp add: wp_def meta_def atomically_def split: prod.splits)

lemma wp_data:
  "wp (data E f) Q w \<longleftrightarrow> (case f (wd_data (others E w)) of (r, d) \<Rightarrow> Q r ((others E w)\<lparr>wd_data := d\<rparr>))"
  by (simp add: wp_def data_def atomically_def split: prod.splits)

lemma wp_critical:
  "wp (critical E f) Q w \<longleftrightarrow> (case f (wd_qm (others E w)) of (r, q) \<Rightarrow> Q r ((others E w)\<lparr>wd_qm := q\<rparr>))"
  by (simp add: wp_def critical_def atomically_def split: prod.splits)

lemma wp_act: "wp (act E f) Q w \<longleftrightarrow> Q () ((others E w)\<lparr>wd_qm := f (wd_qm (others E w))\<rparr>)"
  by (simp add: act_def wp_critical)

lemma wp_look: "wp (look E f) Q w \<longleftrightarrow> Q (f (wd_qm (others E w))) (others E w)"
  by (simp add: look_def wp_critical)

lemma wp_ask: "wp (ask E f) Q w \<longleftrightarrow> Q (f (wd_tick w)) (others E w)"
  by (simp add: wp_def ask_def atomically_def)

lemma wp_Now: "wp (Now E) Q w \<longleftrightarrow> Q (en_clk E (wd_tick w)) (others E w)"
  by (simp add: Now_def wp_ask)

lemma wp_notify:
  "wp (notify E ev) Q w \<longleftrightarrow> Q () ((others E w)\<lparr>wd_qm := qm_notify (en_drained E (wd_tick w)) ev (wd_qm (others E w))\<rparr>)"
  by (simp add: wp_def notify_def atomically_def)

lemma wp_start_run: "wp (start_run E l) Q w \<longleftrightarrow> Q () ((others E w)\<lparr>wd_runs := wd_runs (others E w) @ [l]\<rparr>)"
  by (simp add: wp_def start_run_def atomically_def)

lemmas wp_access = wp_act wp_look wp_ask wp_Now wp_notify wp_start_run

text \<open>A property of the world that every program built from accesses keeps.\<close>

definition keeps :: "('w \<Rightarrow> bool) \<Rightarrow> ('w, 'a) state \<Rightarrow> bool" where
  "keeps P m \<longleftrightarrow> (\<forall>w. P w \<longrightarrow> wp m (\<lambda>_. P) w)"

named_theorems keeps_intros \<open>programs that keep a property\<close>

lemma keepsD: "keeps P m \<Longrightarrow> P w \<Longrightarrow> wp m (\<lambda>_. P) w"
  by (simp add: keeps_def)

lemma keeps_return [keeps_intros]: "keeps P (ret x)"
  by (simp add: keeps_def)

lemma keeps_bind [keeps_intros]: "keeps P m \<Longrightarrow> (\<And>x. keeps P (f x)) \<Longrightarrow> keeps P (m \<bind> f)"
  by (auto simp: keeps_def intro: wp_mono)

lemma keeps_if [keeps_intros]: "keeps P m \<Longrightarrow> keeps P n \<Longrightarrow> keeps P (if b then m else n)"
  by simp

lemma keeps_option [keeps_intros]: "keeps P m \<Longrightarrow> (\<And>y. keeps P (f y)) \<Longrightarrow> keeps P (case x of None \<Rightarrow> m | Some y \<Rightarrow> f y)"
  by (simp split: option.splits)

lemma keeps_sum [keeps_intros]:
  "(\<And>e. keeps P (g e)) \<Longrightarrow> (\<And>y. keeps P (f y)) \<Longrightarrow> keeps P (case x of Inl e \<Rightarrow> g e | Inr y \<Rightarrow> f y)"
  by (simp split: sum.splits)

lemma keeps_prod [keeps_intros]: "(\<And>a b. keeps P (f a b)) \<Longrightarrow> keeps P (case x of (a, b) \<Rightarrow> f a b)"
  by (simp split: prod.splits)

end
