(* ===== verification/Submit.thy ===== *)
theory Submit
  imports World
begin

text \<open>
  Submitting a query, \<^verbatim>\<open>internal/core/manager/manager.go\<close>: \<^verbatim>\<open>SubmitQuery\<close>, \<^verbatim>\<open>resolveIdempotency\<close>,
  \<^verbatim>\<open>GetQuery\<close> and \<^verbatim>\<open>Watch\<close>.

  \<^verbatim>\<open>SubmitQuery\<close> is cut where its phases end: \<open>check_submit\<close> are the checks without side
  effects, \<open>start_query\<close> everything after the idempotency key has been claimed up to the start of
  the query goroutine, and \<open>SubmitQuery\<close> puts them together and returns the record. In synchronous
  mode it waits on its subscription; \<open>fuel\<close> bounds the receives of that wait and \<open>None\<close> is a call
  that has not returned by then.
\<close>

section \<open>Reading and watching\<close>

definition qm_GetQuery :: "'s MetaStore \<Rightarrow> ('p, 's, 'w) env \<Rightarrow> string \<Rightarrow> ('p, 's, 'w, go_error + QueryRecord) prog" where
  "qm_GetQuery ms E queryID = meta E (\<lambda>now. ms_GetQuery ms now queryID)"

definition current_event :: "string \<Rightarrow> QueryRecord \<Rightarrow> QueryEvent" where
  "current_event queryID rec =
     \<lparr>ev_QueryID = queryID, ev_State = qr_State rec, ev_Stats = qr_Stats rec, ev_Error = qr_Error rec\<rparr>"

definition subscribe_hub :: "QueryEvent \<Rightarrow> 'p QueryManager \<Rightarrow> nat option \<times> 'p QueryManager" where
  "subscribe_hub current qm =
     (case watch_register current (qm_hub qm) of
        None \<Rightarrow> (None, qm\<lparr>qm_panicked := True\<rparr>)
      | Some (ch, h) \<Rightarrow> (Some ch, qm\<lparr>qm_hub := h\<rparr>))"

definition Watch :: "'s MetaStore \<Rightarrow> ('p, 's, 'w) env \<Rightarrow> string \<Rightarrow> ('p, 's, 'w, go_error + nat option) prog" where
  "Watch ms E queryID = do {
     r \<leftarrow> meta E (\<lambda>now. ms_GetQuery ms now queryID);
     case r of
       Inl e \<Rightarrow> ret (Inl e)
     | Inr rec \<Rightarrow> do {
         ch \<leftarrow> critical E (subscribe_hub (current_event queryID rec));
         ret (Inr ch)
       }
   }"

section \<open>Idempotency\<close>

definition resolveIdempotency ::
  "'s MetaStore \<Rightarrow> ('p, 's, 'w) env \<Rightarrow> Context \<Rightarrow> string \<Rightarrow> string \<Rightarrow> QueryOptions \<Rightarrow> string \<Rightarrow>
   ('p, 's, 'w, go_error + QueryRecord option) prog" where
  "resolveIdempotency ms E ctx dbID key opts queryID = (
     let ttl = idempotencySubmitTTL opts;
         acquire = meta E (\<lambda>now. ms_AcquireIdempotency ms now dbID key queryID ttl) in do {
     a \<leftarrow> acquire;
     case a of
       Inl e \<Rightarrow> ret (Inl (Wrapf ''failed to process idempotency'' e))
     | Inr (existingID, acquired) \<Rightarrow>
       if acquired then ret (Inr None)
       else do {
         r \<leftarrow> meta E (\<lambda>now. ms_GetQuery ms now existingID);
         case r of
           Inr rec \<Rightarrow>
             (case AuthorizeSubject ctx (qr_Subject rec) of
                Some _ \<Rightarrow> ret (Inl (NotFoundError ''query'' existingID))
              | None \<Rightarrow> ret (Inr (Some rec)))
         | Inl e \<Rightarrow>
             if \<not> errors_Is e ErrNotFound then ret (Inl e)
             else do {
               x \<leftarrow> meta E (\<lambda>now. ms_ReleaseIdempotency ms now dbID key existingID);
               case x of
                 Some e \<Rightarrow> ret (Inl (Wrapf ''failed to reclaim idempotency key'' e))
               | None \<Rightarrow> do {
                   a \<leftarrow> acquire;
                   case a of
                     Inl e \<Rightarrow> ret (Inl (Wrapf ''failed to process idempotency'' e))
                   | Inr (existingID, acquired) \<Rightarrow>
                       if acquired then ret (Inr None)
                       else do {
                         r \<leftarrow> meta E (\<lambda>now. ms_GetQuery ms now existingID);
                         ret (case r of Inl e \<Rightarrow> Inl e | Inr rec \<Rightarrow> Inr (Some rec))
                       }
                 }
             }
       }
   })"

section \<open>SubmitQuery\<close>

text \<open>The checks before the first side effect. The result is the pool and the completed options.\<close>

definition check_submit ::
  "('p, 's, 'w) env \<Rightarrow> string \<Rightarrow> string \<Rightarrow> QueryOptions \<Rightarrow> ('p, 's, 'w, go_error + 'p \<times> QueryOptions) prog" where
  "check_submit E dbID sql opts = do {
     found \<leftarrow> look E (lookupPool dbID);
     case found of
       None \<Rightarrow> ret (Inl (NotFoundError ''database'' dbID))
     | Some pool \<Rightarrow> do {
         opts \<leftarrow> look E (\<lambda>qm. applyDefaults qm opts);
         case Validate opts of
           Some e \<Rightarrow> ret (Inl e)
         | None \<Rightarrow>
           (case GetStore (en_stores E) (opt_StorageBackend opts) of
              Inl _ \<Rightarrow> ret (Inl (ValidationError ''storage_backend'' ''unknown storage backend''))
            | Inr store \<Rightarrow>
              if \<not> SupportsFormat store (opt_ResultFormat opts)
              then ret (Inl (ValidationError ''result_format''
                     (''storage backend '' @ strconv_Quote (opt_StorageBackend opts) @ '' cannot store '' @
                      opt_ResultFormat opts @ '' results unchanged'')))
              else do {
                allowWrites \<leftarrow> look E (\<lambda>qm. df_AllowWrites (cf_Defaults (qm_cfg qm)));
                if allowWrites then ret (Inr (pool, opts))
                else (case ReadOnly (en_unicode E) sql of
                        Some e \<Rightarrow> ret (Inl (ValidationError ''sql'' (guard_reason e)))
                      | None \<Rightarrow> ret (Inr (pool, opts)))
              })
       }
   }"

text \<open>The closure \<^verbatim>\<open>release\<close>.\<close>

definition release_claim ::
  "'s MetaStore \<Rightarrow> ('p, 's, 'w) env \<Rightarrow> QueryOptions \<Rightarrow> string \<Rightarrow> string \<Rightarrow> string \<Rightarrow> ('p, 's, 'w, unit) prog" where
  "release_claim ms E opts dbID idemKey queryID =
     (if opt_IdempotencyKey opts = [] then ret ()
      else do { _ \<leftarrow> meta E (\<lambda>now. ms_ReleaseIdempotency ms now dbID idemKey queryID); ret () })"

definition new_record :: "string \<Rightarrow> string \<Rightarrow> string \<Rightarrow> QueryOptions \<Rightarrow> string \<Rightarrow> time \<Rightarrow> string \<Rightarrow> QueryRecord" where
  "new_record queryID dbID sql opts inst now subject =
     \<lparr>qr_ID = queryID, qr_DatabaseID = dbID, qr_SQL = sql, qr_Options = opts, qr_State = StatePending,
      qr_OwnerInstanceID = inst, qr_CreatedAt = now, qr_StartedAt = 0, qr_FinishedAt = 0, qr_Error = None,
      qr_Stats = zero_stats, qr_Result = None, qr_IdempotencyKey = opt_IdempotencyKey opts,
      qr_LeaseDeadline = 0, qr_Subject = subject\<rparr>"

text \<open>
  From the ping to the start of the goroutine. The result is the record at that moment, with the
  channel of the subscription in synchronous mode. \<open>announce_query\<close> is the part after the record
  has been stored.
\<close>

definition announce_query ::
  "'s MetaStore \<Rightarrow> ('p, 's, 'w) env \<Rightarrow> QueryRecord \<Rightarrow> 'p \<Rightarrow> time option \<Rightarrow> ('p, 's, 'w, nat option) prog" where
  "announce_query ms E rec pool deadline = do {
     ttl \<leftarrow> look E heartbeatTTL;
     _ \<leftarrow> meta E (\<lambda>now. ms_Heartbeat ms now (qr_OwnerInstanceID rec) [qr_ID rec] ttl);
     notify E (state_event (qr_ID rec) StatePending);
     syncCh \<leftarrow> (if opt_Mode (qr_Options rec) = ''sync''
                then do { r \<leftarrow> Watch ms E (qr_ID rec); ret (case r of Inl _ \<Rightarrow> None | Inr ch \<Rightarrow> ch) }
                else ret None);
     start_run E \<lparr>la_record = rec, la_pool = pool, la_deadline = deadline\<rparr>;
     ret syncCh
   }"

definition start_query ::
  "'s MetaStore \<Rightarrow> ('p, 's, 'w) env \<Rightarrow> string \<Rightarrow> string \<Rightarrow> QueryOptions \<Rightarrow> string \<Rightarrow> string \<Rightarrow> string \<Rightarrow> 'p \<Rightarrow>
   ('p, 's, 'w, go_error + QueryRecord \<times> nat option) prog" where
  "start_query ms E dbID sql opts subject queryID idemKey pool = (
     let release = release_claim ms E opts dbID idemKey queryID in do {
     ping \<leftarrow> ask E (\<lambda>n. en_ping E n pool);
     case ping of
       Some _ \<Rightarrow> do { release; ret (Inl (UnavailableError (''database '' @ dbID))) }
     | None \<Rightarrow> do {
         slot \<leftarrow> critical E acquireSlot;
         if \<not> slot
         then do { release; ret (Inl (ResourceExhaustedError ''too many concurrent queries on this instance'')) }
         else do {
           created \<leftarrow> Now E;
           admitted \<leftarrow> critical E (admit queryID dbID);
           case admitted of
             Some e \<Rightarrow> do { act E (cancelExec queryID); act E releaseSlot; release; ret (Inl e) }
           | None \<Rightarrow> do {
               now \<leftarrow> Now E;
               inst \<leftarrow> look E qm_instanceID;
               let rec = new_record queryID dbID sql opts inst now subject;
               put \<leftarrow> meta E (\<lambda>now. ms_PutQuery ms now rec);
               case put of
                 Some e \<Rightarrow> do {
                   act E (deregister queryID); act E (cancelExec queryID); act E releaseSlot; release;
                   ret (Inl (Wrapf ''failed to persist query state'' e))
                 }
               | None \<Rightarrow> do {
                   syncCh \<leftarrow> announce_query ms E rec pool
                     (if opt_Timeout opts > 0 then Some (time_Add created (opt_Timeout opts)) else None);
                   ret (Inr (rec, syncCh))
                 }
             }
         }
       }
   })"

text \<open>What the phases up to the start of the goroutine come to.\<close>

datatype submission = Rejected go_error | Existing QueryRecord | Started QueryRecord "nat option"

definition submit_phases ::
  "'s MetaStore \<Rightarrow> ('p, 's, 'w) env \<Rightarrow> Context \<Rightarrow> string \<Rightarrow> string \<Rightarrow> QueryOptions \<Rightarrow> string \<Rightarrow>
   ('p, 's, 'w, submission) prog" where
  "submit_phases ms E ctx dbID sql opts queryID = do {
     checked \<leftarrow> check_submit E dbID sql opts;
     case checked of
       Inl e \<Rightarrow> ret (Rejected e)
     | Inr (pool, opts) \<Rightarrow> (
       let subject = SubjectFromContext ctx;
           idemKey = scopedIdempotencyKey subject (opt_IdempotencyKey opts) in do {
       existing \<leftarrow> (if opt_IdempotencyKey opts \<noteq> [] then resolveIdempotency ms E ctx dbID idemKey opts queryID
                   else ret (Inr None));
       case existing of
         Inl e \<Rightarrow> ret (Rejected e)
       | Inr (Some rec) \<Rightarrow> ret (Existing rec)
       | Inr None \<Rightarrow> do {
           started \<leftarrow> start_query ms E dbID sql opts subject queryID idemKey pool;
           ret (case started of Inl e \<Rightarrow> Rejected e | Inr (rec, ch) \<Rightarrow> Started rec ch)
         }
       })
   }"

text \<open>The wait of a synchronous submission: receive until a terminal event or the end of the channel.\<close>

definition recv_hub :: "nat \<Rightarrow> 'p QueryManager \<Rightarrow> QueryEvent received \<times> 'p QueryManager" where
  "recv_hub ch qm =
     (let (r, cs) = recv ch (hb_chans (qm_hub qm)) in (r, qm\<lparr>qm_hub := (qm_hub qm)\<lparr>hb_chans := cs\<rparr>\<rparr>))"

fun sync_wait :: "('p, 's, 'w) env \<Rightarrow> nat \<Rightarrow> nat \<Rightarrow> ('p, 's, 'w, bool) prog" where
  "sync_wait E ch 0 = ret False"
| "sync_wait E ch (Suc n) = do {
     r \<leftarrow> critical E (recv_hub ch);
     case r of
       Received ev \<Rightarrow> if IsTerminal (ev_State ev) then ret True else sync_wait E ch n
     | Ended \<Rightarrow> ret True
     | Blocked \<Rightarrow> sync_wait E ch n
   }"

definition SubmitQuery ::
  "'s MetaStore \<Rightarrow> ('p, 's, 'w) env \<Rightarrow> nat \<Rightarrow> Context \<Rightarrow> string \<Rightarrow> string \<Rightarrow> QueryOptions \<Rightarrow>
   ('p, 's, 'w, (go_error + QueryRecord) option) prog" where
  "SubmitQuery ms E fuel ctx dbID sql opts = do {
     queryID \<leftarrow> ask E (en_uuid E);
     r \<leftarrow> submit_phases ms E ctx dbID sql opts queryID;
     case r of
       Rejected e \<Rightarrow> ret (Some (Inl e))
     | Existing rec \<Rightarrow> ret (Some (Inr rec))
     | Started rec syncCh \<Rightarrow>
       if opt_Mode (qr_Options rec) = ''sync'' then do {
         done \<leftarrow> (case syncCh of None \<Rightarrow> ret True | Some ch \<Rightarrow> sync_wait E ch fuel);
         if \<not> done then ret None
         else do { r \<leftarrow> qm_GetQuery ms E queryID; ret (Some r) }
       }
       else ret (Some (Inr rec))
   }"

section \<open>A submission that is not started leaves nothing behind\<close>

text \<open>
  The trace of the query \<open>q\<close> in the world: the store keeps its invariant, only keys of \<open>K\<close> are
  claimed for \<open>q\<close>, no goroutine has been started for it and, with \<open>b\<close>, it is not registered.
\<close>

definition trace_of :: "('s \<Rightarrow> bool) \<Rightarrow> ('s \<Rightarrow> meta_view) \<Rightarrow> string \<Rightarrow> string set \<Rightarrow> bool \<Rightarrow> ('p, 's, 'w) world \<Rightarrow> bool" where
  "trace_of ok view q K b w \<longleftrightarrow>
     ok (wd_meta w) \<and> (\<forall>k t. v_idem (view (wd_meta w)) t k = Some q \<longrightarrow> k \<in> K) \<and>
     (\<forall>l \<in> set (wd_runs w). qr_ID (la_record l) \<noteq> q) \<and> (b \<longrightarrow> mget (qm_activeReg (wd_qm w)) q = None)"

text \<open>The other goroutines and instances do not use the fresh ID \<open>q\<close>.\<close>

definition spares :: "('s \<Rightarrow> bool) \<Rightarrow> ('s \<Rightarrow> meta_view) \<Rightarrow> string \<Rightarrow> ('p, 's, 'w) env \<Rightarrow> bool" where
  "spares ok view q E \<longleftrightarrow> (\<forall>n K b w. trace_of ok view q K b w \<longrightarrow> trace_of ok view q K b (en_other E n w))"

lemma trace_of_tick [simp]: "trace_of ok view q K b (w\<lparr>wd_tick := n\<rparr>) = trace_of ok view q K b w"
  by (simp add: trace_of_def)

lemma trace_of_others: "spares ok view q E \<Longrightarrow> trace_of ok view q K b w \<Longrightarrow> trace_of ok view q K b (others E w)"
  by (simp add: spares_def others_def)

lemma trace_of_qm:
  "trace_of ok view q K b w \<Longrightarrow> (b' \<Longrightarrow> (b \<Longrightarrow> mget (qm_activeReg (wd_qm w)) q = None) \<Longrightarrow> mget (qm_activeReg qm) q = None) \<Longrightarrow>
     trace_of ok view q K b' (w\<lparr>wd_qm := qm\<rparr>)"
  by (simp add: trace_of_def)

lemma trace_of_weaken: "trace_of ok view q K True w \<Longrightarrow> trace_of ok view q K b w"
  by (simp add: trace_of_def)

lemma activeReg_simps [simp]:
  "qm_activeReg (qm_notify n ev qm) = qm_activeReg qm" "qm_activeReg (cancelExec i qm) = qm_activeReg qm"
  "qm_activeReg (releaseSlot qm) = qm_activeReg qm" "qm_activeReg (snd (acquireSlot qm)) = qm_activeReg qm"
  "qm_activeReg (deregister i qm) = mdel i (qm_activeReg qm)"
  by (simp_all add: qm_notify_def cancelExec_def end_context_def releaseSlot_def acquireSlot_def deregister_def
      split: option.splits)

lemma acquireSlot_reg: "acquireSlot qm = (r, qm') \<Longrightarrow> qm_activeReg qm' = qm_activeReg qm"
  by (metis activeReg_simps(4) snd_conv)

lemma admit_Some: "admit i db qm = (Some e, qm') \<Longrightarrow> qm' = qm \<and> qm_draining qm \<and> e = DrainingError"
  by (auto simp: admit_def split: if_splits)

text \<open>The two calls on idempotency keys never fail, as in the memory store.\<close>

definition keys_reliable :: "'s MetaStore \<Rightarrow> bool" where
  "keys_reliable ms \<longleftrightarrow>
     (\<forall>now db k q ttl s e. fst (ms_AcquireIdempotency ms now db k q ttl s) \<noteq> Inl e) \<and>
     (\<forall>now db k q s. fst (ms_ReleaseIdempotency ms now db k q s) = None)"

context meta_store
begin

lemma trace_call:
  assumes "spares inv view q E" and "trace_of inv view q K b w"
    and "\<And>now s r s'. inv s \<Longrightarrow> f now s = (r, s') \<Longrightarrow> inv s' \<and> v_idem (view s') = v_idem (view s)"
    and "\<And>r w'. trace_of inv view q K b w' \<Longrightarrow> Q r w'"
  shows "wp (meta E f) Q w"
proof -
  obtain r s where c: "f (en_clk E (wd_tick w)) (wd_meta (others E w)) = (r, s)" by fastforce
  have t: "trace_of inv view q K b (others E w)" by (rule trace_of_others [OF assms(1,2)])
  then have "inv (wd_meta (others E w))" by (simp add: trace_of_def)
  from assms(3) [OF this c] t have "trace_of inv view q K b ((others E w)\<lparr>wd_meta := s\<rparr>)" by (simp add: trace_of_def)
  from assms(4) [OF this] show ?thesis by (simp add: wp_meta c)
qed

lemma get_idem: "inv s \<Longrightarrow> ms_GetQuery ms now i s = (r, s') \<Longrightarrow> inv s' \<and> v_idem (view s') = v_idem (view s)"
  using get [of s now i r s'] by simp

lemma put_idem: "inv s \<Longrightarrow> ms_PutQuery ms now rec s = (r, s') \<Longrightarrow> inv s' \<and> v_idem (view s') = v_idem (view s)"
  using put [of s now rec r s'] by auto

lemma trace_get:
  "spares inv view q E \<Longrightarrow> trace_of inv view q K b w \<Longrightarrow> (\<And>r w'. trace_of inv view q K b w' \<Longrightarrow> Q r w') \<Longrightarrow>
     wp (meta E (\<lambda>now. ms_GetQuery ms now i)) Q w"
  by (erule (1) trace_call) (rule get_idem)

lemma trace_put:
  "spares inv view q E \<Longrightarrow> trace_of inv view q K b w \<Longrightarrow> (\<And>r w'. trace_of inv view q K b w' \<Longrightarrow> Q r w') \<Longrightarrow>
     wp (meta E (\<lambda>now. ms_PutQuery ms now rec)) Q w"
  by (erule (1) trace_call) (rule put_idem)

lemma trace_release:
  assumes "spares inv view q E" and "keys_reliable ms" and "trace_of inv view q K b w"
    and "\<And>w'. trace_of inv view q (if q' = q then K - {fullKey db key} else K) b w' \<Longrightarrow> Q None w'"
  shows "wp (meta E (\<lambda>now. ms_ReleaseIdempotency ms now db key q')) Q w"
proof -
  let ?w = "others E w"
  obtain s where c: "ms_ReleaseIdempotency ms (en_clk E (wd_tick w)) db key q' (wd_meta ?w) = (None, s)"
    using assms(2) unfolding keys_reliable_def by (metis prod.collapse)
  have t: "trace_of inv view q K b ?w" by (rule trace_of_others [OF assms(1,3)])
  with release [OF _ c] have "inv s" "view s = release_view (fullKey db key) q' (view (wd_meta ?w))"
    by (auto simp: trace_of_def)
  with t have "trace_of inv view q (if q' = q then K - {fullKey db key} else K) b (?w\<lparr>wd_meta := s\<rparr>)"
    by (auto simp: trace_of_def split: if_splits)
  from assms(4) [OF this] show ?thesis by (simp add: wp_meta c)
qed

lemma trace_acquire:
  assumes "spares inv view q E" and "keys_reliable ms" and "trace_of inv view q {} b w"
    and "\<And>i a w'. trace_of inv view q (if a then {fullKey db key} else {}) b w' \<Longrightarrow> Q (Inr (i, a)) w'"
  shows "wp (meta E (\<lambda>now. ms_AcquireIdempotency ms now db key q ttl)) Q w"
proof -
  let ?w = "others E w"
  obtain r s where c: "ms_AcquireIdempotency ms (en_clk E (wd_tick w)) db key q ttl (wd_meta ?w) = (r, s)" by fastforce
  then obtain i a where r: "r = Inr (i, a)"
    using assms(2) unfolding keys_reliable_def by (cases r) (metis fst_conv, auto)
  have t: "trace_of inv view q {} b ?w" by (rule trace_of_others [OF assms(1,3)])
  with acquire [OF _ c] r have "trace_of inv view q (if a then {fullKey db key} else {}) b (?w\<lparr>wd_meta := s\<rparr>)"
    by (auto simp: trace_of_def split: if_splits)
  from assms(4) [OF this] show ?thesis by (simp add: wp_meta c r)
qed

lemma trace_resolve:
  assumes sp: "spares inv view q E" and rel: "keys_reliable ms" and t: "trace_of inv view q {} b w"
  shows "wp (resolveIdempotency ms E ctx db key opts q)
    (\<lambda>r. trace_of inv view q (if r = Inr None then {fullKey db key} else {}) b) w"
proof -
  note acq = trace_acquire [OF sp rel, where b = b] and get = trace_get [OF sp, where K = "{}" and b = b]
  note rls = trace_release [OF sp rel, where K = "{}" and b = b, simplified]
  show ?thesis unfolding resolveIdempotency_def Let_def
    by (simp, rule acq [OF t], auto intro!: get rls acq split: sum.splits option.splits if_splits)
qed

lemma trace_release_claim:
  assumes "spares inv view q E" and "keys_reliable ms"
    and "trace_of inv view q (if opt_IdempotencyKey opts = [] then {} else {fullKey db key}) b w"
    and "\<And>w'. trace_of inv view q {} b w' \<Longrightarrow> Q () w'"
  shows "wp (release_claim ms E opts db key q) Q w"
  unfolding release_claim_def using assms
  by (auto intro!: trace_release [OF assms(1,2), where K = "{fullKey db key}" and b = b])

lemma trace_act:
  assumes "spares inv view q E" and "trace_of inv view q K b w"
    and "\<And>qm. b' \<Longrightarrow> (b \<Longrightarrow> mget (qm_activeReg qm) q = None) \<Longrightarrow> mget (qm_activeReg (f qm)) q = None"
    and "\<And>w'. trace_of inv view q K b' w' \<Longrightarrow> Q () w'"
  shows "wp (act E f) Q w"
  unfolding wp_act by (rule assms(4), rule trace_of_qm, rule trace_of_others [OF assms(1,2)], rule assms(3))

lemma trace_critical:
  assumes "spares inv view q E" and "trace_of inv view q K b w"
    and "\<And>qm qm' r. f qm = (r, qm') \<Longrightarrow> b' r \<Longrightarrow> (b \<Longrightarrow> mget (qm_activeReg qm) q = None) \<Longrightarrow>
      mget (qm_activeReg qm') q = None"
    and "\<And>r w'. trace_of inv view q K (b' r) w' \<Longrightarrow> Q r w'"
  shows "wp (critical E f) Q w"
proof -
  obtain r qm where c: "f (wd_qm (others E w)) = (r, qm)" by fastforce
  have "trace_of inv view q K (b' r) ((others E w)\<lparr>wd_qm := qm\<rparr>)"
    by (rule trace_of_qm [OF trace_of_others [OF assms(1,2)]]) (rule assms(3) [OF c])
  from assms(4) [OF this] show ?thesis by (simp add: wp_critical c)
qed

lemma trace_look:
  "spares inv view q E \<Longrightarrow> trace_of inv view q K b w \<Longrightarrow> (\<And>r w'. trace_of inv view q K b w' \<Longrightarrow> Q r w') \<Longrightarrow> wp (look E f) Q w"
  by (simp add: wp_access trace_of_others)

lemma trace_ask:
  "spares inv view q E \<Longrightarrow> trace_of inv view q K b w \<Longrightarrow> (\<And>r w'. trace_of inv view q K b w' \<Longrightarrow> Q r w') \<Longrightarrow> wp (ask E f) Q w"
  by (simp add: wp_access trace_of_others)

lemma trace_Now:
  "spares inv view q E \<Longrightarrow> trace_of inv view q K b w \<Longrightarrow> (\<And>r w'. trace_of inv view q K b w' \<Longrightarrow> Q r w') \<Longrightarrow> wp (Now E) Q w"
  by (simp add: wp_access trace_of_others)

lemma trace_start:
  assumes sp: "spares inv view q E" and rel: "keys_reliable ms"
    and t: "trace_of inv view q (if opt_IdempotencyKey opts = [] then {} else {fullKey db key}) True w"
  shows "wp (start_query ms E db sql opts subject q key pool) (\<lambda>r w'. \<forall>e. r = Inl e \<longrightarrow> trace_of inv view q {} True w') w"
proof -
  define K where "K = (if opt_IdempotencyKey opts = [] then {} else {fullKey db key})"
  note t = t [folded K_def]
  note others = trace_of_others [OF sp, where K = K]
  note slot = trace_critical [OF sp, where b' = "\<lambda>_. True" and K = K and b = True and f = acquireSlot]
  note adm = trace_critical [OF sp, where b' = "\<lambda>r. r \<noteq> None" and K = K and b = True and f = "admit q db"]
  note put = trace_put [OF sp, where K = K and b = False]
  note undo = trace_act [OF sp, where b' = True and K = K and b = False and f = "deregister q"]
    trace_act [OF sp, where b' = True and K = K and b = True and f = "cancelExec q"]
    trace_act [OF sp, where b' = True and K = K and b = True and f = releaseSlot]
    trace_release_claim [OF sp rel, where b = True and opts = opts and db = db and key = key, folded K_def]
  show ?thesis unfolding start_query_def Let_def
    by (simp add: wp_ask, simp split: option.split)
      (auto simp: wp_Now wp_look split: option.splits intro!: others slot adm put undo t
        dest: acquireSlot_reg dest!: admit_Some)
qed

lemma trace_check:
  "spares inv view q E \<Longrightarrow> trace_of inv view q K b w \<Longrightarrow> wp (check_submit E db sql opts) (\<lambda>_. trace_of inv view q K b) w"
  unfolding check_submit_def by (auto simp: wp_look intro!: trace_of_others split: option.splits sum.splits)

lemma submit_clean:
  assumes sp: "spares inv view q E" and rel: "keys_reliable ms" and t: "trace_of inv view q {} True w"
  shows "wp (submit_phases ms E ctx db sql opts q)
    (\<lambda>out w'. (\<forall>rec ch. out \<noteq> Started rec ch) \<longrightarrow> trace_of inv view q {} True w') w"
proof -
  have start: "wp (start_query ms E db sql opts' subj q key pool)
      (\<lambda>x w'. (\<forall>rec ch. (case x of Inl e \<Rightarrow> Rejected e | Inr (rec, ch) \<Rightarrow> Started rec ch) \<noteq> Started rec ch) \<longrightarrow>
        trace_of inv view q {} True w') v"
    if "trace_of inv view q (if opt_IdempotencyKey opts' = [] then {} else {fullKey db key}) True v" for opts' subj key pool v
    using trace_start [OF sp rel that] by (rule wp_mono) (auto split: sum.splits)
  have resolve: "wp (resolveIdempotency ms E ctx db key opts' q) Q v"
    if "trace_of inv view q {} True v" and "\<And>w'. trace_of inv view q {fullKey db key} True w' \<Longrightarrow> Q (Inr None) w'"
      and "\<And>r w'. trace_of inv view q {} True w' \<Longrightarrow> r \<noteq> Inr None \<Longrightarrow> Q r w'" for key opts' Q v
    using trace_resolve [OF sp rel that(1), of ctx db key opts'] that(2,3) by (elim wp_mono) (auto split: if_splits)
  show ?thesis unfolding submit_phases_def Let_def
    by (simp, rule wp_mono [OF trace_check [OF sp t]])
      (auto split: sum.splits option.splits intro!: resolve start)
qed

end

text \<open>What the submission does to the manager itself, when nobody else changes it meanwhile.\<close>

definition calm :: "('p, 's, 'w) env \<Rightarrow> bool" where
  "calm E \<longleftrightarrow> (\<forall>n w. wd_qm (en_other E n w) = wd_qm w)"

lemma calm_others [simp]: "calm E \<Longrightarrow> wd_qm (others E w) = wd_qm w"
  by (simp add: calm_def others_def)

lemma releaseSlot_cancelExec: "releaseSlot (cancelExec q qm) = cancelExec q (releaseSlot qm)"
  by (cases "mget (qm_ctxErrs qm) q"; cases "qm_slots qm"; cases "0 < qm_used qm")
    (simp_all add: releaseSlot_def cancelExec_def end_context_def)

lemma releaseSlot_acquireSlot: "acquireSlot qm = (True, qm') \<Longrightarrow> releaseSlot qm' = qm"
  by (cases "qm_slots qm") (auto simp: acquireSlot_def releaseSlot_def split: if_splits)

lemma deregister_admit: "admit q db qm = (None, qm') \<Longrightarrow> mget (qm_activeReg qm) q = None \<Longrightarrow> deregister q qm' = qm"
  by (auto simp: admit_def deregister_def mdel_mput_fresh split: if_splits)

lemma slot_returned:
  assumes "acquireSlot qm = (True, qm')"
  shows "releaseSlot (cancelExec q qm') = cancelExec q qm"
    and "admit q db qm' = (None, qm2) \<Longrightarrow> mget (qm_activeReg qm) q = None \<Longrightarrow>
      releaseSlot (cancelExec q (deregister q qm2)) = cancelExec q qm"
  using releaseSlot_acquireSlot [OF assms] acquireSlot_reg [OF assms]
  by (simp_all add: releaseSlot_cancelExec deregister_admit)

lemma acquireSlot_False: "acquireSlot qm = (False, qm') \<Longrightarrow> qm' = qm"
  by (auto simp: acquireSlot_def split: option.splits if_splits)

lemma calm_release_claim: "calm E \<Longrightarrow> (\<And>w'. wd_qm w' = wd_qm w \<Longrightarrow> Q () w') \<Longrightarrow> wp (release_claim ms E opts db key q) Q w"
  by (auto simp: release_claim_def wp_meta split: prod.splits)

lemma calm_start:
  assumes calm: "calm E" and free: "mget (qm_activeReg (wd_qm w)) q = None"
  shows "wp (start_query ms E db sql opts subject q key pool)
    (\<lambda>r w'. \<forall>e. r = Inl e \<longrightarrow> (wd_qm w' = wd_qm w \<or> wd_qm w' = cancelExec q (wd_qm w))) w"
  unfolding start_query_def Let_def
  by (auto simp: wp_access wp_critical wp_meta calm split: option.splits prod.splits
      intro!: calm_release_claim [OF calm] dest!: admit_Some acquireSlot_False)
    (auto dest: slot_returned(1) [where q = q] slot_returned(2) [where q = q and db = db, OF _ _ free])

lemma calm_check: "calm E \<Longrightarrow> wp (check_submit E db sql opts) (\<lambda>_ w'. wd_qm w' = wd_qm w) w"
  unfolding check_submit_def by (auto simp: wp_look split: option.splits sum.splits)

lemma calm_resolve: "calm E \<Longrightarrow> wp (resolveIdempotency ms E ctx db key opts q) (\<lambda>_ w'. wd_qm w' = wd_qm w) w"
  unfolding resolveIdempotency_def Let_def by (auto simp: wp_meta split: prod.splits sum.splits option.splits)

lemma calm_submit:
  assumes calm: "calm E" and free: "mget (qm_activeReg (wd_qm w)) q = None"
  shows "wp (submit_phases ms E ctx db sql opts q)
    (\<lambda>out w'. (\<forall>rec ch. out \<noteq> Started rec ch) \<longrightarrow> (wd_qm w' = wd_qm w \<or> wd_qm w' = cancelExec q (wd_qm w))) w"
proof -
  have start: "wp (start_query ms E db sql opts' subj q key pool)
      (\<lambda>x w'. (\<forall>rec ch. (case x of Inl e \<Rightarrow> Rejected e | Inr (rec, ch) \<Rightarrow> Started rec ch) \<noteq> Started rec ch) \<longrightarrow>
        (wd_qm w' = wd_qm w \<or> wd_qm w' = cancelExec q (wd_qm w))) v"
    if "wd_qm v = wd_qm w" for opts' subj key pool v
    by (rule wp_mono [OF calm_start [OF calm, of v q]]) (use free that in \<open>auto split: sum.splits\<close>)
  have resolve: "wp (resolveIdempotency ms E ctx db key opts' q) Q v"
    if "wd_qm v = wd_qm w" and "\<And>r w'. wd_qm w' = wd_qm w \<Longrightarrow> Q r w'" for key opts' Q v
    by (rule wp_mono [OF calm_resolve [OF calm]]) (use that in auto)
  show ?thesis unfolding submit_phases_def Let_def
    by (simp, rule wp_mono [OF calm_check [OF calm]])
      (auto split: sum.splits option.splits intro!: resolve start)
qed

lemma mem_keys_reliable: "keys_reliable mem_store"
  by (auto simp: keys_reliable_def mem_AcquireIdempotency_def mem_ReleaseIdempotency_def Let_def split: option.splits)

text \<open>
  C15. A submission that does not start a query leaves nothing behind, whatever the other
  goroutines and instances do meanwhile, as long as they do not use its fresh ID: no idempotency
  key is claimed for the ID, it is not in the registry, no goroutine was started for it. And when
  nobody else uses the manager meanwhile, registry, slots and subscriptions are as before.
\<close>

theorem submit_leaves_nothing:
  fixes E :: "('p, mem, 'w) env"
  assumes "spares mem_inv mem_view q E" and "trace_of mem_inv mem_view q {} True w"
    and "run_state (submit_phases mem_store E ctx db sql opts q) w = (out, w')" and "\<forall>rec ch. out \<noteq> Started rec ch"
  shows "(\<forall>k t. v_idem (mem_view (wd_meta w')) t k \<noteq> Some q) \<and> mget (qm_activeReg (wd_qm w')) q = None
    \<and> (\<forall>l \<in> set (wd_runs w'). qr_ID (la_record l) \<noteq> q)
    \<and> (calm E \<longrightarrow> qm_activeReg (wd_qm w') = qm_activeReg (wd_qm w) \<and> qm_used (wd_qm w') = qm_used (wd_qm w)
         \<and> qm_hub (wd_qm w') = qm_hub (wd_qm w))"
proof -
  have "trace_of mem_inv mem_view q {} True w'"
    using mem.submit_clean [OF assms(1) mem_keys_reliable assms(2), of ctx db sql opts] assms(4)
    unfolding wp_run [OF assms(3)] by blast
  then have "(\<forall>k t. v_idem (mem_view (wd_meta w')) t k \<noteq> Some q) \<and> mget (qm_activeReg (wd_qm w')) q = None
      \<and> (\<forall>l \<in> set (wd_runs w'). qr_ID (la_record l) \<noteq> q)"
    by (simp add: trace_of_def)
  moreover have "wd_qm w' = wd_qm w \<or> wd_qm w' = cancelExec q (wd_qm w)" if "calm E"
    using calm_submit [OF that, of w q mem_store ctx db sql opts] assms(2,4)
    unfolding wp_run [OF assms(3)] by (simp add: trace_of_def)
  moreover have "qm_used (cancelExec q qm) = qm_used qm" "qm_hub (cancelExec q qm) = qm_hub qm" for qm :: "'p QueryManager"
    by (simp_all add: cancelExec_def end_context_def split: option.splits)
  ultimately show ?thesis by (auto simp del: split_paired_All)
qed

section \<open>A repeated submission\<close>

definition reads_reliable :: "'s MetaStore \<Rightarrow> bool" where
  "reads_reliable ms \<longleftrightarrow> (\<forall>now i s e. fst (ms_GetQuery ms now i s) = Inl e \<longrightarrow> errors_Is e ErrNotFound)"

text \<open>
  The query \<open>q0\<close> holds the key \<open>k\<close> whenever the clock is read, and its record is \<open>r0\<close>.
\<close>

definition key_in_use ::
  "('s \<Rightarrow> bool) \<Rightarrow> ('s \<Rightarrow> meta_view) \<Rightarrow> ('p, 's, 'w) env \<Rightarrow> string \<Rightarrow> string \<Rightarrow> QueryRecord \<Rightarrow> ('p, 's, 'w) world \<Rightarrow> bool" where
  "key_in_use ok view E k q0 r0 w \<longleftrightarrow>
     ok (wd_meta w) \<and> (\<forall>n. v_idem (view (wd_meta w)) (en_clk E n) k = Some q0) \<and> v_rec (view (wd_meta w)) q0 = Some r0"

definition respects_key ::
  "('s \<Rightarrow> bool) \<Rightarrow> ('s \<Rightarrow> meta_view) \<Rightarrow> ('p, 's, 'w) env \<Rightarrow> string \<Rightarrow> string \<Rightarrow> QueryRecord \<Rightarrow> bool" where
  "respects_key ok view E k q0 r0 \<longleftrightarrow>
     (\<forall>n w. key_in_use ok view E k q0 r0 w \<longrightarrow> key_in_use ok view E k q0 r0 (en_other E n w))"

lemma key_in_use_others: "respects_key ok view E k q0 r0 \<Longrightarrow> key_in_use ok view E k q0 r0 w \<Longrightarrow> key_in_use ok view E k q0 r0 (others E w)"
  unfolding respects_key_def others_def by (simp add: key_in_use_def)

context meta_store
begin

lemma resubmit_resolves:
  assumes "respects_key inv view E (fullKey db key) q0 r0" and "key_in_use inv view E (fullKey db key) q0 r0 w"
    and "keys_reliable ms" and "reads_reliable ms" and "AuthorizeSubject ctx (qr_Subject r0) = None"
  shows "wp (resolveIdempotency ms E ctx db key opts q) (\<lambda>r w'. \<exists>rec. r = Inr (Some rec) \<and> strip_lease rec = r0) w"
proof -
  let ?K = "key_in_use inv view E (fullKey db key) q0 r0"
  have acq: "wp (meta E (\<lambda>now. ms_AcquireIdempotency ms now db key q ttl)) Q v"
    if "?K v" and "\<And>v'. ?K v' \<Longrightarrow> Q (Inr (q0, False)) v'" for ttl Q v
  proof -
    let ?v = "others E v"
    have k: "?K ?v" by (rule key_in_use_others [OF assms(1) that(1)])
    obtain r s where c: "ms_AcquireIdempotency ms (en_clk E (wd_tick v)) db key q ttl (wd_meta ?v) = (r, s)" by fastforce
    then obtain i a where r: "r = Inr (i, a)" using assms(3) unfolding keys_reliable_def by (cases r) (metis fst_conv, auto)
    from acquire [OF _ c] k r have "i = q0 \<and> \<not> a \<and> inv s \<and> view s = view (wd_meta ?v)" by (auto simp: key_in_use_def)
    with k that(2) [of "?v\<lparr>wd_meta := s\<rparr>"] show ?thesis by (simp add: wp_meta c r key_in_use_def)
  qed
  have read: "wp (meta E (\<lambda>now. ms_GetQuery ms now q0)) Q v"
    if "?K v" and "\<And>rec v'. strip_lease rec = r0 \<Longrightarrow> Q (Inr rec) v'" for Q v
  proof -
    let ?v = "others E v"
    have k: "?K ?v" by (rule key_in_use_others [OF assms(1) that(1)])
    obtain r s where c: "ms_GetQuery ms (en_clk E (wd_tick v)) q0 (wd_meta ?v) = (r, s)" by fastforce
    show ?thesis
    proof (cases r)
      case (Inl e)
      with assms(4) c have "errors_Is e ErrNotFound" unfolding reads_reliable_def by (metis fst_conv)
      with get [OF _ c] k Inl show ?thesis by (simp add: key_in_use_def)
    next
      case (Inr rec)
      with get [OF _ c] k have "strip_lease rec = r0" by (simp add: key_in_use_def)
      with that(2) show ?thesis by (simp add: wp_meta c Inr)
    qed
  qed
  have subj: "AuthorizeSubject ctx (qr_Subject rec) = None" if "strip_lease rec = r0" for rec
    using that assms(5) by (metis strip_lease_simps(6))
  show ?thesis unfolding resolveIdempotency_def Let_def
    by (simp, rule acq [OF assms(2)], simp, rule read, assumption, simp add: subj)
qed

end

lemma mem_reads_reliable: "reads_reliable mem_store"
  by (auto simp: reads_reliable_def mem_GetQuery_def errors_Is_def Let_def split: option.splits)

text \<open>Programs that start no goroutine, when the others start none.\<close>

definition starts_none :: "('p, 's, 'w) env \<Rightarrow> bool" where
  "starts_none E \<longleftrightarrow> (\<forall>n w. wd_runs (en_other E n w) = wd_runs w)"

lemma starts_none_others [simp]: "starts_none E \<Longrightarrow> wd_runs (others E w) = wd_runs w"
  by (simp add: starts_none_def others_def)

lemma runs_check: "starts_none E \<Longrightarrow> wp (check_submit E db sql opts) (\<lambda>_ w'. wd_runs w' = wd_runs w) w"
  unfolding check_submit_def by (auto simp: wp_look split: option.splits sum.splits)

lemma runs_resolve: "starts_none E \<Longrightarrow> wp (resolveIdempotency ms E ctx db key opts q) (\<lambda>_ w'. wd_runs w' = wd_runs w) w"
  unfolding resolveIdempotency_def Let_def by (auto simp: wp_meta split: prod.splits sum.splits option.splits)

text \<open>
  C16. Repeating a submission. While the caller's key on this database is held by a query whose
  record exists and is the caller's own, a submission that passes the checks returns exactly that
  record - whether or not the database answers, a slot is free or the instance is draining - and it
  starts nothing and leaves the manager as it was.
\<close>

theorem resubmission_returns_existing:
  fixes E :: "('p, mem, 'w) env"
  assumes "run_state (check_submit E db sql opts) w = (Inr (pool, opts'), w1)" and "opt_IdempotencyKey opts' \<noteq> []"
    and "key_in_use mem_inv mem_view E (fullKey db (scopedIdempotencyKey (SubjectFromContext ctx) (opt_IdempotencyKey opts'))) q0 r0 w1"
    and "respects_key mem_inv mem_view E (fullKey db (scopedIdempotencyKey (SubjectFromContext ctx) (opt_IdempotencyKey opts'))) q0 r0"
    and "AuthorizeSubject ctx (qr_Subject r0) = None"
  shows "\<exists>rec w'. run_state (submit_phases mem_store E ctx db sql opts q) w = (Existing rec, w') \<and> strip_lease rec = r0
    \<and> (calm E \<longrightarrow> wd_qm w' = wd_qm w) \<and> (starts_none E \<longrightarrow> wd_runs w' = wd_runs w)"
proof -
  let ?key = "scopedIdempotencyKey (SubjectFromContext ctx) (opt_IdempotencyKey opts')"
  obtain r w' where r: "run_state (resolveIdempotency mem_store E ctx db ?key opts' q) w1 = (r, w')" by fastforce
  from mem.resubmit_resolves [OF assms(4,3) mem_keys_reliable mem_reads_reliable assms(5), of opts' q]
  obtain rec where rec: "r = Inr (Some rec)" "strip_lease rec = r0" unfolding wp_run [OF r] by blast
  have "run_state (submit_phases mem_store E ctx db sql opts q) w = (Existing rec, w')"
    using assms(2) by (simp add: submit_phases_def Let_def assms(1) r rec)
  moreover have "wd_qm w' = wd_qm w" if "calm E"
    using calm_check [OF that, of db sql opts w] calm_resolve [OF that, of mem_store ctx db ?key opts' q w1]
    unfolding wp_run [OF r] wp_run [OF assms(1)] by simp
  moreover have "wd_runs w' = wd_runs w" if "starts_none E"
    using runs_check [OF that, of db sql opts w] runs_resolve [OF that, of mem_store ctx db ?key opts' q w1]
    unfolding wp_run [OF r] wp_run [OF assms(1)] by simp
  ultimately show ?thesis using rec(2) by blast
qed

section \<open>When a submission is accepted\<close>

text \<open>Nobody else acts.\<close>

definition alone :: "('p, 's, 'w) env \<Rightarrow> bool" where
  "alone E \<longleftrightarrow> (\<forall>n w. en_other E n w = w)"

lemma alone_others: "alone E \<Longrightarrow> others E w = w\<lparr>wd_tick := Suc (wd_tick w)\<rparr>"
  by (simp add: alone_def others_def)

lemma alone_calm: "alone E \<Longrightarrow> calm E" "alone E \<Longrightarrow> starts_none E"
  by (simp_all add: alone_def calm_def starts_none_def)

definition slot_free :: "'p QueryManager \<Rightarrow> bool" where
  "slot_free qm \<longleftrightarrow> (case qm_slots qm of None \<Rightarrow> True | Some n \<Rightarrow> qm_used qm < n)"

text \<open>The checks without side effects, as one condition on the options with their defaults.\<close>

definition acceptable_query :: "('p, 's, 'w) env \<Rightarrow> 'p QueryManager \<Rightarrow> string \<Rightarrow> string \<Rightarrow> QueryOptions \<Rightarrow> bool" where
  "acceptable_query E qm db sql opts \<longleftrightarrow>
     lookupPool db qm \<noteq> None \<and> Validate opts = None \<and>
     (case GetStore (en_stores E) (opt_StorageBackend opts) of Inl _ \<Rightarrow> False | Inr store \<Rightarrow> SupportsFormat store (opt_ResultFormat opts)) \<and>
     (df_AllowWrites (cf_Defaults (qm_cfg qm)) \<or> ReadOnly (en_unicode E) sql = None)"

lemma check_alone:
  assumes "alone E"
  shows "acceptable_query E (wd_qm w) db sql (applyDefaults (wd_qm w) opts) \<Longrightarrow>
      (\<And>w'. w' = w\<lparr>wd_tick := wd_tick w + 3\<rparr> \<Longrightarrow> Q (Inr (the (lookupPool db (wd_qm w)), applyDefaults (wd_qm w) opts)) w') \<Longrightarrow>
      wp (check_submit E db sql opts) Q w"
    and "\<not> acceptable_query E (wd_qm w) db sql (applyDefaults (wd_qm w) opts) \<Longrightarrow>
      (\<And>e w'. Q (Inl e) w') \<Longrightarrow> wp (check_submit E db sql opts) Q w"
  unfolding check_submit_def acceptable_query_def using assms
  by (auto simp: wp_look alone_others eval_nat_numeral split: option.splits sum.splits)

text \<open>What announcing and starting the query leaves, with the record already in the memory store.\<close>

lemma announce_alone:
  assumes "alone E" and "mget (mm_queries (wd_meta w)) (qr_ID rec) = Some (strip_lease rec)"
    and "\<And>ch w'. mget (mm_queries (wd_meta w')) (qr_ID rec) = Some (strip_lease rec) \<Longrightarrow>
      mget (mm_leases (wd_meta w')) (qr_ID rec) \<noteq> None \<Longrightarrow> qm_activeReg (wd_qm w') = qm_activeReg (wd_qm w) \<Longrightarrow>
      qm_used (wd_qm w') = qm_used (wd_qm w) \<Longrightarrow>
      wd_runs w' = wd_runs w @ [\<lparr>la_record = rec, la_pool = pool, la_deadline = dl\<rparr>] \<Longrightarrow> Q ch w'"
  shows "wp (announce_query mem_store E rec pool dl) Q w"
proof -
  have used: "qm_used (qm_notify n ev qm) = qm_used qm" for n ev and qm :: "'a QueryManager"
    by (simp add: qm_notify_def split: option.splits)
  have sub: "subscribe_hub ev qm = (r, qm') \<Longrightarrow> qm_used qm' = qm_used qm \<and> qm_activeReg qm' = qm_activeReg qm"
    for ev r and qm qm' :: "'a QueryManager" by (auto simp: subscribe_hub_def split: option.splits)
  have read: "mem_GetQuery now i m = (r, m') \<Longrightarrow> m' = m" for now i m r m'
    by (auto simp: mem_GetQuery_def split: option.splits)
  show ?thesis unfolding announce_query_def Watch_def using assms(2)
    by (auto simp: wp_access wp_meta wp_critical alone_others [OF assms(1)] mem_Heartbeat_def used
        split: prod.splits sum.splits option.splits intro!: assms(3) dest!: sub read)
qed

lemma start_alone:
  assumes "alone E" and "opt_IdempotencyKey opts = []"
    and "\<not> (en_ping E (wd_tick w) pool = None \<and> slot_free (wd_qm w) \<and> \<not> qm_draining (wd_qm w)) \<Longrightarrow> (\<And>e w'. Q (Inl e) w')"
    and "\<And>rec ch now w'. en_ping E (wd_tick w) pool = None \<Longrightarrow> slot_free (wd_qm w) \<Longrightarrow> \<not> qm_draining (wd_qm w) \<Longrightarrow>
      rec = new_record q db sql opts (qm_instanceID (wd_qm w)) now subject \<Longrightarrow>
      mget (mm_queries (wd_meta w')) q = Some rec \<Longrightarrow> mget (mm_leases (wd_meta w')) q \<noteq> None \<Longrightarrow>
      qm_activeReg (wd_qm w') = mput q db (qm_activeReg (wd_qm w)) \<Longrightarrow>
      qm_used (wd_qm w') = qm_used (wd_qm w) + (if qm_slots (wd_qm w) = None then 0 else 1) \<Longrightarrow>
      (\<exists>dl. wd_runs w' = wd_runs w @ [\<lparr>la_record = rec, la_pool = pool, la_deadline = dl\<rparr>]) \<Longrightarrow> Q (Inr (rec, ch)) w'"
  shows "wp (start_query mem_store E db sql opts subject q key pool) Q w"
proof -
  have st: "strip_lease (new_record q db sql opts i now subject) = new_record q db sql opts i now subject" for i now
    by (simp add: strip_lease_def new_record_def)
  have id: "qr_ID (new_record q db sql opts i now subject) = q" for i now by (simp add: new_record_def)
  have state: "qr_State (new_record q db sql opts i now subject) = StatePending" for i now by (simp add: new_record_def)
  show ?thesis
  proof (cases "en_ping E (wd_tick w) pool = None \<and> slot_free (wd_qm w) \<and> \<not> qm_draining (wd_qm w)")
    case False
    then show ?thesis unfolding start_query_def Let_def release_claim_def using assms(2,3)
      by (auto simp: wp_access wp_critical alone_others [OF assms(1)] slot_free_def acquireSlot_def admit_def
          split: option.splits prod.splits if_splits)
  next
    case True
    then show ?thesis unfolding start_query_def Let_def
      by (auto simp: wp_access wp_critical wp_meta alone_others [OF assms(1)] slot_free_def acquireSlot_def admit_def
          mem_PutQuery_def mem_write_def id st state
          split: option.splits prod.splits if_splits intro!: announce_alone [OF assms(1)] assms(4))
  qed
qed

text \<open>
  C4. Exactly which submissions start a query. Without an idempotency key and without anybody
  else acting, a query is started if and only if the database has a pool, the options with their
  defaults are valid, the result store exists and takes the format, the statement is read-only or
  writes are allowed, the database answers the ping, a slot is free and the instance is not
  draining. Then the record is stored as PENDING under the fresh ID for the caller, with a lease,
  the query is registered, a slot is taken and its goroutine is started; otherwise an error is
  returned.
\<close>

theorem submit_accepts_exactly:
  fixes E :: "('p, mem, 'w) env"
  assumes "alone E" and "opt_IdempotencyKey opts = []"
    and "run_state (submit_phases mem_store E ctx db sql opts q) w = (out, w')"
  defines "opts' \<equiv> applyDefaults (wd_qm w) opts" and "pool \<equiv> the (lookupPool db (wd_qm w))"
  defines "accept \<equiv> acceptable_query E (wd_qm w) db sql opts' \<and> en_ping E (wd_tick w + 3) pool = None
      \<and> slot_free (wd_qm w) \<and> \<not> qm_draining (wd_qm w)"
  shows "(\<not> accept \<longrightarrow> (\<exists>e. out = Rejected e)) \<and>
    (accept \<longrightarrow> (\<exists>rec ch now dl. out = Started rec ch
      \<and> rec = new_record q db sql opts' (qm_instanceID (wd_qm w)) now (SubjectFromContext ctx)
      \<and> mget (mm_queries (wd_meta w')) q = Some rec \<and> mget (mm_leases (wd_meta w')) q \<noteq> None
      \<and> qm_activeReg (wd_qm w') = mput q db (qm_activeReg (wd_qm w))
      \<and> qm_used (wd_qm w') = qm_used (wd_qm w) + (if qm_slots (wd_qm w) = None then 0 else 1)
      \<and> wd_runs w' = wd_runs w @ [\<lparr>la_record = rec, la_pool = pool, la_deadline = dl\<rparr>]))" (is "?Post out w'")
proof -
  have key: "opt_IdempotencyKey opts' = []" using assms(2) by (simp add: opts'_def applyDefaults_def)
  have "wp (submit_phases mem_store E ctx db sql opts q) ?Post w"
  proof (cases "acceptable_query E (wd_qm w) db sql opts'")
    case False
    show ?thesis unfolding submit_phases_def
      by (subst wp_bind, rule check_alone(2) [OF assms(1) False [unfolded opts'_def]]) (simp add: accept_def False)
  next
    case True
    have start: "wp (start_query mem_store E db sql opts' (SubjectFromContext ctx) q k pool)
        (\<lambda>x. ?Post (case x of Inl e \<Rightarrow> Rejected e | Inr (rec, ch) \<Rightarrow> Started rec ch)) (w\<lparr>wd_tick := wd_tick w + 3\<rparr>)" for k
      by (rule start_alone [OF assms(1) key]) (auto simp: accept_def True)
    show ?thesis unfolding submit_phases_def
      by (subst wp_bind, rule check_alone(1) [OF assms(1) True [unfolded opts'_def]])
        (use key start in \<open>simp add: Let_def opts'_def [symmetric] pool_def [symmetric]\<close>)
  qed
  then show ?thesis unfolding wp_run [OF assms(3)] .
qed

section \<open>An instance with one database\<close>

text \<open>A result store that keeps one result, and the environment of an instance that nobody else disturbs.\<close>

definition sample_ref :: ResultRef where
  "sample_ref = \<lparr>ref_Backend = ''fs'', ref_Locator = ''q'', ref_SizeBytes = 0, ref_RowCount = 0, ref_Format = ''jsonl'',
     ref_Checksum = []\<rparr>"

definition sample_store :: "string ResultStore" where
  "sample_store = \<lparr>rs_Writer = (\<lambda>q fmt w. (Inr (0, sample_ref), [])), rs_Write = (\<lambda>h p w. ((length p, None), w @ p)),
     rs_CloseWriter = (\<lambda>h w. (None, w)), rs_Reader = (\<lambda>ref w. (Inr 0, w)), rs_Read = (\<lambda>h n w. ((w, None), w)),
     rs_CloseReader = (\<lambda>h w. (None, w)), rs_Stat = (\<lambda>ref w. (Inr ref, w)), rs_Delete = (\<lambda>ref w. (None, [])),
     rs_SupportsFormat = None\<rparr>"

definition sample_env :: "(nat, mem, string) env" where
  "sample_env = \<lparr>en_clk = (\<lambda>n. 1000 + int n), en_other = (\<lambda>n w. w), en_drained = (\<lambda>n. 0), en_uuid = (\<lambda>n. ''q2''),
     en_ping = (\<lambda>n p. None),
     en_exec = (\<lambda>n p sql. Inr \<lparr>rw_columns = Inr [''id''], rw_rows = [Inr [VInt64 7]], rw_err = None\<rparr>),
     en_stores = [(''fs'', sample_store)],
     en_unicode = \<lparr>tbl_Letter = (\<lambda>r. False), tbl_Digit = (\<lambda>r. False), tbl_Upper = (\<lambda>r. r)\<rparr>,
     en_formats = plain_formats, en_sha256 = (\<lambda>s. ''00''), en_parquet = sample_lib, en_writer = (\<lambda>n. True)\<rparr>"

definition sample_world :: "(nat, mem, string) world" where
  "sample_world = \<lparr>wd_qm = sample_qm\<lparr>qm_dbPools := [(''main'', \<lparr>mp_pool = 1, mp_cfg = sample_database\<rparr>)]\<rparr>,
     wd_meta = NewMemoryMetaStore, wd_data = [], wd_runs = [], wd_tick = 0\<rparr>"

lemma alone_sample: "alone sample_env"
  by (simp add: alone_def sample_env_def)

lemma sample_acceptable:
  "acceptable_query sample_env (wd_qm sample_world) ''main'' ''select 1''
     (applyDefaults (wd_qm sample_world) (sample_options\<lparr>opt_IdempotencyKey := []\<rparr>))"
  "acceptable_query sample_env (wd_qm sample_world) ''main'' ''select 1'' (applyDefaults (wd_qm sample_world) sample_options)"
  by code_simp+

theorem submit_accepts_exactly_witness:
  "\<exists>rec ch. fst (run_state (submit_phases mem_store sample_env None ''main'' ''select 1''
      (sample_options\<lparr>opt_IdempotencyKey := []\<rparr>) ''q2'') sample_world) = Started rec ch \<and> qr_State rec = StatePending"
proof -
  let ?p = "submit_phases mem_store sample_env None ''main'' ''select 1'' (sample_options\<lparr>opt_IdempotencyKey := []\<rparr>) ''q2''"
  obtain out w' where r: "run_state ?p sample_world = (out, w')" by fastforce
  have "slot_free (wd_qm sample_world)" "\<not> qm_draining (wd_qm sample_world)"
    by (simp_all add: slot_free_def sample_world_def sample_qm_def)
  moreover have "en_ping sample_env n p = None" for n p by (simp add: sample_env_def)
  ultimately show ?thesis using submit_accepts_exactly [OF alone_sample _ r] sample_acceptable(1)
    by (auto simp: r new_record_def)
qed

text \<open>A submission to an instance that drains is turned down.\<close>

definition draining_world :: "(nat, mem, string) world" where
  "draining_world = sample_world\<lparr>wd_qm := Drain (wd_qm sample_world)\<rparr>"

lemma draining_rejected:
  "fst (run_state (submit_phases mem_store sample_env None ''main'' ''select 1'' sample_options ''q2'') draining_world)
     = Rejected DrainingError"
  by code_simp

lemma new_mem_view: "v_idem (mem_view NewMemoryMetaStore) t k = None"
  by (simp add: mem_view_def key_holder_def NewMemoryMetaStore_def)

theorem submit_leaves_nothing_witness:
  "v_idem (mem_view (wd_meta (snd (run_state (submit_phases mem_store sample_env None ''main'' ''select 1''
      sample_options ''q2'') draining_world)))) 1000 (fullKey ''main'' ''k'') \<noteq> Some ''q2''"
proof -
  let ?p = "submit_phases mem_store sample_env None ''main'' ''select 1'' sample_options ''q2''"
  obtain out w' where r: "run_state ?p draining_world = (out, w')" by fastforce
  have out: "\<forall>rec ch. out \<noteq> Started rec ch" using draining_rejected r by simp
  have sp: "spares mem_inv mem_view ''q2'' sample_env" by (simp add: spares_def sample_env_def)
  have t: "trace_of mem_inv mem_view ''q2'' {} True draining_world"
    by (simp add: trace_of_def draining_world_def sample_world_def sample_qm_def Drain_def mem_inv_new new_mem_view)
  show ?thesis using submit_leaves_nothing [OF sp t r out] r by simp
qed

text \<open>The key of a submission by \<open>alice\<close> is held by her running query \<open>q1\<close>.\<close>

definition alice :: Context where
  "alice = Some \<lparr>id_Subject = ''alice'', id_Scopes = [ScopeWrite]\<rparr>"

definition busy_mem :: mem where
  "busy_mem = snd (mem_AcquireIdempotency 900 ''main'' (scopedIdempotencyKey ''alice'' ''k'') ''q1'' Hour
     (mem_write sample_record NewMemoryMetaStore))"

lemma busy_mem:
  "mem_inv busy_mem" "t < 900 + Hour \<Longrightarrow> v_idem (mem_view busy_mem) t (fullKey ''main'' (scopedIdempotencyKey ''alice'' ''k'')) = Some ''q1''"
  "v_rec (mem_view busy_mem) ''q1'' = Some sample_record"
proof -
  have inv: "mem_inv (mem_write sample_record NewMemoryMetaStore)" by (simp add: mem_write_inv mem_inv_new)
  have view: "v_idem (mem_view (mem_write sample_record NewMemoryMetaStore)) t k = None" for t k
    by (simp add: mem_view_def key_holder_def mem_write_def NewMemoryMetaStore_def Let_def sample_record_def)
  let ?a = "mem_AcquireIdempotency 900 ''main'' (scopedIdempotencyKey ''alice'' ''k'') ''q1'' Hour (mem_write sample_record NewMemoryMetaStore)"
  have a: "?a = (Inr (''q1'', True), busy_mem)"
    by (simp add: busy_mem_def mem_AcquireIdempotency_def Let_def mem_write_def NewMemoryMetaStore_def sample_record_def)
  have e: "mem_inv busy_mem \<and> mem_view busy_mem = hold_view (fullKey ''main'' (scopedIdempotencyKey ''alice'' ''k'')) ''q1''
      (time_Add 900 Hour) (mem_view (mem_write sample_record NewMemoryMetaStore))"
    using mem.acquire [OF inv, of 900] a by fastforce
  then show "mem_inv busy_mem" by simp
  show "t < 900 + Hour \<Longrightarrow> v_idem (mem_view busy_mem) t (fullKey ''main'' (scopedIdempotencyKey ''alice'' ''k'')) = Some ''q1''"
    using e by (simp add: time_Add_def)
  show "v_rec (mem_view busy_mem) ''q1'' = Some sample_record"
    using e by (simp add: mem_view_def mem_write_def NewMemoryMetaStore_def Let_def sample_record_def strip_lease_def)
qed

definition still_env :: "(nat, mem, string) env" where
  "still_env = sample_env\<lparr>en_clk := (\<lambda>n. 1000)\<rparr>"

definition busy_world :: "(nat, mem, string) world" where
  "busy_world = draining_world\<lparr>wd_meta := busy_mem\<rparr>"

lemma busy_check:
  "fst (run_state (check_submit still_env ''main'' ''select 1'' sample_options) busy_world) = Inr (1, sample_options)"
  "snd (run_state (check_submit still_env ''main'' ''select 1'' sample_options) busy_world) = busy_world\<lparr>wd_tick := 3\<rparr>"
  by code_simp+

theorem resubmission_returns_existing_witness:
  "\<exists>rec w'. run_state (submit_phases mem_store still_env alice ''main'' ''select 1'' sample_options ''q2'') busy_world
      = (Existing rec, w') \<and> qr_ID rec = ''q1''"
proof -
  let ?k = "fullKey ''main'' (scopedIdempotencyKey (SubjectFromContext alice) (opt_IdempotencyKey sample_options))"
  have k: "?k = fullKey ''main'' (scopedIdempotencyKey ''alice'' ''k'')"
    by (simp add: alice_def SubjectFromContext_def FromContext_def sample_options_def)
  have c: "run_state (check_submit still_env ''main'' ''select 1'' sample_options) busy_world
      = (Inr (1, sample_options), busy_world\<lparr>wd_tick := 3\<rparr>)"
    using busy_check by (metis prod.collapse)
  have u: "key_in_use mem_inv mem_view still_env ?k ''q1'' sample_record (busy_world\<lparr>wd_tick := 3\<rparr>)"
  proof -
    have "v_idem (mem_view busy_mem) 1000 ?k = Some ''q1''" unfolding k by (rule busy_mem(2)) (simp add: dur_defs)
    moreover have "en_clk still_env n = 1000" for n by (simp add: still_env_def)
    moreover have "wd_meta (busy_world\<lparr>wd_tick := 3\<rparr>) = busy_mem" by (simp add: busy_world_def)
    ultimately show ?thesis unfolding key_in_use_def using busy_mem(1,3) by metis
  qed
  have r: "respects_key mem_inv mem_view still_env ?k ''q1'' sample_record"
    by (simp add: respects_key_def still_env_def sample_env_def)
  have n: "opt_IdempotencyKey sample_options \<noteq> []" by (simp add: sample_options_def)
  have a: "AuthorizeSubject alice (qr_Subject sample_record) = None"
    by (simp add: AuthorizeSubject_def alice_def FromContext_def sample_record_def)
  from resubmission_returns_existing [OF c n u r a, of "''q2''"] show ?thesis
    by (metis strip_lease_simps(1) sample_record_def QueryRecord.select_convs(1))
qed

end
