(* ===== verification/Run.thy ===== *)
theory Run
  imports Submit
begin

text \<open>
  Executing a query, \<^verbatim>\<open>internal/core/manager/manager.go\<close>: \<^verbatim>\<open>run\<close> with \<^verbatim>\<open>progressReporter\<close>,
  \<^verbatim>\<open>terminalFor\<close>, \<^verbatim>\<open>backendErrorMessage\<close>, \<^verbatim>\<open>finishRun\<close>, \<^verbatim>\<open>complete\<close>, \<^verbatim>\<open>persist\<close> and
  \<^verbatim>\<open>deletePartial\<close>.

  The \<^verbatim>\<open>*QueryRecord\<close> the goroutine owns is a value that the functions return changed. The encoder
  of theory \<open>Encoder\<close> runs on a state of its own here: the world, the record, the bytes hashed so
  far and the mailbox of the progress writer. The progress writer is a goroutine: \<open>en_writer E n\<close>
  says whether it takes its next step - receive a snapshot or write the one it has - at the \<open>n\<close>-th
  access.
\<close>

section \<open>Terminal states\<close>

definition backendErrorMessage :: "QueryErrorCode \<Rightarrow> string" where
  "backendErrorMessage code =
     (case code of
        ErrCodeDBExecFailed \<Rightarrow> ''the database driver failed to execute the query''
      | ErrCodeStorageInitFailed \<Rightarrow> ''the result storage backend failed to initialize''
      | ErrCodeStorageWriterFailed \<Rightarrow> ''the result storage backend failed to open a writer''
      | ErrCodeStreamEncodeFailed \<Rightarrow> ''encoding the result stream failed''
      | ErrCodeStorageFinalizeFailed \<Rightarrow> ''the result storage backend failed to finalize the result''
      | _ \<Rightarrow> ''the query failed'')"

definition opt_Is :: "go_error option \<Rightarrow> go_error \<Rightarrow> bool" where
  "opt_Is e target = (case e of None \<Rightarrow> False | Some e \<Rightarrow> errors_Is e target)"

definition terminalFor :: "go_error option \<Rightarrow> go_error \<Rightarrow> QueryErrorCode \<Rightarrow> QueryState \<times> QueryError option" where
  "terminalFor ctxErr err fallback =
     (if errors_Is err Canceled \<or> opt_Is ctxErr Canceled then (StateCanceled, None)
      else if errors_Is err DeadlineExceeded \<or> opt_Is ctxErr DeadlineExceeded
        then (StateFailed, Some (NewQueryError ErrCodeQueryTimeout ''query exceeded its timeout'' True))
      else (StateFailed, Some (NewQueryError fallback (backendErrorMessage fallback) False)))"

definition ctxErr :: "string \<Rightarrow> 'p QueryManager \<Rightarrow> go_error option" where
  "ctxErr queryID qm = mget (qm_ctxErrs qm) queryID"

section \<open>Recording the outcome\<close>

fun persist :: "'s MetaStore \<Rightarrow> ('p, 's, 'w) env \<Rightarrow> QueryRecord \<Rightarrow> nat \<Rightarrow> ('p, 's, 'w, go_error option) prog" where
  "persist ms E rec 0 = ret None"
| "persist ms E rec (Suc n) = do {
     e \<leftarrow> meta E (\<lambda>now. ms_PutQuery ms now rec);
     case e of
       None \<Rightarrow> ret None
     | Some lastErr \<Rightarrow>
         if n = 0 then ret (Some lastErr)
         else do {
           done \<leftarrow> look E qm_ctxDone;
           if done then ret (Some lastErr) else persist ms E rec n
         }
   }"

definition complete :: "'s MetaStore \<Rightarrow> ('p, 's, 'w) env \<Rightarrow> QueryRecord \<Rightarrow> QueryState \<Rightarrow> ('p, 's, 'w, bool \<times> QueryRecord) prog" where
  "complete ms E rec st =
     (if \<not> CanTransitionTo (qr_State rec) st then ret (False, rec)
      else do {
        now \<leftarrow> Now E;
        let rec = rec\<lparr>qr_State := st, qr_FinishedAt := now\<rparr>;
        _ \<leftarrow> persist ms E rec terminalPersistAttempts;
        _ \<leftarrow> (if qr_IdempotencyKey rec \<noteq> [] \<and> opt_ResultTTL (qr_Options rec) > 0
             then meta E (\<lambda>now. ms_RefreshIdempotency ms now (qr_DatabaseID rec)
                    (scopedIdempotencyKey (qr_Subject rec) (qr_IdempotencyKey rec)) (qr_ID rec) (opt_ResultTTL (qr_Options rec)))
             else ret None);
        notify E \<lparr>ev_QueryID = qr_ID rec, ev_State = st, ev_Stats = qr_Stats rec, ev_Error = qr_Error rec\<rparr>;
        ret (True, rec)
      })"

definition finishRun ::
  "'s MetaStore \<Rightarrow> ('p, 's, 'w) env \<Rightarrow> QueryRecord \<Rightarrow> QueryState \<Rightarrow> QueryError option \<Rightarrow> duration \<Rightarrow> duration \<Rightarrow>
   ('p, 's, 'w, QueryRecord) prog" where
  "finishRun ms E rec st qErr dbDur storeDur = do {
     let rec = rec\<lparr>qr_Error := qErr,
                   qr_Stats := (qr_Stats rec)\<lparr>st_DBExecDuration := dbDur, st_StorageWriteDuration := storeDur\<rparr>\<rparr>;
     rec \<leftarrow> (if st_TotalDuration (qr_Stats rec) = 0
            then do {
              now \<leftarrow> Now E;
              ret (rec\<lparr>qr_Stats := (qr_Stats rec)\<lparr>st_TotalDuration := time_Sub now (qr_CreatedAt rec)\<rparr>\<rparr>)
            }
            else ret rec);
     (_, rec) \<leftarrow> complete ms E rec st;
     ret rec
   }"

definition deletePartial :: "('p, 's, 'w) env \<Rightarrow> 'w ResultStore \<Rightarrow> ResultRef \<Rightarrow> ('p, 's, 'w, unit) prog" where
  "deletePartial E store ref = do { _ \<leftarrow> data E (rs_Delete store ref); ret () }"

section \<open>Progress\<close>

text \<open>
  What the encoding acts on. \<open>rn_mail\<close> is the single slot of the channel \<^verbatim>\<open>updates\<close>, \<open>rn_snap\<close>
  the snapshot the writer goroutine has received and not yet written, \<open>rn_lost\<close> the flag \<^verbatim>\<open>lost\<close>,
  which also says that the goroutine has returned.
\<close>

record ('p, 's, 'w) running =
  rn_world :: "('p, 's, 'w) world"
  rn_record :: QueryRecord
  rn_hashed :: string
  rn_last :: time
  rn_lost :: bool
  rn_mail :: "QueryRecord option"
  rn_snap :: "QueryRecord option"

definition on_world :: "('p, 's, 'w, 'a) prog \<Rightarrow> ('p, 's, 'w) running \<Rightarrow> 'a \<times> ('p, 's, 'w) running" where
  "on_world m x = (let (r, w) = run_state m (rn_world x) in (r, x\<lparr>rn_world := w\<rparr>))"

definition write_progress :: "'s MetaStore \<Rightarrow> ('p, 's, 'w) env \<Rightarrow> ('p, 's, 'w) running \<Rightarrow> ('p, 's, 'w) running" where
  "write_progress ms E x =
     (case rn_snap x of
        None \<Rightarrow> x
      | Some snapshot \<Rightarrow>
          (let (r, x) = on_world (meta E (\<lambda>now. ms_UpdateQueryIfState ms now snapshot [StateRunning])) x in
           x\<lparr>rn_snap := None, rn_lost := (rn_lost x \<or> r = Inr False)\<rparr>))"

definition receive_progress :: "('p, 's, 'w) running \<Rightarrow> ('p, 's, 'w) running" where
  "receive_progress x = (if rn_lost x then x else x\<lparr>rn_snap := rn_mail x, rn_mail := None\<rparr>)"

definition writer_step :: "'s MetaStore \<Rightarrow> ('p, 's, 'w) env \<Rightarrow> ('p, 's, 'w) running \<Rightarrow> ('p, 's, 'w) running" where
  "writer_step ms E x =
     (if en_writer E (wd_tick (rn_world x))
      then (if rn_snap x \<noteq> None then write_progress ms E x else receive_progress x)
      else x)"

text \<open>The callback \<^verbatim>\<open>report\<close>.\<close>

definition progress_report :: "('p, 's, 'w) env \<Rightarrow> int \<Rightarrow> int \<Rightarrow> ('p, 's, 'w) running \<Rightarrow> ('p, 's, 'w) running" where
  "progress_report E rows bytes x =
     (if rn_lost x then x
      else
        let (t, x) = on_world (Now E) x in
        if time_Sub t (rn_last x) < progressPersistInterval then x
        else
          let (last, x) = on_world (Now E) x;
              (now, x) = on_world (Now E) x;
              rec = (rn_record x)\<lparr>qr_Stats := (qr_Stats (rn_record x))
                      \<lparr>st_RowsRead := rows, st_BytesWritten := bytes,
                       st_TotalDuration := time_Sub now (qr_CreatedAt (rn_record x))\<rparr>\<rparr>;
              x = x\<lparr>rn_last := last, rn_record := rec,
                    rn_mail := (case rn_mail x of None \<Rightarrow> Some rec | Some old \<Rightarrow> Some old)\<rparr>;
              (_, x) = on_world (notify E \<lparr>ev_QueryID = qr_ID rec, ev_State = qr_State rec,
                                            ev_Stats = qr_Stats rec, ev_Error = None\<rparr>) x in
          x)"

text \<open>The function \<^verbatim>\<open>stop\<close>: the writer finishes what it has and what is in the mailbox.\<close>

definition stop_reporting :: "'s MetaStore \<Rightarrow> ('p, 's, 'w) env \<Rightarrow> ('p, 's, 'w) running \<Rightarrow> ('p, 's, 'w) running" where
  "stop_reporting ms E x = write_progress ms E (receive_progress (write_progress ms E x))"

section \<open>Running a query\<close>

text \<open>
  The environment of the encoder: rows arrive and the context is checked, bytes go through
  \<^verbatim>\<open>io.MultiWriter(writer, hasher)\<close> - the hash sees what the writer has taken completely.
\<close>

definition run_write ::
  "('p, 's, 'w) env \<Rightarrow> 'w ResultStore \<Rightarrow> nat \<Rightarrow> string \<Rightarrow> ('p, 's, 'w) running \<Rightarrow> (nat \<times> go_error option) \<times> ('p, 's, 'w) running" where
  "run_write E store h p x =
     (let ((n, e), x) = on_world (data E (rs_Write store h p)) x in
      case e of
        Some e \<Rightarrow> ((n, Some e), x)
      | None \<Rightarrow> if n \<noteq> length p then ((n, Some (ErrorString ''short write'')), x)
                else ((n, None), x\<lparr>rn_hashed := rn_hashed x @ p\<rparr>))"

definition run_enc_env ::
  "'s MetaStore \<Rightarrow> ('p, 's, 'w) env \<Rightarrow> 'w ResultStore \<Rightarrow> nat \<Rightarrow> string \<Rightarrow> ('p, 's, 'w) running enc_env" where
  "run_enc_env ms E store h queryID =
     \<lparr>ee_now = (\<lambda>x. on_world (Now E) x),
      ee_write = run_write E store h,
      ee_progress = (\<lambda>rows bytes x. progress_report E rows bytes (writer_step ms E x)),
      ee_done = (\<lambda>x. on_world (look E (ctxErr queryID)) (writer_step ms E x))\<rparr>"

text \<open>
  Streaming the rows into the writer: \<^verbatim>\<open>EncodeStream\<close> and the end of the reports. The result
  is what \<^verbatim>\<open>EncodeStream\<close> returns, the record with its statistics and the hashed bytes.
\<close>

definition stream_rows ::
  "'s MetaStore \<Rightarrow> ('p, 's, 'w) env \<Rightarrow> 'w ResultStore \<Rightarrow> nat \<Rightarrow> QueryRecord \<Rightarrow> row_stream \<Rightarrow>
   ('p, 's, 'w, (int \<times> int \<times> go_error option) \<times> QueryRecord \<times> string) prog" where
  "stream_rows ms E store h rec rows = State (\<lambda>w.
     let x = \<lparr>rn_world = w, rn_record = rec, rn_hashed = [], rn_last = 0, rn_lost = False, rn_mail = None, rn_snap = None\<rparr>;
         (r, x) = EncodeStream (en_formats E) (run_enc_env ms E store h (qr_ID rec))
                    (encodeParquet (en_formats E) (run_enc_env ms E store h (qr_ID rec)) (en_parquet E) (rw_err rows))
                    (rw_columns rows) (rw_rows rows) (rw_err rows) (opt_ResultFormat (qr_Options rec)) x;
         x = stop_reporting ms E x in
     ((r, rn_record x, rn_hashed x), rn_world x))"

text \<open>After the writer is closed: a failure of the stream or of the close, or the success.\<close>

definition conclude ::
  "'s MetaStore \<Rightarrow> ('p, 's, 'w) env \<Rightarrow> 'w ResultStore \<Rightarrow> ResultRef \<Rightarrow> QueryRecord \<Rightarrow> int \<times> int \<times> go_error option \<Rightarrow> string \<Rightarrow>
   go_error option \<Rightarrow> time \<Rightarrow> duration \<Rightarrow> duration \<Rightarrow> ('p, 's, 'w, QueryRecord) prog" where
  "conclude ms E store ref rec res hashed closeErr startTime dbDur storeDur =
     (let (rowsCount, bytesWritten, encErr) = res in
      case (case encErr of Some e \<Rightarrow> Some (e, ErrCodeStreamEncodeFailed)
            | None \<Rightarrow> map_option (\<lambda>e. (e, ErrCodeStorageFinalizeFailed)) closeErr) of
        Some (err, code) \<Rightarrow> do {
          deletePartial E store ref;
          ctx \<leftarrow> look E (ctxErr (qr_ID rec));
          let (st, qErr) = terminalFor ctx err code;
          finishRun ms E rec st qErr dbDur storeDur
        }
      | None \<Rightarrow> do {
          end \<leftarrow> Now E;
          let ref = ref\<lparr>ref_SizeBytes := bytesWritten, ref_RowCount := rowsCount,
                        ref_Checksum := ''sha256:'' @ en_sha256 E hashed\<rparr>;
          let rec = rec\<lparr>qr_Result := Some ref, qr_Stats := (qr_Stats rec)
                      \<lparr>st_RowsRead := rowsCount, st_BytesWritten := bytesWritten,
                       st_TotalDuration := time_Sub end startTime\<rparr>\<rparr>;
          finishRun ms E rec StateSucceeded None dbDur storeDur
        })"

definition write_result ::
  "'s MetaStore \<Rightarrow> ('p, 's, 'w) env \<Rightarrow> 'w ResultStore \<Rightarrow> nat \<Rightarrow> ResultRef \<Rightarrow> QueryRecord \<Rightarrow> row_stream \<Rightarrow> time \<Rightarrow> duration \<Rightarrow>
   ('p, 's, 'w, QueryRecord) prog" where
  "write_result ms E store h ref rec rows startTime dbDur = do {
     storeStart \<leftarrow> Now E;
     (res, rec, hashed) \<leftarrow> stream_rows ms E store h rec rows;
     closeErr \<leftarrow> data E (rs_CloseWriter store h);
     storeEnd \<leftarrow> Now E;
     conclude ms E store ref rec res hashed closeErr startTime dbDur (time_Sub storeEnd storeStart)
   }"

definition store_result ::
  "'s MetaStore \<Rightarrow> ('p, 's, 'w) env \<Rightarrow> QueryRecord \<Rightarrow> row_stream \<Rightarrow> time \<Rightarrow> duration \<Rightarrow> ('p, 's, 'w, QueryRecord) prog" where
  "store_result ms E rec rows startTime dbDur =
     (case GetStore (en_stores E) (opt_StorageBackend (qr_Options rec)) of
        Inl _ \<Rightarrow> finishRun ms E rec StateFailed
          (Some (NewQueryError ErrCodeStorageInitFailed (backendErrorMessage ErrCodeStorageInitFailed) False)) dbDur 0
      | Inr store \<Rightarrow> do {
          opened \<leftarrow> data E (rs_Writer store (qr_ID rec) (opt_ResultFormat (qr_Options rec)));
          case opened of
            Inl _ \<Rightarrow> finishRun ms E rec StateFailed
              (Some (NewQueryError ErrCodeStorageWriterFailed (backendErrorMessage ErrCodeStorageWriterFailed) False)) dbDur 0
          | Inr (h, ref) \<Rightarrow> write_result ms E store h ref rec rows startTime dbDur
        })"

definition after_exec ::
  "'s MetaStore \<Rightarrow> ('p, 's, 'w) env \<Rightarrow> QueryRecord \<Rightarrow> go_error + row_stream \<Rightarrow> time \<Rightarrow> duration \<Rightarrow> ('p, 's, 'w, QueryRecord) prog" where
  "after_exec ms E rec rows startTime dbDur =
     (case rows of
        Inl err \<Rightarrow> do {
          ctx \<leftarrow> look E (ctxErr (qr_ID rec));
          let (st, qErr) = terminalFor ctx err ErrCodeDBExecFailed;
          finishRun ms E rec st qErr dbDur 0
        }
      | Inr rows \<Rightarrow> store_result ms E rec rows startTime dbDur)"

text \<open>The body of \<^verbatim>\<open>run\<close>, and \<^verbatim>\<open>run\<close> with its deferred calls. The result is the record at its end.\<close>

definition run_body :: "'s MetaStore \<Rightarrow> ('p, 's, 'w) env \<Rightarrow> 'p launch \<Rightarrow> ('p, 's, 'w, QueryRecord) prog" where
  "run_body ms E l = do {
     startTime \<leftarrow> Now E;
     let rec = la_record l;
     if \<not> CanTransitionTo (qr_State rec) StateRunning then ret rec
     else do {
       let rec = rec\<lparr>qr_State := StateRunning, qr_StartedAt := startTime\<rparr>;
       _ \<leftarrow> persist ms E rec terminalPersistAttempts;
       notify E (state_event (qr_ID rec) StateRunning);
       dbStart \<leftarrow> Now E;
       rows \<leftarrow> ask E (\<lambda>n. en_exec E n (la_pool l) (qr_SQL rec));
       dbEnd \<leftarrow> Now E;
       after_exec ms E rec rows startTime (time_Sub dbEnd dbStart)
     }
   }"

definition run :: "'s MetaStore \<Rightarrow> ('p, 's, 'w) env \<Rightarrow> 'p launch \<Rightarrow> ('p, 's, 'w, QueryRecord) prog" where
  "run ms E l = do {
     rec \<leftarrow> run_body ms E l;
     act E (deregister (qr_ID (la_record l)));
     act E releaseSlot;
     act E (cancelExec (qr_ID (la_record l)));
     ret rec
   }"

section \<open>What streaming the rows does\<close>

lemma on_world_simps [simp]:
  "rn_record (snd (on_world m x)) = rn_record x" "rn_hashed (snd (on_world m x)) = rn_hashed x"
  "rn_lost (snd (on_world m x)) = rn_lost x" "rn_mail (snd (on_world m x)) = rn_mail x"
  "rn_snap (snd (on_world m x)) = rn_snap x" "rn_last (snd (on_world m x)) = rn_last x"
  by (simp_all add: on_world_def Let_def split: prod.splits)

lemma on_worldD:
  "on_world m x = (r, x') \<Longrightarrow> rn_record x' = rn_record x \<and> rn_hashed x' = rn_hashed x"
  by (metis on_world_simps(1,2) snd_conv)

text \<open>The writer goroutine and the reports touch neither the hash nor, but for its statistics, the record.\<close>

lemma write_progress_simps [simp]:
  "rn_record (write_progress ms E x) = rn_record x" "rn_hashed (write_progress ms E x) = rn_hashed x"
  by (auto simp: write_progress_def Let_def split: prod.splits option.splits dest: on_worldD)

lemma receive_progress_simps [simp]:
  "rn_record (receive_progress x) = rn_record x" "rn_hashed (receive_progress x) = rn_hashed x"
  by (simp_all add: receive_progress_def)

lemma writer_step_simps [simp]:
  "rn_record (writer_step ms E x) = rn_record x" "rn_hashed (writer_step ms E x) = rn_hashed x"
  by (simp_all add: writer_step_def)

lemma stop_reporting_simps [simp]:
  "rn_record (stop_reporting ms E x) = rn_record x" "rn_hashed (stop_reporting ms E x) = rn_hashed x"
  by (simp_all add: stop_reporting_def)

lemma progress_report_hashed [simp]: "rn_hashed (progress_report E n b x) = rn_hashed x"
  by (simp add: progress_report_def Let_def split: prod.splits) (auto dest!: on_worldD)

definition same_job :: "QueryRecord \<Rightarrow> QueryRecord \<Rightarrow> bool" where
  "same_job r r' \<longleftrightarrow> (\<exists>s. r' = r\<lparr>qr_Stats := s\<rparr>)"

lemma same_job_refl [simp]: "same_job r r"
  by (auto simp: same_job_def intro: exI [of _ "qr_Stats r"])

lemma same_job_stats: "same_job r r' \<Longrightarrow> same_job r (r'\<lparr>qr_Stats := s\<rparr>)"
  by (auto simp: same_job_def)

lemma progress_report_record: "same_job rec (rn_record x) \<Longrightarrow> same_job rec (rn_record (progress_report E n b x))"
  by (auto simp: progress_report_def Let_def split: prod.splits dest!: on_worldD intro!: same_job_stats)

lemma run_writeD:
  "run_write E store h p x = ((n, e), x') \<Longrightarrow> rn_record x' = rn_record x \<and>
     (e = None \<longrightarrow> n = length p \<and> rn_hashed x' = rn_hashed x @ p \<and> (\<exists>d. fst (rs_Write store h p d) = (length p, None))) \<and>
     (e \<noteq> None \<longrightarrow> rn_hashed x' = rn_hashed x)"
proof -
  assume a: "run_write E store h p x = ((n, e), x')"
  let ?w = "others E (rn_world x)"
  obtain m f d' where d: "rs_Write store h p (wd_data ?w) = ((m, f), d')" by (metis surj_pair)
  then have "(m, f) = (length p, None) \<Longrightarrow> \<exists>d. fst (rs_Write store h p d) = (length p, None)" by (metis fst_conv)
  with a d show ?thesis
    by (auto simp: run_write_def on_world_def data_def atomically_def Let_def split: option.splits if_splits)
qed

text \<open>The bytes the store has taken of a writer, write by write.\<close>

definition accepted :: "'w ResultStore \<Rightarrow> nat \<Rightarrow> string \<Rightarrow> bool" where
  "accepted store h tx \<longleftrightarrow> (\<exists>ps. concat ps = tx \<and> (\<forall>p \<in> set ps. \<exists>d. fst (rs_Write store h p d) = (length p, None)))"

lemma accepted_Nil [simp]: "accepted store h []"
  by (auto simp: accepted_def intro: exI [of _ "[]"])

lemma accepted_append: "accepted store h tx \<Longrightarrow> fst (rs_Write store h p d) = (length p, None) \<Longrightarrow> accepted store h (tx @ p)"
  unfolding accepted_def by (elim exE conjE) (rule exI [of _ "ps @ [p]" for ps], auto)

interpretation job: surroundings "run_enc_env ms E store h q"
  "\<lambda>x. same_job rec (rn_record x) \<and> accepted store h (rn_hashed x)" for ms E store h q rec
proof unfold_locales
  fix p x r x' assume "ee_write (run_enc_env ms E store h q) p x = (r, x')"
    "same_job rec (rn_record x) \<and> accepted store h (rn_hashed x)"
  then show "same_job rec (rn_record x') \<and> accepted store h (rn_hashed x')"
    by (cases r; cases "snd r") (auto simp: run_enc_env_def dest!: run_writeD intro: accepted_append)
qed (auto simp: run_enc_env_def progress_report_record dest: on_worldD)

lemma run_sink: "sink (run_enc_env ms E store h q) rn_hashed"
  by (auto simp: sink_def run_enc_env_def dest: run_writeD)

text \<open>
  What \<^verbatim>\<open>EncodeStream\<close> leaves behind: the record of the same job, bytes the store has taken, and,
  if it reports no error, for CSV and JSON Lines the whole result.
\<close>

definition complete_result :: "('p, 's, 'w) env \<Rightarrow> string \<Rightarrow> row_stream \<Rightarrow> int \<Rightarrow> int \<Rightarrow> string \<Rightarrow> bool" where
  "complete_result E format rows n b tx \<longleftrightarrow>
     (\<exists>cols. rw_columns rows = Inr cols \<and> result_text (en_formats E) format cols (rw_rows rows) tx) \<and>
     b = int (length tx) \<and> n = int (length (rw_rows rows)) \<and> rw_err rows = None"

definition streamed ::
  "('p, 's, 'w) env \<Rightarrow> 'w ResultStore \<Rightarrow> nat \<Rightarrow> QueryRecord \<Rightarrow> row_stream \<Rightarrow> int \<times> int \<times> go_error option \<Rightarrow> string \<Rightarrow> bool" where
  "streamed E store h rec rows res tx \<longleftrightarrow>
     accepted store h tx \<and>
     (snd (snd res) = None \<longrightarrow> opt_ResultFormat (qr_Options rec) \<in> {''csv'', ''jsonl''} \<longrightarrow>
        complete_result E (opt_ResultFormat (qr_Options rec)) rows (fst res) (fst (snd res)) tx)"

lemma stream_rows_wp:
  assumes "\<And>res rec' tx w'. same_job rec rec' \<Longrightarrow> streamed E store h rec rows res tx \<Longrightarrow> Q (res, rec', tx) w'"
  shows "wp (stream_rows ms E store h rec rows) Q w"
proof -
  let ?env = "run_enc_env ms E store h (qr_ID rec)" and ?fmt = "opt_ResultFormat (qr_Options rec)"
  let ?x = "\<lparr>rn_world = w, rn_record = rec, rn_hashed = [], rn_last = 0, rn_lost = False, rn_mail = None, rn_snap = None\<rparr>"
  obtain n b e x where enc: "EncodeStream (en_formats E) ?env (encodeParquet (en_formats E) ?env (en_parquet E) (rw_err rows))
      (rw_columns rows) (rw_rows rows) (rw_err rows) ?fmt ?x = ((n, b, e), x)" by (metis surj_pair)
  from job.EncodeStream_kept [OF enc, of rec] have k: "same_job rec (rn_record x)" "accepted store h (rn_hashed x)" by simp_all
  have "complete_result E ?fmt rows n b (rn_hashed x)" if "e = None" "?fmt \<in> {''csv'', ''jsonl''}"
    using encode_complete [OF run_sink that(2) enc [unfolded that(1)]] by (auto simp: complete_result_def)
  with k(2) have "streamed E store h rec rows (n, b, e) (rn_hashed x)" by (auto simp: streamed_def)
  with k(1) enc show ?thesis by (auto simp: wp_def stream_rows_def intro!: assms)
qed

section \<open>How a run ends\<close>

lemma wp_any: "(\<And>r w'. Q r w') \<Longrightarrow> wp m Q w"
  by (simp add: wp_def split: prod.splits)

lemma complete_wp:
  assumes "CanTransitionTo (qr_State rec) st" and "\<And>t w'. Q (True, rec\<lparr>qr_State := st, qr_FinishedAt := t\<rparr>) w'"
  shows "wp (complete ms E rec st) Q w"
  unfolding complete_def Let_def using assms(1) by (simp add: wp_access) (intro impI conjI wp_any assms(2))

lemma finishRun_wp:
  assumes "CanTransitionTo (qr_State rec) st"
    and "\<And>stats t w'. Q (rec\<lparr>qr_Error := qErr, qr_Stats := stats, qr_State := st, qr_FinishedAt := t\<rparr>) w'"
  shows "wp (finishRun ms E rec st qErr dbDur storeDur) Q w"
  unfolding finishRun_def Let_def using assms
  by (auto simp: wp_access intro!: complete_wp)

text \<open>The errors a failed query can carry: fixed texts, none of them made from a driver's or a store's error.\<close>

definition run_errors :: "QueryError list" where
  "run_errors =
     NewQueryError ErrCodeQueryTimeout ''query exceeded its timeout'' True #
     map (\<lambda>c. NewQueryError c (backendErrorMessage c) False)
       [ErrCodeDBExecFailed, ErrCodeStorageInitFailed, ErrCodeStorageWriterFailed, ErrCodeStreamEncodeFailed,
        ErrCodeStorageFinalizeFailed]"

definition failed_end :: "QueryState \<Rightarrow> QueryError option \<Rightarrow> bool" where
  "failed_end st qErr \<longleftrightarrow> st = StateCanceled \<and> qErr = None \<or> st = StateFailed \<and> (\<exists>e \<in> set run_errors. qErr = Some e)"

lemma terminalFor_cases:
  assumes "terminalFor ctx err code = (st, qErr)"
    and "code \<in> {ErrCodeDBExecFailed, ErrCodeStreamEncodeFailed, ErrCodeStorageFinalizeFailed}"
  shows "failed_end st qErr"
  using assms by (auto simp: terminalFor_def failed_end_def run_errors_def split: if_splits)

text \<open>
  The evidence behind a success: what the driver returned, the writer the store opened, the bytes it
  took one write after the other, and that closing the writer reported no error.
\<close>

definition stored :: "('p, 's, 'w) env \<Rightarrow> 'p \<Rightarrow> QueryRecord \<Rightarrow> ResultRef \<Rightarrow> bool" where
  "stored E pool rec ref \<longleftrightarrow>
     (\<exists>n rows store h ref0 tx rowsCount bytesWritten.
        en_exec E n pool (qr_SQL rec) = Inr rows \<and>
        GetStore (en_stores E) (opt_StorageBackend (qr_Options rec)) = Inr store \<and>
        (\<exists>d. fst (rs_Writer store (qr_ID rec) (opt_ResultFormat (qr_Options rec)) d) = Inr (h, ref0)) \<and>
        streamed E store h rec rows (rowsCount, bytesWritten, None) tx \<and>
        (\<exists>d. fst (rs_CloseWriter store h d) = None) \<and>
        ref = ref0\<lparr>ref_SizeBytes := bytesWritten, ref_RowCount := rowsCount, ref_Checksum := ''sha256:'' @ en_sha256 E tx\<rparr>)"

definition run_ends :: "('p, 's, 'w) env \<Rightarrow> 'p \<Rightarrow> QueryRecord \<Rightarrow> QueryRecord \<Rightarrow> bool" where
  "run_ends E pool rec rec' \<longleftrightarrow>
     rec' = rec\<lparr>qr_State := qr_State rec', qr_StartedAt := qr_StartedAt rec', qr_FinishedAt := qr_FinishedAt rec',
                qr_Error := qr_Error rec', qr_Stats := qr_Stats rec', qr_Result := qr_Result rec'\<rparr> \<and>
     (case qr_State rec' of
        StateSucceeded \<Rightarrow> qr_Error rec' = None \<and> (\<exists>ref. qr_Result rec' = Some ref \<and> stored E pool rec ref)
      | StateFailed \<Rightarrow> qr_Result rec' = None \<and> (\<exists>e \<in> set run_errors. qr_Error rec' = Some e)
      | StateCanceled \<Rightarrow> qr_Result rec' = None \<and> qr_Error rec' = None
      | _ \<Rightarrow> False)"

text \<open>
  The calls of \<^verbatim>\<open>finishRun\<close> in \<^verbatim>\<open>run\<close>: the record is the submitted one in state RUNNING, with
  statistics; the outcome is a failure of \<open>failed_end\<close>, or the success with its evidence.
\<close>

definition begun :: "QueryRecord \<Rightarrow> QueryRecord \<Rightarrow> bool" where
  "begun rec rec' \<longleftrightarrow> (\<exists>t s. rec' = rec\<lparr>qr_State := StateRunning, qr_StartedAt := t, qr_Stats := s\<rparr>)"

definition ready :: "('p, 's, 'w) env \<Rightarrow> 'p \<Rightarrow> QueryRecord \<Rightarrow> QueryRecord \<Rightarrow> QueryState \<Rightarrow> QueryError option \<Rightarrow> bool" where
  "ready E pool rec rec' st qErr \<longleftrightarrow>
     begun rec rec' \<and> failed_end st qErr \<or>
     (\<exists>r ref s. begun rec r \<and> rec' = r\<lparr>qr_Result := Some ref, qr_Stats := s\<rparr> \<and> stored E pool rec ref \<and>
        st = StateSucceeded \<and> qErr = None)"

lemma begun_started: "begun rec (rec\<lparr>qr_State := StateRunning, qr_StartedAt := t\<rparr>)"
  unfolding begun_def by (intro exI [of _ t] exI [of _ "qr_Stats rec"]) simp

lemma begun_same_job: "begun rec r \<Longrightarrow> same_job r r' \<Longrightarrow> begun rec r'"
  unfolding begun_def same_job_def by (elim exE) (intro exI, simp)

lemma begun_fields: "begun rec r \<Longrightarrow> qr_ID r = qr_ID rec" "begun rec r \<Longrightarrow> qr_Options r = qr_Options rec"
  "begun rec r \<Longrightarrow> qr_State r = StateRunning"
  by (auto simp: begun_def)

lemma ready_transition: "ready E pool rec rec' st qErr \<Longrightarrow> qr_State rec' = StateRunning \<and> CanTransitionTo StateRunning st \<and> IsTerminal st"
  by (auto simp: ready_def begun_def failed_end_def CanTransitionTo_def)

lemma ready_ID: "ready E pool rec rec' st qErr \<Longrightarrow> qr_ID rec' = qr_ID rec"
  by (auto simp: ready_def begun_def)

lemma ready_ends:
  assumes "ready E pool rec rec' st qErr" and "qr_Result rec = None"
  shows "run_ends E pool rec (rec'\<lparr>qr_Error := qErr, qr_Stats := stats, qr_State := st, qr_FinishedAt := t'\<rparr>)"
  using assms by (auto simp: ready_def begun_def run_ends_def failed_end_def)

lemma wp_data_any: "(\<And>d d' r w'. f d = (r, d') \<Longrightarrow> Q r w') \<Longrightarrow> wp (data E f) Q w"
  by (auto simp: wp_data split: prod.splits)

text \<open>What holds after every such call of \<^verbatim>\<open>finishRun\<close> holds after a run.\<close>

definition finishes :: "'s MetaStore \<Rightarrow> ('p, 's, 'w) env \<Rightarrow> 'p \<Rightarrow> QueryRecord \<Rightarrow> (QueryRecord \<Rightarrow> ('p, 's, 'w) world \<Rightarrow> bool) \<Rightarrow> bool" where
  "finishes ms E pool rec Q \<longleftrightarrow>
     (\<forall>rec' st qErr d1 d2 w. ready E pool rec rec' st qErr \<longrightarrow> wp (finishRun ms E rec' st qErr d1 d2) Q w)"

lemma finishesD: "finishes ms E pool rec Q \<Longrightarrow> ready E pool rec rec' st qErr \<Longrightarrow> wp (finishRun ms E rec' st qErr d1 d2) Q w"
  by (simp add: finishes_def)

lemma terminalFor_wp:
  assumes fin: "finishes ms E pool rec Q"
    and "begun rec rec'" and "code \<in> {ErrCodeDBExecFailed, ErrCodeStreamEncodeFailed, ErrCodeStorageFinalizeFailed}"
  shows "wp (case terminalFor ctx err code of (st, qErr) \<Rightarrow> finishRun ms E rec' st qErr dbDur storeDur) Q w"
proof -
  obtain st qErr where "terminalFor ctx err code = (st, qErr)" by (cases "terminalFor ctx err code")
  with terminalFor_cases [OF this assms(3)] assms(2) show ?thesis by (auto simp: ready_def intro!: finishesD [OF fin])
qed

lemma conclude_wp:
  assumes fin: "finishes ms E pool rec Q"
    and "begun rec rec'"
    and "\<And>n b. res = (n, b, None) \<Longrightarrow> closeErr = None \<Longrightarrow>
      stored E pool rec (ref\<lparr>ref_SizeBytes := b, ref_RowCount := n, ref_Checksum := ''sha256:'' @ en_sha256 E tx\<rparr>)"
  shows "wp (conclude ms E store ref rec' res tx closeErr startTime dbDur storeDur) Q w"
proof -
  have fail: "wp (do {
      deletePartial E store ref;
      ctx \<leftarrow> look E (ctxErr (qr_ID rec'));
      let (st, qErr) = terminalFor ctx err code;
      finishRun ms E rec' st qErr dbDur storeDur
    }) Q w" if "code \<in> {ErrCodeStreamEncodeFailed, ErrCodeStorageFinalizeFailed}" for err code
    unfolding deletePartial_def using that
    by (simp add: Let_def del: wp_prod) (rule wp_any, simp add: wp_look del: wp_prod, rule terminalFor_wp [OF fin assms(2)], auto)
  obtain n b e where res: "res = (n, b, e)" by (cases res)
  show ?thesis
  proof (cases "e = None \<and> closeErr = None")
    case True
    then have "ready E pool rec (rec'\<lparr>qr_Result := Some (ref\<lparr>ref_SizeBytes := b, ref_RowCount := n,
        ref_Checksum := ''sha256:'' @ en_sha256 E tx\<rparr>), qr_Stats := s\<rparr>) StateSucceeded None" for s
      using assms(2,3) res unfolding ready_def by blast
    with True res show ?thesis by (simp add: conclude_def wp_Now Let_def finishesD [OF fin])
  next
    case False
    with fail res show ?thesis by (auto simp: conclude_def split: option.splits)
  qed
qed

lemma write_result_wp:
  assumes fin: "finishes ms E pool rec Q"
    and "begun rec r0" and "en_exec E n pool (qr_SQL rec) = Inr rows"
    and "GetStore (en_stores E) (opt_StorageBackend (qr_Options rec)) = Inr store"
    and "fst (rs_Writer store (qr_ID rec) (opt_ResultFormat (qr_Options rec)) d) = Inr (h, ref)"
  shows "wp (write_result ms E store h ref r0 rows startTime dbDur) Q w"
  unfolding write_result_def wp_bind wp_Now
proof (rule stream_rows_wp, simp only: prod.case wp_bind, rule wp_data_any, simp only: wp_bind wp_Now)
  fix res rec' tx closeErr w' d1 d2
  assume s: "same_job r0 rec'" "streamed E store h r0 rows res tx" and c: "rs_CloseWriter store h d1 = (closeErr, d2)"
  have "stored E pool rec (ref\<lparr>ref_SizeBytes := b, ref_RowCount := m, ref_Checksum := ''sha256:'' @ en_sha256 E tx\<rparr>)"
    if "res = (m, b, None)" "closeErr = None" for m b
  proof -
    have "streamed E store h rec rows (m, b, None) tx" using s(2) that(1) begun_fields [OF assms(2)] by (simp add: streamed_def)
    moreover have "fst (rs_CloseWriter store h d1) = None" using c that(2) by simp
    ultimately show ?thesis unfolding stored_def using assms(3-5) by blast
  qed
  then show "wp (conclude ms E store ref rec' res tx closeErr startTime dbDur (time_Sub (en_clk E (wd_tick w')) (en_clk E (wd_tick w))))
      Q (others E w')"
    by (rule conclude_wp [OF fin begun_same_job [OF assms(2) s(1)]])
qed

lemma store_result_wp:
  assumes fin: "finishes ms E pool rec Q"
    and "begun rec r0" and "en_exec E n pool (qr_SQL rec) = Inr rows"
  shows "wp (store_result ms E r0 rows startTime dbDur) Q w"
proof -
  have init: "ready E pool rec r0 StateFailed (Some (NewQueryError c (backendErrorMessage c) False))"
    if "c \<in> {ErrCodeStorageInitFailed, ErrCodeStorageWriterFailed}" for c
    using that assms(2) by (auto simp: ready_def failed_end_def run_errors_def)
  show ?thesis
  proof (cases "GetStore (en_stores E) (opt_StorageBackend (qr_Options rec))")
    case (Inl e)
    then show ?thesis by (simp add: store_result_def begun_fields [OF assms(2)]) (rule finishesD [OF fin], rule init, simp)
  next
    case (Inr store)
    have open': "wp (case r of
            Inl _ \<Rightarrow> finishRun ms E r0 StateFailed
              (Some (NewQueryError ErrCodeStorageWriterFailed (backendErrorMessage ErrCodeStorageWriterFailed) False)) dbDur 0
          | Inr (h, ref) \<Rightarrow> write_result ms E store h ref r0 rows startTime dbDur) Q w'"
      if "rs_Writer store (qr_ID rec) (opt_ResultFormat (qr_Options rec)) d = (r, d')" for r d d' w'
    proof (cases r)
      case (Inl e)
      then show ?thesis by simp (rule finishesD [OF fin], rule init, simp)
    next
      case (Inr hr)
      then obtain h ref where "r = Inr (h, ref)" by (cases hr) simp
      with that write_result_wp [OF fin assms(2,3) \<open>GetStore _ _ = Inr store\<close>, of d h ref] show ?thesis by simp
    qed
    show ?thesis unfolding store_result_def using Inr
      by (simp add: begun_fields [OF assms(2)] del: wp_sum wp_prod) (rule wp_data_any, rule open')
  qed
qed

lemma run_body_wp:
  assumes fin: "finishes ms E (la_pool l) (la_record l) Q"
    and "qr_State (la_record l) = StatePending"
  shows "wp (run_body ms E l) Q w"
proof -
  have exec: "wp (after_exec ms E r0 rows startTime dbDur) Q w'"
    if "begun (la_record l) r0" "rows = en_exec E n (la_pool l) (qr_SQL (la_record l))" for r0 rows n startTime dbDur w'
  proof (cases rows)
    case (Inl err)
    then show ?thesis
      by (simp add: after_exec_def wp_look Let_def del: wp_prod) (rule terminalFor_wp [OF fin that(1)], simp_all)
  next
    case (Inr r)
    with store_result_wp [OF fin that(1) that(2) [symmetric, unfolded Inr]] show ?thesis by (simp add: after_exec_def)
  qed
  show ?thesis unfolding run_body_def Let_def using assms(2)
    by (simp add: wp_access CanTransitionTo_def)
      (rule wp_any, simp add: wp_access, rule exec [OF begun_started], rule refl)
qed

text \<open>
  C2. How a query ends. Whatever the driver, the result store, the metadata store, the clock and
  every other goroutine and instance do, a started query ends in SUCCEEDED, FAILED or CANCELED
  with its identity, statement, options and owner unchanged. A failure carries one of six
  fixed errors, so that no text of a driver or store error reaches a client; a cancellation
  carries none. Success is only reported with a result reference, and only if the store
  took every byte and closed the writer without an error; for CSV and JSON Lines
  these bytes are the complete encoding of all rows the driver returned, the stream ended
  without an error, and the reference has their number, the number of rows and their checksum.
\<close>

theorem run_outcome:
  assumes "qr_State (la_record l) = StatePending" and "qr_Result (la_record l) = None"
    and "run_state (run ms E l) w = (rec, w')"
  shows "run_ends E (la_pool l) (la_record l) rec"
proof -
  have "wp (run_body ms E l) (\<lambda>rec w'. run_ends E (la_pool l) (la_record l) rec) w"
  proof (rule run_body_wp [OF _ assms(1)], unfold finishes_def, intro allI impI)
    fix rec' st qErr d1 d2 w assume r: "ready E (la_pool l) (la_record l) rec' st qErr"
    show "wp (finishRun ms E rec' st qErr d1 d2) (\<lambda>rec w'. run_ends E (la_pool l) (la_record l) rec) w"
      by (rule finishRun_wp) (use ready_transition [OF r] ready_ends [OF r assms(2)] in auto)
  qed
  then have "wp (run ms E l) (\<lambda>rec w'. run_ends E (la_pool l) (la_record l) rec) w"
    unfolding run_def by simp (erule wp_mono, simp add: wp_act)
  then show ?thesis by (simp add: wp_run [OF assms(3)])
qed

definition sample_launch :: "nat launch" where
  "sample_launch = \<lparr>la_record = new_record ''q2'' ''main'' ''select 1'' sample_options ''i1'' 1000 [], la_pool = 1, la_deadline = None\<rparr>"

definition broken_env :: "(nat, mem, string) env" where
  "broken_env = sample_env\<lparr>en_exec := (\<lambda>n p sql. Inl (ErrorString ''dial tcp 10.0.0.7:5432: refused''))\<rparr>"

theorem run_outcome_witness:
  "run_ends broken_env 1 (la_record sample_launch) (fst (run_state (run mem_store broken_env sample_launch) sample_world))
   \<and> qr_State (fst (run_state (run mem_store broken_env sample_launch) sample_world)) \<in> {StateFailed, StateCanceled}"
proof -
  obtain rec w' where r: "run_state (run mem_store broken_env sample_launch) sample_world = (rec, w')" by fastforce
  have l: "qr_State (la_record sample_launch) = StatePending" "qr_Result (la_record sample_launch) = None" "la_pool sample_launch = 1"
    by (simp_all add: sample_launch_def new_record_def)
  have e: "run_ends broken_env 1 (la_record sample_launch) rec" using run_outcome [OF l(1,2) r] l(3) by simp
  have "\<not> stored broken_env 1 (la_record sample_launch) ref" for ref by (simp add: stored_def broken_env_def)
  with e have "qr_State rec \<in> {StateFailed, StateCanceled}" by (cases "qr_State rec") (auto simp: run_ends_def)
  with e r show ?thesis by simp
qed

section \<open>What a run leaves behind\<close>

text \<open>
  The others leave a terminal record of the query in the store alone, which is what the conditional
  writes of reapers and progress reports guarantee, and do not register the query again.
\<close>

definition respects_run :: "('p, mem, 'w) env \<Rightarrow> string \<Rightarrow> bool" where
  "respects_run E i \<longleftrightarrow>
     (\<forall>n w r. mget (mm_queries (wd_meta w)) i = Some r \<longrightarrow> IsTerminal (qr_State r) \<longrightarrow>
        mget (mm_queries (wd_meta (en_other E n w))) i = Some r) \<and>
     (\<forall>n w. mget (qm_activeReg (wd_qm w)) i = None \<longrightarrow> mget (qm_activeReg (wd_qm (en_other E n w))) i = None)"

definition recorded :: "QueryRecord \<Rightarrow> ('p, mem, 'w) world \<Rightarrow> bool" where
  "recorded rec w \<longleftrightarrow> IsTerminal (qr_State rec) \<and> mget (mm_queries (wd_meta w)) (qr_ID rec) = Some (strip_lease rec)"

lemma recorded_others: "respects_run E (qr_ID rec) \<Longrightarrow> recorded rec w \<Longrightarrow> recorded rec (others E w)"
  by (auto simp: recorded_def respects_run_def others_def)

lemma recorded_qm [simp]: "recorded rec (w\<lparr>wd_qm := q\<rparr>) = recorded rec w"
  by (simp add: recorded_def)

lemma persist_mem: "0 < n \<Longrightarrow> wp (persist mem_store E rec n) Q w \<longleftrightarrow> Q None ((others E w)\<lparr>wd_meta := mem_write rec (wd_meta (others E w))\<rparr>)"
  by (cases n) (simp_all add: wp_meta mem_PutQuery_def)

lemma mem_write_get: "mget (mm_queries (mem_write rec m)) (qr_ID rec) = Some (strip_lease rec)"
  by (simp add: mem_write_def Let_def)

lemma refresh_queries: "mem_RefreshIdempotency now db k q ttl m = (e, m') \<Longrightarrow> mm_queries m' = mm_queries m"
  by (auto simp: mem_RefreshIdempotency_def Let_def split: option.splits if_splits)

lemma complete_records:
  assumes "CanTransitionTo (qr_State rec) st" and "IsTerminal st" and "respects_run E (qr_ID rec)"
  shows "wp (complete mem_store E rec st) (\<lambda>r w'. recorded (snd r) w') w"
proof -
  define rec1 where "rec1 t = rec\<lparr>qr_State := st, qr_FinishedAt := t\<rparr>" for t
  have r: "respects_run E (qr_ID (rec1 t))" for t using assms(3) by (simp add: rec1_def)
  have start: "recorded (rec1 t) (w\<lparr>wd_meta := mem_write (rec1 t) m\<rparr>)" for t w m
    using assms(2) mem_write_get [of "rec1 t" m] by (simp add: recorded_def rec1_def)
  have refresh: "recorded (rec1 t) (w\<lparr>wd_meta := m'\<rparr>)"
    if "recorded (rec1 t) w" "mem_RefreshIdempotency now db k q ttl (wd_meta w) = (e, m')" for t w now db k q ttl e m'
    using that refresh_queries [OF that(2)] by (simp add: recorded_def)
  show ?thesis unfolding complete_def using assms(1)
    by (auto simp: wp_access wp_meta persist_mem terminalPersistAttempts_def rec1_def [symmetric] Let_def
        split: prod.splits intro!: recorded_others [OF r] refresh start)
qed

lemma finishRun_records:
  assumes "CanTransitionTo (qr_State rec) st" and "IsTerminal st" and "respects_run E (qr_ID rec)"
  shows "wp (finishRun mem_store E rec st qErr d1 d2) (\<lambda>r w'. recorded r w') w"
proof -
  have c: "wp (complete mem_store E r st) (\<lambda>(_, r). recorded r) w'"
    if "qr_State r = qr_State rec" "qr_ID r = qr_ID rec" for r w'
    using complete_records [of r st E w'] assms that by (auto elim!: wp_mono)
  show ?thesis unfolding finishRun_def Let_def
    by (auto simp: wp_access intro!: c)
qed


lemma alone_respects_run: "alone E \<Longrightarrow> respects_run E i"
  by (simp add: alone_def respects_run_def)


end
