(* ===== verification/Workers.thy ===== *)
theory Workers
  imports Run
begin

text \<open>
  The rest of the query manager, \<^verbatim>\<open>internal/core/manager/manager.go\<close>: construction, stopping a
  query, the background workers - heartbeats, control messages, garbage collection, the reaper of
  queries whose owner is lost - and the shutdown.

  A worker's loop is its body, run once per tick or message; \<open>worker_loop\<close> bounds the number of
  ticks. A wait for time to pass or for another goroutine is the action of the others.
\<close>

section \<open>Stopping and counting\<close>

definition registered :: "string \<Rightarrow> 'p QueryManager \<Rightarrow> bool" where
  "registered queryID qm \<longleftrightarrow> mget (qm_activeReg qm) queryID \<noteq> None"

definition stop_msg :: "string \<Rightarrow> string \<Rightarrow> ControlMsg" where
  "stop_msg queryID instanceID =
     \<lparr>cm_Type = ControlStopQuery, cm_QueryID = queryID, cm_SenderID = instanceID, cm_Event = None\<rparr>"

definition StopQuery :: "'s MetaStore \<Rightarrow> ('p, 's, 'w) env \<Rightarrow> string \<Rightarrow> ('p, 's, 'w, go_error option) prog" where
  "StopQuery ms E queryID = do {
     r \<leftarrow> meta E (\<lambda>now. ms_GetQuery ms now queryID);
     case r of
       Inl e \<Rightarrow> ret (Some e)
     | Inr record \<Rightarrow>
         if IsTerminal (qr_State record) then ret None
         else do {
           inst \<leftarrow> look E qm_instanceID;
           exists \<leftarrow> (if qr_OwnerInstanceID record = inst then look E (registered queryID) else ret False);
           if exists then do { act E (cancelExec queryID); ret None }
           else meta E (\<lambda>now. ms_PublishControl ms now (stop_msg queryID inst))
         }
   }"

definition qm_CountInFlight :: "'s MetaStore \<Rightarrow> ('p, 's, 'w) env \<Rightarrow> ('p, 's, 'w, nat) prog" where
  "qm_CountInFlight ms E = do {
     local \<leftarrow> look E (\<lambda>qm. length (qm_activeReg qm));
     inst \<leftarrow> look E qm_instanceID;
     r \<leftarrow> meta E (\<lambda>now. ms_CountInFlight ms now inst);
     case r of Inl _ \<Rightarrow> ret local | Inr remote \<Rightarrow> ret (max local remote)
   }"

definition GetConfig :: "'p QueryManager \<Rightarrow> Config" where
  "GetConfig qm = qm_cfg qm"

definition GetPool :: "string \<Rightarrow> 'p QueryManager \<Rightarrow> 'p option" where
  "GetPool dbID qm = lookupPool dbID qm"

definition DatabasesSeen :: "'s MetaStore \<Rightarrow> ('p, 's, 'w) env \<Rightarrow> ('p, 's, 'w, go_error + string list) prog" where
  "DatabasesSeen ms E = meta E (\<lambda>now. ms_ListDatabasesSeen ms now)"

section \<open>Workers\<close>

text \<open>\<^verbatim>\<open>time.NewTicker\<close> panics on a period that is not positive.\<close>

definition NewTicker :: "duration \<Rightarrow> duration option" where
  "NewTicker d = (if d \<le> 0 then None else Some d)"

fun worker_loop :: "('p, 's, 'w) env \<Rightarrow> ('p, 's, 'w, unit) prog \<Rightarrow> nat \<Rightarrow> ('p, 's, 'w, unit) prog" where
  "worker_loop E body 0 = ret ()"
| "worker_loop E body (Suc n) = do {
     stop \<leftarrow> look E qm_ctxDone;
     if stop then ret () else do { body; worker_loop E body n }
   }"

definition heartbeat_tick :: "'s MetaStore \<Rightarrow> ('p, 's, 'w) env \<Rightarrow> ('p, 's, 'w, unit) prog" where
  "heartbeat_tick ms E = do {
     activeIDs \<leftarrow> look E (\<lambda>qm. mkeys (qm_activeReg qm));
     ttl \<leftarrow> look E heartbeatTTL;
     inst \<leftarrow> look E qm_instanceID;
     _ \<leftarrow> meta E (\<lambda>now. ms_Heartbeat ms now inst activeIDs ttl);
     ret ()
   }"

text \<open>The workers, as far as \<open>n\<close> ticks; \<open>None\<close> is the panic of \<^verbatim>\<open>NewTicker\<close>.\<close>

definition heartbeatWorker :: "'s MetaStore \<Rightarrow> ('p, 's, 'w) env \<Rightarrow> nat \<Rightarrow> ('p, 's, 'w, unit option) prog" where
  "heartbeatWorker ms E n = do {
     ttl \<leftarrow> look E heartbeatTTL;
     case NewTicker (quot64 ttl 2) of
       None \<Rightarrow> ret None
     | Some _ \<Rightarrow> do { worker_loop E (heartbeat_tick ms E) n; ret (Some ()) }
   }"

definition qm_deliver :: "QueryEvent \<Rightarrow> 'p QueryManager \<Rightarrow> 'p QueryManager" where
  "qm_deliver ev qm =
     (case deliverEvent ev (qm_hub qm) of
        None \<Rightarrow> qm\<lparr>qm_panicked := True\<rparr>
      | Some h \<Rightarrow> qm\<lparr>qm_hub := h\<rparr>)"

definition remote_event :: "string \<Rightarrow> QueryEventPayload \<Rightarrow> QueryEvent" where
  "remote_event queryID p =
     \<lparr>ev_QueryID = queryID, ev_State = state_of_string (pl_State p), ev_Stats = pl_Stats p, ev_Error = pl_Error p\<rparr>"

text \<open>What \<^verbatim>\<open>controlWorker\<close> does with one message, and with the messages its channel yields.\<close>

definition handle_control :: "('p, 's, 'w) env \<Rightarrow> ControlMsg \<Rightarrow> ('p, 's, 'w, unit) prog" where
  "handle_control E msg = do {
     inst \<leftarrow> look E qm_instanceID;
     if cm_SenderID msg = inst then ret ()
     else case cm_Type msg of
       ControlStopQuery \<Rightarrow> do {
         ok \<leftarrow> look E (registered (cm_QueryID msg));
         if ok then act E (cancelExec (cm_QueryID msg)) else ret ()
       }
     | ControlQueryEvent \<Rightarrow>
         (case cm_Event msg of
            None \<Rightarrow> ret ()
          | Some p \<Rightarrow> do {
              mine \<leftarrow> look E (registered (cm_QueryID msg));
              if mine then ret () else act E (qm_deliver (remote_event (cm_QueryID msg) p))
            })
   }"

fun control_loop :: "('p, 's, 'w) env \<Rightarrow> ControlMsg list \<Rightarrow> ('p, 's, 'w, unit) prog" where
  "control_loop E [] = ret ()"
| "control_loop E (msg # msgs) = do {
     stop \<leftarrow> look E qm_ctxDone;
     if stop then ret () else do { handle_control E msg; control_loop E msgs }
   }"

definition controlWorker :: "'s MetaStore \<Rightarrow> ('p, 's, 'w) env \<Rightarrow> ControlMsg list \<Rightarrow> ('p, 's, 'w, unit) prog" where
  "controlWorker ms E msgs = do {
     r \<leftarrow> meta E (\<lambda>now. ms_SubscribeControl ms now);
     case r of Inl _ \<Rightarrow> ret () | Inr _ \<Rightarrow> control_loop E msgs
   }"

section \<open>Garbage collection\<close>

definition release_key :: "'s MetaStore \<Rightarrow> ('p, 's, 'w) env \<Rightarrow> QueryRecord \<Rightarrow> string \<Rightarrow> ('p, 's, 'w, unit) prog" where
  "release_key ms E rec i =
     (if qr_IdempotencyKey rec = [] then ret ()
      else do {
        _ \<leftarrow> meta E (\<lambda>now. ms_ReleaseIdempotency ms now (qr_DatabaseID rec)
               (scopedIdempotencyKey (qr_Subject rec) (qr_IdempotencyKey rec)) i);
        ret ()
      })"

text \<open>Marking the record; \<open>None\<close> when the pass stops here.\<close>

definition mark_expired :: "'s MetaStore \<Rightarrow> ('p, 's, 'w) env \<Rightarrow> QueryRecord \<Rightarrow> string \<Rightarrow> ('p, 's, 'w, QueryRecord option) prog" where
  "mark_expired ms E rec i =
     (if qr_State rec = StateExpired then ret (Some rec)
      else if \<not> CanTransitionTo (qr_State rec) StateExpired then ret None
      else do {
        let rec = rec\<lparr>qr_State := StateExpired\<rparr>;
        e \<leftarrow> meta E (\<lambda>now. ms_UpdateQuery ms now rec);
        case e of
          Some _ \<Rightarrow> ret None
        | None \<Rightarrow> do { notify E (state_event i StateExpired); ret (Some rec) }
      })"

definition delete_result :: "('p, 's, 'w) env \<Rightarrow> QueryRecord \<Rightarrow> ('p, 's, 'w, bool) prog" where
  "delete_result E rec =
     (case qr_Result rec of
        None \<Rightarrow> ret True
      | Some ref \<Rightarrow>
          (case GetStore (en_stores E) (ref_Backend ref) of
             Inl _ \<Rightarrow> ret False
           | Inr store \<Rightarrow> do { e \<leftarrow> data E (rs_Delete store ref); ret (e = None) }))"

definition collect_expired :: "'s MetaStore \<Rightarrow> ('p, 's, 'w) env \<Rightarrow> QueryRecord \<Rightarrow> string \<Rightarrow> ('p, 's, 'w, unit) prog" where
  "collect_expired ms E rec i = do {
     gone \<leftarrow> delete_result E rec;
     if \<not> gone then ret ()
     else do {
       release_key ms E rec i;
       _ \<leftarrow> meta E (\<lambda>now. ms_DeleteQuery ms now i);
       ret ()
     }
   }"

definition collectQuery :: "'s MetaStore \<Rightarrow> ('p, 's, 'w) env \<Rightarrow> string \<Rightarrow> ('p, 's, 'w, unit) prog" where
  "collectQuery ms E i = do {
     r \<leftarrow> meta E (\<lambda>now. ms_GetQuery ms now i);
     case r of
       Inl _ \<Rightarrow> ret ()
     | Inr rec \<Rightarrow> do {
         m \<leftarrow> mark_expired ms E rec i;
         case m of None \<Rightarrow> ret () | Some rec \<Rightarrow> collect_expired ms E rec i
       }
   }"

fun collect_loop :: "'s MetaStore \<Rightarrow> ('p, 's, 'w) env \<Rightarrow> time \<Rightarrow> string list \<Rightarrow> ('p, 's, 'w, unit) prog" where
  "collect_loop ms E deadline [] = ret ()"
| "collect_loop ms E deadline (i # is) = do {
     now \<leftarrow> Now E;
     if now < deadline then do { collectQuery ms E i; collect_loop ms E deadline is } else ret ()
   }"

definition collectGarbage :: "'s MetaStore \<Rightarrow> ('p, 's, 'w) env \<Rightarrow> ('p, 's, 'w, unit) prog" where
  "collectGarbage ms E = do {
     budget \<leftarrow> look E gcBudget;
     start \<leftarrow> Now E;
     ttl \<leftarrow> look E gcLockTTL;
     locked \<leftarrow> meta E (\<lambda>now. ms_TryLock ms now gcLockName ttl);
     case locked of
       Inl _ \<Rightarrow> ret ()
     | Inr False \<Rightarrow> ret ()
     | Inr True \<Rightarrow> do {
         r \<leftarrow> meta E (\<lambda>now. ms_ListExpiredQueries ms now);
         case r of
           Inl _ \<Rightarrow> ret ()
         | Inr expiredIDs \<Rightarrow> collect_loop ms E (time_Add start budget) expiredIDs
       }
   }"

definition gcWorker :: "'s MetaStore \<Rightarrow> ('p, 's, 'w) env \<Rightarrow> nat \<Rightarrow> ('p, 's, 'w, unit option) prog" where
  "gcWorker ms E n = do {
     period \<leftarrow> look E gcPeriod;
     case NewTicker period of
       None \<Rightarrow> ret None
     | Some _ \<Rightarrow> do { worker_loop E (collectGarbage ms E) n; ret (Some ()) }
   }"

section \<open>Lost owners\<close>

definition owner_lost :: QueryError where
  "owner_lost = NewQueryError ErrCodeOwnerLost ''owner instance lost before query completion'' True"

definition failOwnerLost :: "'s MetaStore \<Rightarrow> ('p, 's, 'w) env \<Rightarrow> QueryRecord \<Rightarrow> ('p, 's, 'w, unit) prog" where
  "failOwnerLost ms E rec = do {
     now \<leftarrow> Now E;
     let failed = rec\<lparr>qr_State := StateFailed, qr_FinishedAt := now, qr_Error := Some owner_lost\<rparr>;
     r \<leftarrow> meta E (\<lambda>now. ms_UpdateQueryIfState ms now failed [StatePending, StateRunning]);
     case r of
       Inr True \<Rightarrow> notify E \<lparr>ev_QueryID = qr_ID rec, ev_State = StateFailed, ev_Stats = zero_stats, ev_Error = Some owner_lost\<rparr>
     | _ \<Rightarrow> ret ()
   }"

definition reap_one :: "'s MetaStore \<Rightarrow> ('p, 's, 'w) env \<Rightarrow> duration \<Rightarrow> string \<Rightarrow> ('p, 's, 'w, unit) prog" where
  "reap_one ms E grace i = do {
     local \<leftarrow> look E (registered i);
     if local then ret ()
     else do {
       r \<leftarrow> meta E (\<lambda>now. ms_GetQuery ms now i);
       case r of
         Inl _ \<Rightarrow> ret ()
       | Inr rec \<Rightarrow> do {
           inst \<leftarrow> look E qm_instanceID;
           if qr_OwnerInstanceID rec = inst then ret ()
           else do {
             now \<leftarrow> Now E;
             if time_Sub now (qr_CreatedAt rec) < grace then ret () else failOwnerLost ms E rec
           }
         }
     }
   }"

fun reap_loop :: "'s MetaStore \<Rightarrow> ('p, 's, 'w) env \<Rightarrow> duration \<Rightarrow> string list \<Rightarrow> ('p, 's, 'w, unit) prog" where
  "reap_loop ms E grace [] = ret ()"
| "reap_loop ms E grace (i # is) = do { reap_one ms E grace i; reap_loop ms E grace is }"

definition reapStaleOwners :: "'s MetaStore \<Rightarrow> ('p, 's, 'w) env \<Rightarrow> ('p, 's, 'w, unit) prog" where
  "reapStaleOwners ms E = do {
     r \<leftarrow> meta E (\<lambda>now. ms_ListStaleQueries ms now);
     case r of
       Inl _ \<Rightarrow> ret ()
     | Inr staleIDs \<Rightarrow> do {
         ttl \<leftarrow> look E heartbeatTTL;
         reap_loop ms E (wrap64 (2 * ttl)) staleIDs
       }
   }"

definition ownerReaper :: "'s MetaStore \<Rightarrow> ('p, 's, 'w) env \<Rightarrow> nat \<Rightarrow> ('p, 's, 'w, unit option) prog" where
  "ownerReaper ms E n = do {
     ttl \<leftarrow> look E heartbeatTTL;
     case NewTicker ttl of
       None \<Rightarrow> ret None
     | Some _ \<Rightarrow> do { worker_loop E (reapStaleOwners ms E) n; ret (Some ()) }
   }"

definition recover_one :: "'s MetaStore \<Rightarrow> ('p, 's, 'w) env \<Rightarrow> string \<Rightarrow> ('p, 's, 'w, unit) prog" where
  "recover_one ms E i = do {
     r \<leftarrow> meta E (\<lambda>now. ms_GetQuery ms now i);
     case r of
       Inl _ \<Rightarrow> ret ()
     | Inr rec \<Rightarrow> if IsTerminal (qr_State rec) then ret () else failOwnerLost ms E rec
   }"

fun recover_loop :: "'s MetaStore \<Rightarrow> ('p, 's, 'w) env \<Rightarrow> string list \<Rightarrow> ('p, 's, 'w, unit) prog" where
  "recover_loop ms E [] = ret ()"
| "recover_loop ms E (i # is) = do { recover_one ms E i; recover_loop ms E is }"

definition recoverOrphans :: "'s MetaStore \<Rightarrow> ('p, 's, 'w) env \<Rightarrow> ('p, 's, 'w, unit) prog" where
  "recoverOrphans ms E = do {
     inst \<leftarrow> look E qm_instanceID;
     r \<leftarrow> meta E (\<lambda>now. ms_ListByInstance ms now inst);
     case r of Inl _ \<Rightarrow> ret () | Inr ids \<Rightarrow> recover_loop ms E ids
   }"

section \<open>Construction and shutdown\<close>

definition initial_qm :: "config_Manager \<Rightarrow> 'p QueryManager" where
  "initial_qm cfgManager =
     (let cfg = (case config_Get cfgManager of Some c \<Rightarrow> c | None \<Rightarrow> zero_config);
          n = df_MaxConcurrentQueries (cf_Defaults cfg) in
      \<lparr>qm_cfgManager = cfgManager, qm_instanceID = in_ID (cf_Instance cfg),
       qm_defaultStorage = in_DefaultStorage (cf_Instance cfg), qm_dbPools = [],
       qm_gcPeriodDur = in_GCInterval (cf_Instance cfg), qm_activeReg = [], qm_draining = False,
       qm_slots = (if n > 0 then Some (nat n) else None), qm_used = 0, qm_hub = new_hub,
       qm_ctxErrs = [], qm_retired = [], qm_ctxDone = False, qm_panicked = False\<rparr>)"

text \<open>The workers it starts are goroutines of their own, part of the others from then on.\<close>

definition NewQueryManager :: "'p drivers \<Rightarrow> 's MetaStore \<Rightarrow> ('p, 's, 'w) env \<Rightarrow> config_Manager \<Rightarrow> ('p, 's, 'w, unit) prog" where
  "NewQueryManager drivers ms E cfgManager = do {
     act E (\<lambda>_. snd (syncPools drivers (initial_qm cfgManager)));
     recoverOrphans ms E
   }"

definition poolDrainTimeout :: duration where "poolDrainTimeout = 2 * Minute"
definition eventDrainTimeout :: duration where "eventDrainTimeout = 5 * Second"

text \<open>
  The goroutine of \<^verbatim>\<open>closePoolWhenIdle\<close>: the pool is closed when the loop ends. The loop is left
  with \<open>True\<close>; \<open>False\<close> says that \<open>n\<close> rounds were not enough.
\<close>

primrec drain_pool :: "('p, 's, 'w) env \<Rightarrow> string \<Rightarrow> time \<Rightarrow> nat \<Rightarrow> ('p, 's, 'w, bool) prog" where
  "drain_pool E dbID deadline 0 = ret False"
| "drain_pool E dbID deadline (Suc n) = do {
     users \<leftarrow> look E (activeForDB dbID);
     now \<leftarrow> Now E;
     if users > 0 \<and> now < deadline then do {
       stop \<leftarrow> look E qm_ctxDone;
       if stop then ret True else drain_pool E dbID deadline n
     }
     else ret True
   }"

definition closePoolWhenIdle :: "('p, 's, 'w) env \<Rightarrow> string \<Rightarrow> 'p \<Rightarrow> nat \<Rightarrow> ('p, 's, 'w, 'p option) prog" where
  "closePoolWhenIdle E dbID pool n = do {
     start \<leftarrow> Now E;
     left \<leftarrow> drain_pool E dbID (time_Add start poolDrainTimeout) n;
     ret (if left then Some pool else None)
   }"

fun cancel_all :: "('p, 's, 'w) env \<Rightarrow> string list \<Rightarrow> ('p, 's, 'w, unit) prog" where
  "cancel_all E [] = ret ()"
| "cancel_all E (i # is) = do { act E (cancelExec i); cancel_all E is }"

definition cancelActive :: "('p, 's, 'w) env \<Rightarrow> ('p, 's, 'w, unit) prog" where
  "cancelActive E = do { ids \<leftarrow> look E (\<lambda>qm. mkeys (qm_activeReg qm)); cancel_all E ids }"

definition take_event :: "'p QueryManager \<Rightarrow> QueryEvent option \<times> 'p QueryManager" where
  "take_event qm =
     (case hb_events (qm_hub qm) of
        [] \<Rightarrow> (None, qm)
      | ev # evs \<Rightarrow> (Some ev, qm\<lparr>qm_hub := (qm_hub qm)\<lparr>hb_events := evs\<rparr>\<rparr>))"

text \<open>The publisher after \<^verbatim>\<open>publisherStop\<close> is closed, for at most \<open>n\<close> events.\<close>

fun drain_queue :: "'s MetaStore \<Rightarrow> ('p, 's, 'w) env \<Rightarrow> time \<Rightarrow> nat \<Rightarrow> ('p, 's, 'w, unit) prog" where
  "drain_queue ms E deadline 0 = ret ()"
| "drain_queue ms E deadline (Suc n) = do {
     now \<leftarrow> Now E;
     if \<not> now < deadline then ret ()
     else do {
       ev \<leftarrow> critical E take_event;
       case ev of
         None \<Rightarrow> ret ()
       | Some ev \<Rightarrow> do {
           inst \<leftarrow> look E qm_instanceID;
           _ \<leftarrow> meta E (\<lambda>now. ms_PublishControl ms now (event_msg inst ev));
           drain_queue ms E deadline n
         }
     }
   }"

text \<open>\<^verbatim>\<open>Close\<close>, with the pools it closes as its result; the waits in it are left to the others.\<close>

definition qm_Close :: "'s MetaStore \<Rightarrow> ('p, 's, 'w) env \<Rightarrow> nat \<Rightarrow> ('p, 's, 'w, 'p list) prog" where
  "qm_Close ms E n = do {
     act E Drain;
     cancelActive E;
     start \<leftarrow> Now E;
     drain_queue ms E (time_Add start eventDrainTimeout) n;
     act E (\<lambda>qm. qm\<lparr>qm_ctxDone := True\<rparr>);
     look E (\<lambda>qm. map (\<lambda>(i, mp). mp_pool mp) (qm_dbPools qm))
   }"

end
