(* ===== verification/Steps.thy ===== *)
theory Steps
  imports Workers
begin

text \<open>
  The query manager of one process as a transition system. \<open>manager_step\<close> has a rule per critical
  section on the manager's own state; every operation and every worker is shown to act on that
  state through such steps only, however the other goroutines interleave their own. The
  invariant of the steps therefore holds in every state the process can reach.
\<close>

inductive manager_step :: "'p QueryManager \<Rightarrow> 'p QueryManager \<Rightarrow> bool" where
  Admit: "manager_step q (snd (admit i db q))"
| Deregister: "manager_step q (deregister i q)"
| Acquire: "manager_step q (snd (acquireSlot q))"
| Release: "manager_step q (releaseSlot q)"
| Draining: "manager_step q (Drain q)"
| Cancel: "manager_step q (cancelExec i q)"
| Expire: "manager_step q (expireExec i q)"
| Notify: "manager_step q (qm_notify n ev q)"
| Deliver: "manager_step q (qm_deliver ev q)"
| Subscribe: "manager_step q (snd (subscribe_hub ev q))"
| Unsubscribe: "unwatch i ch (qm_hub q) = Some h \<Longrightarrow> manager_step q (q\<lparr>qm_hub := h\<rparr>)"
| Receive: "manager_step q (snd (recv_hub ch q))"
| Publish: "manager_step q (snd (take_event q))"
| Sync: "manager_step q (snd (syncPools drivers q))"
| Reload: "manager_step q (snd (qm_Reload drivers a q))"
| Shutdown: "manager_step q (q\<lparr>qm_ctxDone := True\<rparr>)"

inductive_cases manager_stepE: "manager_step q q'"

abbreviation manager_steps :: "'p QueryManager \<Rightarrow> 'p QueryManager \<Rightarrow> bool" where
  "manager_steps \<equiv> manager_step\<^sup>*\<^sup>*"

section \<open>The invariant\<close>

definition manager_inv :: "'p QueryManager \<Rightarrow> bool" where
  "manager_inv q \<longleftrightarrow>
     hub_inv (qm_hub q) \<and> \<not> qm_panicked q \<and> mwf (qm_activeReg q) \<and>
     (case qm_slots q of None \<Rightarrow> qm_used q = 0 | Some n \<Rightarrow> qm_used q \<le> n)"

text \<open>What the steps on one part of the state leave of the rest.\<close>

lemma syncPools_rest:
  "qm_hub (snd (syncPools drivers q)) = qm_hub q" "qm_panicked (snd (syncPools drivers q)) = qm_panicked q"
  "qm_activeReg (snd (syncPools drivers q)) = qm_activeReg q" "qm_slots (snd (syncPools drivers q)) = qm_slots q"
  "qm_used (snd (syncPools drivers q)) = qm_used q" "qm_draining (snd (syncPools drivers q)) = qm_draining q"
  by (simp_all add: syncPools_def Let_def)

lemma qm_Reload_rest:
  "qm_hub (snd (qm_Reload drivers a q)) = qm_hub q" "qm_panicked (snd (qm_Reload drivers a q)) = qm_panicked q"
  "qm_activeReg (snd (qm_Reload drivers a q)) = qm_activeReg q" "qm_slots (snd (qm_Reload drivers a q)) = qm_slots q"
  "qm_used (snd (qm_Reload drivers a q)) = qm_used q" "qm_draining (snd (qm_Reload drivers a q)) = qm_draining q"
proof -
  obtain e cm where a: "do_attempt a (qm_cfgManager q) = (e, cm)" by fastforce
  obtain e' q' where s: "syncPools drivers (q\<lparr>qm_cfgManager := cm\<rparr>) = (e', q')" by fastforce
  note r = syncPools_rest [of drivers "q\<lparr>qm_cfgManager := cm\<rparr>", unfolded s, simplified]
  show "qm_hub (snd (qm_Reload drivers a q)) = qm_hub q" "qm_panicked (snd (qm_Reload drivers a q)) = qm_panicked q"
    "qm_activeReg (snd (qm_Reload drivers a q)) = qm_activeReg q" "qm_slots (snd (qm_Reload drivers a q)) = qm_slots q"
    "qm_used (snd (qm_Reload drivers a q)) = qm_used q" "qm_draining (snd (qm_Reload drivers a q)) = qm_draining q"
    by (auto simp: qm_Reload_def a s Let_def r split: option.splits)
qed

text \<open>A step on the subscriptions is a step of theory \<open>Watchers\<close>, so it does not panic.\<close>

definition hub_move :: "'p QueryManager \<Rightarrow> 'p QueryManager \<Rightarrow> bool" where
  "hub_move q q' \<longleftrightarrow> (\<exists>st. q' = (case hub_exec st (qm_hub q) of None \<Rightarrow> q\<lparr>qm_panicked := True\<rparr> | Some h \<Rightarrow> q\<lparr>qm_hub := h\<rparr>))"

lemma hub_moves:
  "hub_move q (qm_notify n ev q)" "hub_move q (qm_deliver ev q)" "hub_move q (snd (subscribe_hub ev q))"
  "hub_move q (snd (recv_hub ch q))" "unwatch i ch (qm_hub q) = Some h \<Longrightarrow> hub_move q (q\<lparr>qm_hub := h\<rparr>)"
  "hub_move q (snd (take_event q))"
proof -
  show "hub_move q (qm_notify n ev q)" by (auto simp: hub_move_def qm_notify_def intro: exI [of _ "HNotify n ev"])
  show "hub_move q (qm_deliver ev q)" by (auto simp: hub_move_def qm_deliver_def intro: exI [of _ "HRemote ev"])
  show "hub_move q (snd (subscribe_hub ev q))"
    by (auto simp: hub_move_def subscribe_hub_def split: option.splits intro!: exI [of _ "HWatch ev"])
  show "hub_move q (snd (recv_hub ch q))"
    by (auto simp: hub_move_def recv_hub_def split: prod.splits intro!: exI [of _ "HReceive ch"])
  show "unwatch i ch (qm_hub q) = Some h \<Longrightarrow> hub_move q (q\<lparr>qm_hub := h\<rparr>)"
    by (auto simp: hub_move_def intro!: exI [of _ "HUnwatch i ch"])
  show "hub_move q (snd (take_event q))"
    by (auto simp: hub_move_def take_event_def split: list.splits intro!: exI [of _ "HPublished"])
qed

lemma hub_move_inv: "hub_move q q' \<Longrightarrow> manager_inv q \<Longrightarrow> manager_inv q'"
proof -
  assume m: "hub_move q q'" and i: "manager_inv q"
  then obtain st where q': "q' = (case hub_exec st (qm_hub q) of None \<Rightarrow> q\<lparr>qm_panicked := True\<rparr> | Some h \<Rightarrow> q\<lparr>qm_hub := h\<rparr>)"
    by (auto simp: hub_move_def)
  from i hub_exec_safe [of "qm_hub q" st] obtain h where "hub_exec st (qm_hub q) = Some h" "hub_inv h"
    by (auto simp: manager_inv_def)
  with i q' show ?thesis by (simp add: manager_inv_def split: option.splits)
qed

lemma hub_move_rest: "hub_move q q' \<Longrightarrow> qm_activeReg q' = qm_activeReg q \<and> qm_draining q' = qm_draining q \<and> qm_slots q' = qm_slots q"
  by (auto simp: hub_move_def split: option.splits)

lemmas hub_rest = hub_moves(1,2,3,4,6) [THEN hub_move_rest]

lemmas section_defs = admit_def deregister_def acquireSlot_def releaseSlot_def Drain_def cancelExec_def expireExec_def
  end_context_def syncPools_rest qm_Reload_rest

lemma manager_step_inv: "manager_step q q' \<Longrightarrow> manager_inv q \<Longrightarrow> manager_inv q'"
proof (induction rule: manager_step.induct)
  case (Unsubscribe i ch q h)
  then show ?case using hub_move_inv hub_moves(5) by blast
qed (auto intro: hub_move_inv hub_moves, auto simp: manager_inv_def section_defs split: option.splits)

lemma manager_steps_inv: "manager_steps q q' \<Longrightarrow> manager_inv q \<Longrightarrow> manager_inv q'"
  by (induction rule: rtranclp_induct) (auto intro: manager_step_inv)

lemma manager_step_slots: "manager_step q q' \<Longrightarrow> qm_slots q' = qm_slots q"
proof (induction rule: manager_step.induct)
  case (Unsubscribe i ch q h)
  then show ?case by simp
qed (simp_all add: hub_rest, auto simp: section_defs split: option.splits)

lemma drained_step:
  "manager_step q q' \<Longrightarrow> qm_draining q \<Longrightarrow> qm_draining q' \<and> set (mkeys (qm_activeReg q')) \<subseteq> set (mkeys (qm_activeReg q))"
proof (induction rule: manager_step.induct)
  case (Unsubscribe i ch q h)
  then show ?case by simp
qed (simp_all add: hub_rest, auto simp: section_defs split: option.splits)

lemma drained_steps:
  "manager_steps q q' \<Longrightarrow> qm_draining q \<Longrightarrow> qm_draining q' \<and> set (mkeys (qm_activeReg q')) \<subseteq> set (mkeys (qm_activeReg q))"
  by (induction rule: rtranclp_induct) (auto dest!: drained_step)

section \<open>The operations are sequences of steps\<close>

text \<open>The other goroutines act on the manager through steps, too.\<close>

definition steps_only :: "('p, 's, 'w) env \<Rightarrow> bool" where
  "steps_only E \<longleftrightarrow> (\<forall>n w. manager_steps (wd_qm w) (wd_qm (en_other E n w)))"

text \<open>The manager's state is reached from \<open>q\<close>.\<close>

abbreviation reached :: "'p QueryManager \<Rightarrow> ('p, 's, 'w) world \<Rightarrow> bool" where
  "reached q w \<equiv> manager_steps q (wd_qm w)"

lemma reached_others: "steps_only E \<Longrightarrow> reached q w \<Longrightarrow> reached q (others E w)"
  by (auto simp: steps_only_def others_def dest: rtranclp_trans)

lemma reached_step: "reached q w \<Longrightarrow> manager_step (wd_qm w) q' \<Longrightarrow> reached q (w\<lparr>wd_qm := q'\<rparr>)"
  by simp

lemma keeps_meta [keeps_intros]: "steps_only E \<Longrightarrow> keeps (reached q) (meta E f)"
  by (auto simp: keeps_def wp_meta reached_others split: prod.splits)

lemma keeps_data [keeps_intros]: "steps_only E \<Longrightarrow> keeps (reached q) (data E f)"
  by (auto simp: keeps_def wp_data reached_others split: prod.splits)

lemma keeps_look [keeps_intros]: "steps_only E \<Longrightarrow> keeps (reached q) (look E f)"
  by (auto simp: keeps_def wp_look reached_others)

lemma keeps_ask [keeps_intros]: "steps_only E \<Longrightarrow> keeps (reached q) (ask E f)"
  by (auto simp: keeps_def wp_ask reached_others)

lemma keeps_Now [keeps_intros]: "steps_only E \<Longrightarrow> keeps (reached q) (Now E)"
  by (simp add: Now_def keeps_ask)

lemma keeps_start_run [keeps_intros]: "steps_only E \<Longrightarrow> keeps (reached q) (start_run E l)"
  by (auto simp: keeps_def wp_start_run reached_others)

lemma keeps_act: "steps_only E \<Longrightarrow> (\<And>q. manager_step q (f q)) \<Longrightarrow> keeps (reached q) (act E f)"
  by (auto simp: keeps_def wp_act intro: rtranclp.rtrancl_into_rtrancl reached_others)

lemma keeps_critical: "steps_only E \<Longrightarrow> (\<And>q. manager_step q (snd (f q))) \<Longrightarrow> keeps (reached q) (critical E f)"
proof -
  assume s: "steps_only E" and f: "\<And>q. manager_step q (snd (f q))"
  have "reached q ((others E w)\<lparr>wd_qm := snd (f (wd_qm (others E w)))\<rparr>)" if "reached q w" for w
    using reached_others [OF s that] f by (simp add: rtranclp.rtrancl_into_rtrancl)
  then show ?thesis by (auto simp: keeps_def wp_critical split: prod.splits) (metis snd_conv)
qed

lemma keeps_notify [keeps_intros]: "steps_only E \<Longrightarrow> keeps (reached q) (notify E ev)"
  by (auto simp: keeps_def wp_notify intro: rtranclp.rtrancl_into_rtrancl reached_others Notify)

lemmas keeps_sections [keeps_intros] =
  keeps_act [OF _ Deregister] keeps_act [OF _ Release] keeps_act [OF _ Cancel] keeps_act [OF _ Draining]
  keeps_act [OF _ Deliver] keeps_act [OF _ Shutdown] keeps_critical [OF _ Admit] keeps_critical [OF _ Acquire]
  keeps_critical [OF _ Subscribe] keeps_critical [OF _ Receive] keeps_critical [OF _ Publish]

named_theorems operation_keeps \<open>operations of the manager are sequences of steps\<close>

lemma Watch_keeps [operation_keeps]: "steps_only E \<Longrightarrow> keeps (reached q) (Watch ms E i)"
  unfolding Watch_def by (intro keeps_intros)

lemma resolve_keeps [operation_keeps]: "steps_only E \<Longrightarrow> keeps (reached q) (resolveIdempotency ms E ctx db key opts i)"
  unfolding resolveIdempotency_def Let_def by (intro keeps_intros)

lemma check_keeps [operation_keeps]: "steps_only E \<Longrightarrow> keeps (reached q) (check_submit E db sql opts)"
  unfolding check_submit_def by (intro keeps_intros)

lemma release_claim_keeps [operation_keeps]: "steps_only E \<Longrightarrow> keeps (reached q) (release_claim ms E opts db key i)"
  unfolding release_claim_def by (intro keeps_intros)

lemma announce_keeps [operation_keeps]: "steps_only E \<Longrightarrow> keeps (reached q) (announce_query ms E rec pool dl)"
  unfolding announce_query_def by (intro keeps_intros operation_keeps)

lemma start_keeps [operation_keeps]: "steps_only E \<Longrightarrow> keeps (reached q) (start_query ms E db sql opts subject i key pool)"
  unfolding start_query_def Let_def by (intro keeps_intros operation_keeps)

lemma submit_phases_keeps [operation_keeps]: "steps_only E \<Longrightarrow> keeps (reached q) (submit_phases ms E ctx db sql opts i)"
  unfolding submit_phases_def Let_def by (intro keeps_intros operation_keeps)

lemma sync_wait_keeps [operation_keeps]: "steps_only E \<Longrightarrow> keeps (reached q) (sync_wait E ch n)"
proof (induction n)
  case (Suc n)
  have "keeps (reached q) (case r of Received ev \<Rightarrow> if IsTerminal (ev_State ev) then ret True else sync_wait E ch n
     | Ended \<Rightarrow> ret True | Blocked \<Rightarrow> sync_wait E ch n)" for r
    using Suc by (cases r) (auto intro: keeps_intros)
  with Suc.prems show ?case by (auto intro!: keeps_intros)
qed (simp add: keeps_intros)

lemma SubmitQuery_keeps: "steps_only E \<Longrightarrow> keeps (reached q) (SubmitQuery ms E fuel ctx db sql opts)"
proof -
  assume s: "steps_only E"
  have "keeps (reached q) (case r of Rejected e \<Rightarrow> ret (Some (Inl e)) | Existing rec \<Rightarrow> ret (Some (Inr rec))
     | Started rec syncCh \<Rightarrow>
       if opt_Mode (qr_Options rec) = ''sync'' then do {
         done \<leftarrow> (case syncCh of None \<Rightarrow> ret True | Some ch \<Rightarrow> sync_wait E ch fuel);
         if \<not> done then ret None
         else do { r \<leftarrow> qm_GetQuery ms E i; ret (Some r) }
       }
       else ret (Some (Inr rec)))" for r i
    using s by (cases r) (auto simp: qm_GetQuery_def intro!: keeps_intros operation_keeps)
  with s show ?thesis unfolding SubmitQuery_def by (intro keeps_intros operation_keeps)
qed

lemma persist_keeps [operation_keeps]: "steps_only E \<Longrightarrow> keeps (reached q) (persist ms E rec n)"
  by (induction n) (auto intro!: keeps_intros)

lemma complete_keeps [operation_keeps]: "steps_only E \<Longrightarrow> keeps (reached q) (complete ms E rec st)"
  unfolding complete_def Let_def by (intro keeps_intros operation_keeps)

lemma finishRun_keeps [operation_keeps]: "steps_only E \<Longrightarrow> keeps (reached q) (finishRun ms E rec st qErr d1 d2)"
  unfolding finishRun_def Let_def by (intro keeps_intros operation_keeps)

text \<open>Encoding: the clock, the writer, the reports and the context act on the world through accesses.\<close>

lemma on_world_kept: "keeps (reached q) m \<Longrightarrow> reached q (rn_world x) \<Longrightarrow> reached q (rn_world (snd (on_world m x)))"
  by (auto simp: on_world_def keeps_def wp_def split_beta)

lemma on_world_reached:
  "keeps (reached q) m \<Longrightarrow> on_world m x = (r, x') \<Longrightarrow> reached q (rn_world x) \<Longrightarrow> reached q (rn_world x')"
  using on_world_kept [of q m x] by simp

lemma write_progress_reached: "steps_only E \<Longrightarrow> reached q (rn_world x) \<Longrightarrow> reached q (rn_world (write_progress ms E x))"
  unfolding write_progress_def Let_def
  by (auto split: option.splits prod.splits dest: on_world_reached [OF keeps_meta])

lemma writer_step_reached: "steps_only E \<Longrightarrow> reached q (rn_world x) \<Longrightarrow> reached q (rn_world (writer_step ms E x))"
  by (simp add: writer_step_def write_progress_reached receive_progress_def)

lemma stop_reporting_reached: "steps_only E \<Longrightarrow> reached q (rn_world x) \<Longrightarrow> reached q (rn_world (stop_reporting ms E x))"
  by (simp add: stop_reporting_def write_progress_reached receive_progress_def)

lemma progress_report_reached: "steps_only E \<Longrightarrow> reached q (rn_world x) \<Longrightarrow> reached q (rn_world (progress_report E n b x))"
  unfolding progress_report_def Let_def split_beta
  by (auto intro!: on_world_kept keeps_Now keeps_notify)

lemma run_write_reached: "steps_only E \<Longrightarrow> run_write E store h p x = (r, x') \<Longrightarrow> reached q (rn_world x) \<Longrightarrow> reached q (rn_world x')"
  unfolding run_write_def Let_def
  by (auto split: prod.splits option.splits if_splits dest: on_world_reached [OF keeps_data])

interpretation job_steps: surroundings "run_enc_env ms E store h i" "\<lambda>x. steps_only E \<and> reached q (rn_world x)"
  for ms E store h i q
  by unfold_locales
    (auto simp: run_enc_env_def intro: progress_report_reached writer_step_reached
      dest: on_world_reached [OF keeps_Now] on_world_reached [OF keeps_look] run_write_reached)

lemma stream_rows_keeps [operation_keeps]: "steps_only E \<Longrightarrow> keeps (reached q) (stream_rows ms E store h rec rows)"
  unfolding keeps_def wp_def stream_rows_def
  by (auto simp: Let_def split: prod.splits dest!: job_steps.EncodeStream_kept intro: stop_reporting_reached)

lemma conclude_keeps [operation_keeps]:
  "steps_only E \<Longrightarrow> keeps (reached q) (conclude ms E store ref rec res tx closeErr t d1 d2)"
  unfolding conclude_def deletePartial_def Let_def by (intro keeps_intros operation_keeps)

lemma run_keeps: "steps_only E \<Longrightarrow> keeps (reached q) (run ms E l)"
  unfolding run_def run_body_def after_exec_def store_result_def write_result_def Let_def
  by (intro keeps_intros operation_keeps)

section \<open>The workers are sequences of steps\<close>

lemma StopQuery_keeps: "steps_only E \<Longrightarrow> keeps (reached q) (StopQuery ms E i)"
  unfolding StopQuery_def by (intro keeps_intros)

lemma heartbeat_tick_keeps: "steps_only E \<Longrightarrow> keeps (reached q) (heartbeat_tick ms E)"
  unfolding heartbeat_tick_def by (intro keeps_intros)

lemma keeps_control [keeps_intros]:
  "keeps P m \<Longrightarrow> keeps P n \<Longrightarrow> keeps P (case t of ControlStopQuery \<Rightarrow> m | ControlQueryEvent \<Rightarrow> n)"
  by (simp split: ControlType.splits)

lemma handle_control_keeps [operation_keeps]: "steps_only E \<Longrightarrow> keeps (reached q) (handle_control E msg)"
  unfolding handle_control_def by (intro keeps_intros)

lemma control_loop_keeps [operation_keeps]: "steps_only E \<Longrightarrow> keeps (reached q) (control_loop E msgs)"
  by (induction msgs) (auto intro!: keeps_intros operation_keeps)

lemma controlWorker_keeps: "steps_only E \<Longrightarrow> keeps (reached q) (controlWorker ms E msgs)"
  unfolding controlWorker_def by (intro keeps_intros operation_keeps)

lemma collectQuery_keeps [operation_keeps]: "steps_only E \<Longrightarrow> keeps (reached q) (collectQuery ms E i)"
  unfolding collectQuery_def collect_expired_def mark_expired_def delete_result_def release_key_def Let_def by (intro keeps_intros)

lemma collect_loop_keeps [operation_keeps]: "steps_only E \<Longrightarrow> keeps (reached q) (collect_loop ms E dl is)"
  by (induction "is") (auto intro!: keeps_intros operation_keeps)

lemma keeps_bool [keeps_intros]: "keeps P m \<Longrightarrow> keeps P n \<Longrightarrow> keeps P (case b of True \<Rightarrow> m | False \<Rightarrow> n)"
  by (simp split: bool.splits)

lemma collectGarbage_keeps: "steps_only E \<Longrightarrow> keeps (reached q) (collectGarbage ms E)"
  unfolding collectGarbage_def by (intro keeps_intros operation_keeps)

lemma failOwnerLost_keeps [operation_keeps]: "steps_only E \<Longrightarrow> keeps (reached q) (failOwnerLost ms E rec)"
  unfolding failOwnerLost_def Let_def by (intro keeps_intros)

lemma reap_loop_keeps [operation_keeps]: "steps_only E \<Longrightarrow> keeps (reached q) (reap_loop ms E g is)"
  by (induction "is") (auto simp: reap_one_def intro!: keeps_intros operation_keeps)

lemma reapStaleOwners_keeps: "steps_only E \<Longrightarrow> keeps (reached q) (reapStaleOwners ms E)"
  unfolding reapStaleOwners_def by (intro keeps_intros operation_keeps)

lemma cancel_all_keeps [operation_keeps]: "steps_only E \<Longrightarrow> keeps (reached q) (cancel_all E is)"
  by (induction "is") (auto intro!: keeps_intros)

lemma drain_queue_keeps [operation_keeps]: "steps_only E \<Longrightarrow> keeps (reached q) (drain_queue ms E dl n)"
  by (induction n) (auto intro!: keeps_intros)

lemma qm_Close_keeps: "steps_only E \<Longrightarrow> keeps (reached q) (qm_Close ms E n)"
  unfolding qm_Close_def cancelActive_def by (intro keeps_intros operation_keeps)

section \<open>Properties\<close>

text \<open>The operations and workers of one process, as programs without a result.\<close>

datatype 'p operation =
    Submit nat Context string string QueryOptions
  | Run "'p launch"
  | Stop string
  | Subscribing string
  | Heartbeat
  | Control "ControlMsg list"
  | Collect
  | Reap
  | Closing nat

definition no_result :: "('w, 'a) state \<Rightarrow> ('w, unit) state" where
  "no_result m = do { _ \<leftarrow> m; ret () }"

fun perform :: "'s MetaStore \<Rightarrow> ('p, 's, 'w) env \<Rightarrow> 'p operation \<Rightarrow> ('p, 's, 'w, unit) prog" where
  "perform ms E (Submit fuel ctx db sql opts) = no_result (SubmitQuery ms E fuel ctx db sql opts)"
| "perform ms E (Run l) = no_result (run ms E l)"
| "perform ms E (Stop i) = no_result (StopQuery ms E i)"
| "perform ms E (Subscribing i) = no_result (Watch ms E i)"
| "perform ms E Heartbeat = heartbeat_tick ms E"
| "perform ms E (Control msgs) = controlWorker ms E msgs"
| "perform ms E Collect = collectGarbage ms E"
| "perform ms E Reap = reapStaleOwners ms E"
| "perform ms E (Closing n) = no_result (qm_Close ms E n)"

lemma perform_keeps: "steps_only E \<Longrightarrow> keeps (reached q) (perform ms E op)"
  by (cases op) (auto simp: no_result_def intro!: keeps_intros operation_keeps SubmitQuery_keeps run_keeps StopQuery_keeps
    heartbeat_tick_keeps controlWorker_keeps collectGarbage_keeps reapStaleOwners_keeps qm_Close_keeps)


lemma alone_steps: "alone E \<Longrightarrow> steps_only E"
  by (simp add: alone_def steps_only_def)


text \<open>
  C7. A drained instance becomes quiet and stays so. After \<^verbatim>\<open>Drain\<close> no step of any goroutine
  adds a query to the registry: every query in flight later was in flight at the drain, and once
  the registry is empty it is empty for ever - so a count of zero after the drain means that
  nothing is running and nothing will start. The instance never leaves the drain.
\<close>

theorem drain_quiesces:
  assumes "manager_steps (Drain q) q1" and "manager_steps q1 q2"
  shows "qm_draining q2 \<and> set (mkeys (qm_activeReg q2)) \<subseteq> set (mkeys (qm_activeReg q1))
    \<and> set (mkeys (qm_activeReg q1)) \<subseteq> set (mkeys (qm_activeReg q))
    \<and> (qm_activeReg q1 = [] \<longrightarrow> qm_activeReg q2 = []) \<and> fst (admit i db q2) = Some DrainingError"
proof -
  have "qm_draining q1" "set (mkeys (qm_activeReg q1)) \<subseteq> set (mkeys (qm_activeReg q))"
    using drained_steps [OF assms(1)] by (simp_all add: Drain_def)
  moreover from this(1) have "qm_draining q2" "set (mkeys (qm_activeReg q2)) \<subseteq> set (mkeys (qm_activeReg q1))"
    using drained_steps [OF assms(2)] by simp_all
  ultimately show ?thesis by (auto simp: admit_def mkeys_def)
qed

theorem drain_quiesces_witness:
  "let q = snd (admit ''q1'' ''main'' sample_qm); q1 = deregister ''q1'' (Drain q); q2 = snd (admit ''q2'' ''main'' q1) in
   qm_activeReg q1 = [] \<and> qm_activeReg q2 = []"
proof -
  define q where "q = snd (admit ''q1'' ''main'' sample_qm)"
  define q1 where "q1 = deregister ''q1'' (Drain q)"
  have "manager_steps (Drain q) q1" unfolding q1_def by (rule r_into_rtranclp) (rule Deregister)
  moreover have "manager_steps q1 (snd (admit ''q2'' ''main'' q1))" by (rule r_into_rtranclp) (rule Admit)
  moreover have "qm_activeReg q1 = []"
    by (simp add: q1_def q_def deregister_def Drain_def admit_def sample_qm_def mdel_def mput_def)
  ultimately show ?thesis using drain_quiesces [of q q1 "snd (admit ''q2'' ''main'' q1)"]
    unfolding Let_def q_def [symmetric] q1_def [symmetric] by blast
qed

end
