(* ===== verification/Upkeep.thy ===== *)
theory Upkeep
  imports Workers
begin

text \<open>
  What the background workers do to the stored records: the reaper and the recovery at startup
  against lost owners, garbage collection, and how a stop reaches the instance that owns a query.
  The metadata store is the memory store.
\<close>

section \<open>Finished queries are left alone\<close>

text \<open>The others keep terminal records, as everybody who writes conditionally does.\<close>

definition verdicts_kept :: "('p, mem, 'w) env \<Rightarrow> bool" where
  "verdicts_kept E \<longleftrightarrow>
     (\<forall>n w i r. mget (mm_queries (wd_meta w)) i = Some r \<longrightarrow> IsTerminal (qr_State r) \<longrightarrow>
        mget (mm_queries (wd_meta (en_other E n w))) i = Some r)"

definition has_final :: "string \<Rightarrow> QueryRecord \<Rightarrow> ('p, mem, 'w) world \<Rightarrow> bool" where
  "has_final i r w \<longleftrightarrow> IsTerminal (qr_State r) \<and> mget (mm_queries (wd_meta w)) i = Some r"

lemma final_others: "verdicts_kept E \<Longrightarrow> has_final i r w \<Longrightarrow> has_final i r (others E w)"
  by (simp add: verdicts_kept_def has_final_def others_def)

lemma final_qm [simp]: "has_final i r (w\<lparr>wd_qm := q\<rparr>) = has_final i r w"
  by (simp add: has_final_def)

lemma final_update: "mem_UpdateQueryIfState now rec [StatePending, StateRunning] (wd_meta w) = (x, m') \<Longrightarrow> has_final i r w \<Longrightarrow>
    has_final i r (w\<lparr>wd_meta := m'\<rparr>)"
  by (cases "qr_State r") (auto simp: mem_UpdateQueryIfState_def has_final_def mem_write_def Let_def split: option.splits if_splits)

lemma keeps_final_look [keeps_intros]: "verdicts_kept E \<Longrightarrow> keeps (has_final i r) (look E f)"
  by (auto simp: keeps_def wp_look final_others)

lemma keeps_final_Now [keeps_intros]: "verdicts_kept E \<Longrightarrow> keeps (has_final i r) (Now E)"
  by (auto simp: keeps_def wp_Now final_others)

lemma keeps_final_notify [keeps_intros]: "verdicts_kept E \<Longrightarrow> keeps (has_final i r) (notify E ev)"
  by (auto simp: keeps_def wp_notify final_others)

text \<open>A call of the store that leaves the records alone.\<close>

lemma keeps_final_meta:
  "verdicts_kept E \<Longrightarrow> (\<And>now m x m'. f now m = (x, m') \<Longrightarrow> mm_queries m' = mm_queries m) \<Longrightarrow> keeps (has_final i r) (meta E f)"
proof -
  assume f: "verdicts_kept E" and r: "\<And>now m x m'. f now m = (x, m') \<Longrightarrow> mm_queries m' = mm_queries m"
  have "has_final i r ((others E w)\<lparr>wd_meta := m'\<rparr>)" if "has_final i r w" "f now (wd_meta (others E w)) = (x, m')" for w now x m'
    using final_others [OF f that(1)] r [OF that(2)] by (simp add: has_final_def)
  then show ?thesis by (auto simp: keeps_def wp_meta split: prod.splits)
qed

lemma mem_reads:
  "mem_GetQuery now j m = (x, m') \<Longrightarrow> mm_queries m' = mm_queries m"
  "mem_ListStaleQueries now m = (y, m') \<Longrightarrow> mm_queries m' = mm_queries m"
  "mem_ListByInstance now inst m = (y, m') \<Longrightarrow> mm_queries m' = mm_queries m"
  by (auto simp: mem_GetQuery_def mem_ListStaleQueries_def mem_ListByInstance_def split: option.splits)

lemmas keeps_final_reads [keeps_intros] =
  keeps_final_meta [where f = "\<lambda>now. mem_GetQuery now j" for j, OF _ mem_reads(1)]
  keeps_final_meta [where f = mem_ListStaleQueries, OF _ mem_reads(2)]
  keeps_final_meta [where f = "\<lambda>now. mem_ListByInstance now inst" for inst, OF _ mem_reads(3)]

lemma keeps_final_update [keeps_intros]:
  "verdicts_kept E \<Longrightarrow> keeps (has_final i r) (meta E (\<lambda>now. mem_UpdateQueryIfState now rec [StatePending, StateRunning]))"
  by (auto simp: keeps_def wp_meta split: prod.splits intro: final_update final_others)

lemma keeps_bool' [keeps_intros]: "keeps P m \<Longrightarrow> keeps P n \<Longrightarrow> keeps P (case b of True \<Rightarrow> m | False \<Rightarrow> n)"
  by (simp split: bool.splits)

lemma failOwnerLost_final [keeps_intros]: "verdicts_kept E \<Longrightarrow> keeps (has_final i r) (failOwnerLost mem_store E rec)"
  unfolding failOwnerLost_def Let_def mem_store_simps by (intro keeps_intros)

lemma reap_loop_final [keeps_intros]: "verdicts_kept E \<Longrightarrow> keeps (has_final i r) (reap_loop mem_store E g is)"
  by (induction "is") (auto simp: reap_one_def intro!: keeps_intros)

lemma recover_loop_final [keeps_intros]: "verdicts_kept E \<Longrightarrow> keeps (has_final i r) (recover_loop mem_store E is)"
  by (induction "is") (auto simp: recover_one_def intro!: keeps_intros)

text \<open>
  C6. A verdict is final for the reapers. As long as the others write conditionally as well, neither
  the reaper of lost owners nor the recovery at startup changes a record that is terminal when it
  starts, whatever it read before and however often the record is listed as stale.
\<close>

theorem reapers_keep_verdicts:
  assumes "verdicts_kept E" and "IsTerminal (qr_State r)" and "mget (mm_queries (wd_meta w)) i = Some r"
    and "op = reapStaleOwners mem_store E \<or> op = recoverOrphans mem_store E" and "run_state op w = (u, w')"
  shows "mget (mm_queries (wd_meta w')) i = Some r"
proof -
  have "keeps (has_final i r) (reapStaleOwners mem_store E)"
    unfolding reapStaleOwners_def mem_store_simps by (intro keeps_intros assms(1))
  moreover have "keeps (has_final i r) (recoverOrphans mem_store E)"
    unfolding recoverOrphans_def mem_store_simps by (intro keeps_intros assms(1))
  moreover note assms(4)
  ultimately have "keeps (has_final i r) op" by blast
  with assms(2,3) have "wp op (\<lambda>_. has_final i r) w" by (auto simp: keeps_def has_final_def)
  then show ?thesis by (simp add: wp_run [OF assms(5)] has_final_def)
qed

section \<open>Lost owners\<close>

text \<open>The record of a query whose owner is lost, as the store keeps it.\<close>

definition verdict :: "QueryRecord \<Rightarrow> time \<Rightarrow> QueryRecord" where
  "verdict r t = strip_lease (r\<lparr>qr_State := StateFailed, qr_FinishedAt := t, qr_Error := Some owner_lost\<rparr>)"

lemma verdict_failed [simp]: "qr_State (verdict r t) = StateFailed"
  by (simp add: verdict_def)

text \<open>
  What a sweep does to one record, \<open>b\<close> saying whether the query is among those it goes through:
  a query in flight that meets the condition \<open>may\<close> whenever the clock is read gets the verdict, no
  query gets it that does not meet the condition at some reading, and no other record changes.
\<close>

definition swept_record :: "('p, mem, 'w) env \<Rightarrow> (QueryRecord \<Rightarrow> time \<Rightarrow> bool) \<Rightarrow> bool \<Rightarrow> QueryRecord option \<Rightarrow> QueryRecord option \<Rightarrow> bool" where
  "swept_record E may b x y \<longleftrightarrow>
     y = x \<and> (\<forall>r. b \<longrightarrow> x = Some r \<longrightarrow> in_flight_state (qr_State r) \<longrightarrow> (\<exists>n. \<not> may r (en_clk E n))) \<or>
     b \<and> (\<exists>r n t. x = Some r \<and> in_flight_state (qr_State r) \<and> may r (en_clk E n) \<and> y = Some (verdict r t))"

lemma swept_record_trans:
  assumes "swept_record E may b x y" "swept_record E may c y z"
  shows "swept_record E may (b \<or> c) x z"
proof (cases "y = x")
  case True
  with assms show ?thesis unfolding swept_record_def by (metis (no_types, lifting))
next
  case False
  with assms(1) obtain r n t where y: "b" "x = Some r" "in_flight_state (qr_State r)" "may r (en_clk E n)" "y = Some (verdict r t)"
    by (auto simp: swept_record_def)
  with assms(2) have "z = y" by (auto simp: swept_record_def in_flight_state_def)
  with y show ?thesis by (auto simp: swept_record_def)
qed

definition swept :: "('p, mem, 'w) env \<Rightarrow> (QueryRecord \<Rightarrow> time \<Rightarrow> bool) \<Rightarrow> string set \<Rightarrow> ('p, mem, 'w) world \<Rightarrow> ('p, mem, 'w) world \<Rightarrow> bool" where
  "swept E may S w w' \<longleftrightarrow>
     mem_inv (wd_meta w') \<and> qm_activeReg (wd_qm w') = qm_activeReg (wd_qm w) \<and> qm_instanceID (wd_qm w') = qm_instanceID (wd_qm w) \<and>
     (\<forall>j. swept_record E may (j \<in> S) (mget (mm_queries (wd_meta w)) j) (mget (mm_queries (wd_meta w')) j))"

lemma sweptD:
  assumes "swept E may S w w'"
  shows "mem_inv (wd_meta w')" "qm_activeReg (wd_qm w') = qm_activeReg (wd_qm w)" "qm_instanceID (wd_qm w') = qm_instanceID (wd_qm w)"
  using assms by (simp_all add: swept_def)

lemma swept_tick [simp]: "swept E may S (w\<lparr>wd_tick := n\<rparr>) = swept E may S w"
  by (simp add: swept_def fun_eq_iff)

lemma swept_refl: "mem_inv (wd_meta w) \<Longrightarrow> swept E may {} w w"
  by (simp add: swept_def swept_record_def)

lemma swept_trans: "swept E may S w w1 \<Longrightarrow> swept E may T w1 w2 \<Longrightarrow> swept E may (S \<union> T) w w2"
  unfolding swept_def by (auto intro: swept_record_trans)

text \<open>A sweep is one step per query.\<close>

lemma sweep_seq:
  assumes "wp m (\<lambda>_. swept E may S w) w" and "\<And>w1. swept E may S w w1 \<Longrightarrow> wp n (\<lambda>_. swept E may T w1) w1"
    and "U = S \<union> T"
  shows "wp (m \<bind> (\<lambda>_. n)) (\<lambda>_. swept E may U w) w"
  unfolding wp_bind
proof (rule wp_mono [OF assms(1)])
  fix w1 assume s: "swept E may S w w1"
  show "wp n (\<lambda>_. swept E may U w) w1"
    by (rule wp_mono [OF assms(2) [OF s]]) (simp add: assms(3) swept_trans [OF s])
qed

lemma notify_kept [simp]:
  "qm_activeReg (qm_notify d ev qm) = qm_activeReg qm" "qm_instanceID (qm_notify d ev qm) = qm_instanceID qm"
  by (simp_all add: qm_notify_def Let_def split: option.splits prod.splits)

lemma mem_write_queries: "mm_queries (mem_write r m) = mput (qr_ID r) (strip_lease r) (mm_queries m)"
  by (simp add: mem_write_def Let_def)

lemma failOwnerLost_alone:
  assumes "alone E" and "mem_inv (wd_meta w)" and "mget (mm_queries (wd_meta w)) i = Some r" and "strip_lease rec = r"
    and "may r (en_clk E n)"
    and "wd_meta w0 = wd_meta w" "qm_activeReg (wd_qm w0) = qm_activeReg (wd_qm w)" "qm_instanceID (wd_qm w0) = qm_instanceID (wd_qm w)"
  shows "wp (failOwnerLost mem_store E rec) (\<lambda>_. swept E may {i} w0) w"
proof -
  have id: "qr_ID rec = i" using mem.stored [OF assms(2), of i r] assms(3,4) by (auto simp: mem_view_def)
  have v: "strip_lease (rec\<lparr>qr_State := StateFailed, qr_FinishedAt := t, qr_Error := Some owner_lost\<rparr>) = verdict r t" for t
    by (simp add: verdict_def strip_lease_def assms(4) [symmetric])
  show ?thesis
  proof (cases "in_flight_state (qr_State r)")
    case True
    then have "qr_State r \<in> {StatePending, StateRunning}" by (simp add: in_flight_state_def)
    with True show ?thesis unfolding failOwnerLost_def Let_def using assms(3,5-) mem_write_inv [OF assms(2)]
      by (auto simp: wp_access wp_meta alone_others [OF assms(1)] mem_UpdateQueryIfState_def id swept_def swept_record_def
          mem_write_queries v)
  next
    case False
    then have "qr_State r \<notin> {StatePending, StateRunning}" by (simp add: in_flight_state_def)
    with False show ?thesis unfolding failOwnerLost_def Let_def using assms(2,3,5-)
      by (auto simp: wp_access wp_meta alone_others [OF assms(1)] mem_UpdateQueryIfState_def id swept_def swept_record_def)
  qed
qed

lemma get_alone:
  assumes "alone E" and "mem_inv (wd_meta w)"
  shows "mget (mm_queries (wd_meta w)) i = None \<Longrightarrow> Q (Inl ErrNotFound) (others E w) \<Longrightarrow> wp (meta E (\<lambda>now. mem_GetQuery now i)) Q w"
    and "mget (mm_queries (wd_meta w)) i = Some r \<Longrightarrow> (\<And>rec. strip_lease rec = r \<Longrightarrow> Q (Inr rec) (others E w)) \<Longrightarrow>
      wp (meta E (\<lambda>now. mem_GetQuery now i)) Q w"
proof -
  have o: "(others E w)\<lparr>wd_meta := wd_meta w\<rparr> = others E w" by (simp add: alone_others [OF assms(1)])
  show "mget (mm_queries (wd_meta w)) i = None \<Longrightarrow> Q (Inl ErrNotFound) (others E w) \<Longrightarrow> wp (meta E (\<lambda>now. mem_GetQuery now i)) Q w"
    by (simp add: wp_meta mem_GetQuery_def alone_others [OF assms(1)])
  assume r: "mget (mm_queries (wd_meta w)) i = Some r" and q: "\<And>rec. strip_lease rec = r \<Longrightarrow> Q (Inr rec) (others E w)"
  have "strip_lease r = r" using mem.stored [OF assms(2), of i r] r by (simp add: mem_view_def)
  then have "strip_lease (r\<lparr>qr_LeaseDeadline := e\<rparr>) = r" for e by (simp add: strip_lease_def)
  with r q \<open>strip_lease r = r\<close> show "wp (meta E (\<lambda>now. mem_GetQuery now i)) Q w"
    by (auto simp: wp_meta mem_GetQuery_def alone_others [OF assms(1)] split: option.splits)
qed

lemma recover_one_alone:
  assumes "alone E" and "mem_inv (wd_meta w)"
  shows "wp (recover_one mem_store E i) (\<lambda>_. swept E (\<lambda>_ _. True) {i} w) w"
proof (cases "mget (mm_queries (wd_meta w)) i")
  case None
  show ?thesis unfolding recover_one_def wp_bind mem_store_simps
    by (rule get_alone(1) [OF assms None]) (simp add: swept_def swept_record_def assms(2) alone_others [OF assms(1)] None)
next
  case (Some r)
  have one: "wp (if IsTerminal (qr_State rec) then ret () else failOwnerLost mem_store E rec) (\<lambda>_. swept E (\<lambda>_ _. True) {i} w) (others E w)"
    if "strip_lease rec = r" for rec
  proof (cases "IsTerminal (qr_State rec)")
    case True
    with that have "\<not> in_flight_state (qr_State r)" by (auto simp: in_flight_state_def)
    with True show ?thesis by (simp add: swept_def swept_record_def assms(2) alone_others [OF assms(1)] Some)
  next
    case False
    have "wp (failOwnerLost mem_store E rec) (\<lambda>_. swept E (\<lambda>_ _. True) {i} w) (others E w)"
      by (rule failOwnerLost_alone [OF assms(1) _ _ that]) (simp_all add: alone_others [OF assms(1)] assms(2) Some)
    with False show ?thesis by (simp only: if_False)
  qed
  show ?thesis unfolding recover_one_def wp_bind mem_store_simps
    by (rule get_alone(2) [OF assms Some]) (simp only: sum.case one)
qed

lemma recover_loop_alone:
  "alone E \<Longrightarrow> mem_inv (wd_meta w) \<Longrightarrow> wp (recover_loop mem_store E is) (\<lambda>_. swept E (\<lambda>_ _. True) (set is) w) w"
proof (induction "is" arbitrary: w)
  case (Cons i "is")
  show ?case unfolding recover_loop.simps
    by (rule sweep_seq [OF recover_one_alone [OF Cons.prems]]) (rule Cons.IH [OF Cons.prems(1)], simp_all add: swept_def)
qed (simp add: swept_refl)

text \<open>The condition of the reaper: a foreign owner, and older than the grace period.\<close>

definition abandoned :: "string \<Rightarrow> duration \<Rightarrow> QueryRecord \<Rightarrow> time \<Rightarrow> bool" where
  "abandoned inst grace r now \<longleftrightarrow> qr_OwnerInstanceID r \<noteq> inst \<and> grace \<le> time_Sub now (qr_CreatedAt r)"

lemma reap_one_alone:
  assumes "alone E" and "mem_inv (wd_meta w)" and "inst = qm_instanceID (wd_qm w)"
  shows "wp (reap_one mem_store E g i) (\<lambda>_. swept E (abandoned inst g) {j. j = i \<and> \<not> registered j (wd_qm w)} w) w"
proof -
  let ?Q = "\<lambda>_. swept E (abandoned inst g) {j. j = i \<and> \<not> registered j (wd_qm w)} w"
  let ?w = "\<lambda>n. w\<lparr>wd_tick := n\<rparr>"
  have idle: "swept E (abandoned inst g) {j. j = i \<and> \<not> registered j (wd_qm w)} w (?w n)"
    if "registered i (wd_qm w) \<or> (\<forall>r. mget (mm_queries (wd_meta w)) i = Some r \<longrightarrow> (\<exists>n. \<not> abandoned inst g r (en_clk E n)))" for n
    using that by (auto simp: swept_def swept_record_def assms(2))
  have body: "wp (meta E (\<lambda>now. mem_GetQuery now i)) (\<lambda>r. wp (case r of Inl _ \<Rightarrow> ret () | Inr rec \<Rightarrow> do {
           inst \<leftarrow> look E qm_instanceID;
           if qr_OwnerInstanceID rec = inst then ret ()
           else do { now \<leftarrow> Now E; if time_Sub now (qr_CreatedAt rec) < g then ret () else failOwnerLost mem_store E rec } }) ?Q) (?w n)"
    if reg: "\<not> registered i (wd_qm w)" for n
  proof (cases "mget (mm_queries (wd_meta w)) i")
    case None
    show ?thesis by (rule get_alone(1) [OF assms(1)]) (simp_all add: None assms(2) idle alone_others [OF assms(1)])
  next
    case (Some r)
    have fail: "wp (failOwnerLost mem_store E rec) ?Q (?w n')" if "strip_lease rec = r" "abandoned inst g r (en_clk E k)" for rec n' k
    proof -
      have "wp (failOwnerLost mem_store E rec) (\<lambda>_. swept E (abandoned inst g) {i} w) (?w n')"
        by (rule failOwnerLost_alone [where may = "abandoned inst g", OF assms(1) _ _ that]) (simp_all add: assms(2) Some)
      with reg show ?thesis by (simp add: Collect_conv_if)
    qed
    have one: "wp (look E qm_instanceID) (\<lambda>inst. wp (if qr_OwnerInstanceID rec = inst then ret ()
           else do { now \<leftarrow> Now E; if time_Sub now (qr_CreatedAt rec) < g then ret () else failOwnerLost mem_store E rec }) ?Q) (?w k)"
      if r: "strip_lease rec = r" for rec k
    proof -
      have eq: "qr_OwnerInstanceID rec = qr_OwnerInstanceID r" "qr_CreatedAt rec = qr_CreatedAt r" using r by auto
      show ?thesis
      proof (cases "abandoned inst g r (en_clk E (Suc k))")
        case True
        with fail [OF r True] show ?thesis by (simp add: wp_access alone_others [OF assms(1)] eq abandoned_def assms(3))
      next
        case False
        with Some have "\<forall>r. mget (mm_queries (wd_meta w)) i = Some r \<longrightarrow> (\<exists>n. \<not> abandoned inst g r (en_clk E n))" by auto
        with False idle show ?thesis by (auto simp: wp_access alone_others [OF assms(1)] eq abandoned_def assms(3))
      qed
    qed
    have t: "others E (?w n) = ?w (Suc n)" by (simp add: alone_others [OF assms(1)])
    have m: "mem_inv (wd_meta (?w n))" "mget (mm_queries (wd_meta (?w n))) i = Some r" by (simp_all add: assms(2) Some)
    show ?thesis by (rule get_alone(2) [OF assms(1) m]) (simp only: t sum.case wp_bind one)
  qed
  then show ?thesis unfolding reap_one_def
    by (simp add: wp_access alone_others [OF assms(1)] idle)
qed

lemma registered_cong: "qm_activeReg q = qm_activeReg q' \<Longrightarrow> registered j q = registered j q'"
  by (simp add: registered_def)

lemma reap_loop_alone:
  "alone E \<Longrightarrow> mem_inv (wd_meta w) \<Longrightarrow> inst = qm_instanceID (wd_qm w) \<Longrightarrow>
     wp (reap_loop mem_store E g is) (\<lambda>_. swept E (abandoned inst g) {j \<in> set is. \<not> registered j (wd_qm w)} w) w"
proof (induction "is" arbitrary: w)
  case (Cons i "is")
  have rest: "wp (reap_loop mem_store E g is) (\<lambda>_. swept E (abandoned inst g) {j \<in> set is. \<not> registered j (wd_qm w)} w1) w1"
    if "swept E (abandoned inst g) {j. j = i \<and> \<not> registered j (wd_qm w)} w w1" for w1
  proof -
    have "qm_activeReg (wd_qm w1) = qm_activeReg (wd_qm w)" using that by (simp add: swept_def)
    then have "registered j (wd_qm w1) = registered j (wd_qm w)" for j by (rule registered_cong)
    with Cons.IH [OF Cons.prems(1), of w1] Cons.prems sweptD [OF that] show ?thesis by simp
  qed
  show ?case unfolding reap_loop.simps by (rule sweep_seq [OF reap_one_alone [OF Cons.prems] rest]) auto
qed (simp add: swept_refl)

definition foreign_record :: QueryRecord where
  "foreign_record = sample_record\<lparr>qr_OwnerInstanceID := ''n2''\<rparr>"

definition orphan_world :: "QueryRecord \<Rightarrow> (nat, mem, string) world" where
  "orphan_world r = sample_world\<lparr>wd_meta := mem_write r NewMemoryMetaStore\<rparr>"

definition late_env :: "(nat, mem, string) env" where
  "late_env = sample_env\<lparr>en_clk := (\<lambda>n. 24 * Hour)\<rparr>"

lemma orphan_world:
  "mem_inv (wd_meta (orphan_world r))" "wd_qm (orphan_world r) = wd_qm sample_world"
  "mget (mm_queries (wd_meta (orphan_world r))) (qr_ID r) = Some (strip_lease r)" "mm_leases (wd_meta (orphan_world r)) = []"
  by (simp_all add: orphan_world_def mem_write_inv mem_inv_new) (simp_all add: mem_write_def NewMemoryMetaStore_def Let_def mdel_def)

lemma alone_late: "alone late_env"
  by (simp add: late_env_def alone_def sample_env_def)

theorem reapers_keep_verdicts_witness:
  "mget (mm_queries (wd_meta (snd (run_state (reapStaleOwners mem_store late_env)
     (orphan_world (foreign_record\<lparr>qr_State := StateSucceeded\<rparr>)))))) ''q1'' = Some (foreign_record\<lparr>qr_State := StateSucceeded\<rparr>)"
proof -
  let ?r = "foreign_record\<lparr>qr_State := StateSucceeded\<rparr>"
  have k: "verdicts_kept late_env" using alone_late by (simp add: verdicts_kept_def alone_def)
  have "qr_ID ?r = ''q1''" "strip_lease ?r = ?r" by (simp_all add: foreign_record_def sample_record_def strip_lease_def)
  with orphan_world(3) [of ?r] have m: "mget (mm_queries (wd_meta (orphan_world ?r))) ''q1'' = Some ?r" by simp
  have t: "IsTerminal (qr_State ?r)" by simp
  obtain u w' where "run_state (reapStaleOwners mem_store late_env) (orphan_world ?r) = (u, w')" by (metis surj_pair)
  with reapers_keep_verdicts [OF k t m] show ?thesis by fastforce
qed



text \<open>
  C38. Recovery at startup. With nobody interfering, an instance that starts leaves no query in
  flight under its own name: everything its previous process left pending or running has failed
  with OWNER_LOST, so its share of the in-flight count is zero. All other records - those of
  other instances and all finished ones - are as they were.
\<close>

theorem recovery_clears_own:
  assumes "alone E" and "mem_inv (wd_meta w)" and "run_state (recoverOrphans mem_store E) w = (u, w')"
  defines "own \<equiv> \<lambda>r. qr_OwnerInstanceID r = qm_instanceID (wd_qm w) \<and> in_flight_state (qr_State r)"
  shows "fst (mem_CountInFlight t (qm_instanceID (wd_qm w)) (wd_meta w')) = Inr 0
    \<and> (case mget (mm_queries (wd_meta w)) i of
         Some r \<Rightarrow> if own r then \<exists>t. mget (mm_queries (wd_meta w')) i = Some (verdict r t)
                  else mget (mm_queries (wd_meta w')) i = Some r
       | None \<Rightarrow> mget (mm_queries (wd_meta w')) i = None)"
proof -
  let ?n = "qm_instanceID (wd_qm w)"
  let ?ids = "projr (fst (mem_ListByInstance (en_clk E (Suc (wd_tick w))) ?n (wd_meta w)))"
  have ids: "set ?ids = {j. \<exists>q. mget (mm_queries (wd_meta w)) j = Some q \<and> qr_OwnerInstanceID q = ?n \<and> \<not> IsTerminal (qr_State q)}"
    unfolding mem_ListByInstance_def using mem_ids_list(1) [OF assms(2)] by simp
  have l: "wp (recover_loop mem_store E ?ids) (\<lambda>_. swept E (\<lambda>_ _. True) (set ?ids) w) (w\<lparr>wd_tick := Suc (Suc (wd_tick w))\<rparr>)"
    using recover_loop_alone [OF assms(1), of "w\<lparr>wd_tick := Suc (Suc (wd_tick w))\<rparr>" ?ids] assms(2) by simp
  have "wp (recoverOrphans mem_store E) (\<lambda>_. swept E (\<lambda>_ _. True) (set ?ids) w) w"
    unfolding recoverOrphans_def using l by (simp add: wp_access wp_meta alone_others [OF assms(1)] mem_ListByInstance_def)
  then have inv: "mem_inv (wd_meta w')" and s: "swept_record E (\<lambda>_ _. True) (j \<in> set ?ids) (mget (mm_queries (wd_meta w)) j) (mget (mm_queries (wd_meta w')) j)" for j
    by (simp_all add: wp_run [OF assms(3)] swept_def)
  have f: "in_flight_state (qr_State r) \<Longrightarrow> \<not> IsTerminal (qr_State r)" for r by (auto simp: in_flight_state_def)
  have rec: "case mget (mm_queries (wd_meta w)) j of
         Some r \<Rightarrow> if own r then \<exists>t. mget (mm_queries (wd_meta w')) j = Some (verdict r t) else mget (mm_queries (wd_meta w')) j = Some r
       | None \<Rightarrow> mget (mm_queries (wd_meta w')) j = None" for j
    using s [of j] f unfolding ids own_def swept_record_def by (auto split: option.splits)
  have "\<not> (qr_OwnerInstanceID q = ?n \<and> in_flight_state (qr_State q))" if "(j, q) \<in> set (mm_queries (wd_meta w'))" for j q
  proof -
    have "mget (mm_queries (wd_meta w')) j = Some q" using that inv by (simp add: mem_inv_def mget_iff_mem)
    with rec [of j] show ?thesis by (auto simp: own_def in_flight_state_def split: option.splits if_splits)
  qed
  then have "filter (\<lambda>(i, q). qr_OwnerInstanceID q = ?n \<and> in_flight_state (qr_State q)) (mm_queries (wd_meta w')) = []"
    by (auto simp: filter_empty_conv)
  then show ?thesis using rec [of i] by (simp add: mem_CountInFlight_def)
qed

theorem recovery_clears_own_witness:
  "\<exists>t. mget (mm_queries (wd_meta (snd (run_state (recoverOrphans mem_store late_env) (orphan_world sample_record))))) ''q1''
     = Some (verdict sample_record t)"
proof -
  have i: "qr_ID sample_record = ''q1''" "strip_lease sample_record = sample_record"
    by (simp_all add: sample_record_def strip_lease_def)
  have m: "mget (mm_queries (wd_meta (orphan_world sample_record))) ''q1'' = Some sample_record"
    using orphan_world(3) [of sample_record] by (simp add: i)
  have o: "qr_OwnerInstanceID sample_record = qm_instanceID (wd_qm sample_world)" "in_flight_state (qr_State sample_record)"
    by (simp_all add: in_flight_state_def sample_record_def sample_world_def sample_qm_def)
  obtain u w' where "run_state (recoverOrphans mem_store late_env) (orphan_world sample_record) = (u, w')" by (metis surj_pair)
  with recovery_clears_own [OF alone_late orphan_world(1) this, of 0 "''q1''"] show ?thesis
    using m o by (simp add: orphan_world(2))
qed

section \<open>Garbage collection\<close>

text \<open>Whether the result of a query is deleted without an error, and what deleting leaves in the stores.\<close>

definition result_gone :: "('p, mem, 'w) env \<Rightarrow> QueryRecord \<Rightarrow> 'w \<Rightarrow> bool" where
  "result_gone E r d \<longleftrightarrow>
     (case qr_Result r of
        None \<Rightarrow> True
      | Some ref \<Rightarrow> (case GetStore (en_stores E) (ref_Backend ref) of Inl _ \<Rightarrow> False | Inr store \<Rightarrow> fst (rs_Delete store ref d) = None))"

definition without_result :: "('p, mem, 'w) env \<Rightarrow> QueryRecord \<Rightarrow> 'w \<Rightarrow> 'w" where
  "without_result E r d =
     (case qr_Result r of
        None \<Rightarrow> d
      | Some ref \<Rightarrow> (case GetStore (en_stores E) (ref_Backend ref) of Inl _ \<Rightarrow> d | Inr store \<Rightarrow> snd (rs_Delete store ref d)))"

definition expirable :: "QueryRecord \<Rightarrow> bool" where
  "expirable r \<longleftrightarrow> qr_State r = StateExpired \<or> CanTransitionTo (qr_State r) StateExpired"

text \<open>The steps of a collection with nobody interfering, each on the metadata \<open>m\<close> and the results \<open>d\<close>.\<close>

definition holds_view :: "meta_view \<Rightarrow> 'w \<Rightarrow> ('p, mem, 'w) world \<Rightarrow> bool" where
  "holds_view v d w \<longleftrightarrow> mem_inv (wd_meta w) \<and> mem_view (wd_meta w) = v \<and> wd_data w = d"

lemma state_idem: "qr_State r = st \<Longrightarrow> r\<lparr>qr_State := st\<rparr> = (r :: QueryRecord)"
  by (cases r) simp

lemma expire_stripped: "(strip_lease rec)\<lparr>qr_State := StateExpired\<rparr> = strip_lease (rec\<lparr>qr_State := StateExpired\<rparr>)"
  by (cases rec) (simp add: strip_lease_def)

lemma mark_expired_alone:
  assumes "alone E" and "holds_view v d w" and "v_rec v i = Some (strip_lease rec)"
  shows "wp (mark_expired mem_store E rec i) (\<lambda>m w'.
      if expirable rec then m = Some (rec\<lparr>qr_State := StateExpired\<rparr>) \<and> holds_view (put_view (rec\<lparr>qr_State := StateExpired\<rparr>) v) d w'
      else m = None \<and> holds_view v d w') w"
proof -
  have w: "mem_inv (wd_meta w)" "mem_view (wd_meta w) = v" "wd_data w = d" using assms(2) by (simp_all add: holds_view_def)
  have q: "mget (mm_queries (wd_meta w)) i = Some (strip_lease rec)" using w(2) assms(3) by (auto simp: mem_view_def)
  have id: "qr_ID rec = i" using mem.stored [OF w(1), of i] w(2) assms(3) by fastforce
  show ?thesis
  proof (cases "qr_State rec = StateExpired")
    case True
    have "put_view rec v = v" using assms(3) by (simp add: put_view_def id fun_upd_idem)
    with True assms(2) show ?thesis by (simp add: mark_expired_def expirable_def state_idem)
  next
    case False
    then show ?thesis unfolding mark_expired_def Let_def using w
      by (simp add: expirable_def wp_access wp_meta alone_others [OF assms(1)] mem_UpdateQuery_def q id holds_view_def
          mem_write_inv mem_write_view)
  qed
qed

lemma delete_result_alone:
  "alone E \<Longrightarrow> holds_view v d w \<Longrightarrow> qr_Result rec = qr_Result r \<Longrightarrow>
     wp (delete_result E rec) (\<lambda>b w'. b = result_gone E r d \<and> holds_view v (without_result E r d) w') w"
  by (auto simp: delete_result_def result_gone_def without_result_def wp_data alone_others holds_view_def split: option.splits sum.splits prod.splits)

lemma release_key_alone:
  assumes "alone E" and "holds_view v d w"
  shows "wp (release_key mem_store E rec i) (\<lambda>_ w'. holds_view (if qr_IdempotencyKey rec = [] then v
      else release_view (fullKey (qr_DatabaseID rec) (scopedIdempotencyKey (qr_Subject rec) (qr_IdempotencyKey rec))) i v) d w') w"
  using assms(2) mem_release_law
  by (auto simp: release_key_def wp_meta alone_others [OF assms(1)] holds_view_def split: prod.splits)

lemma delete_alone:
  "alone E \<Longrightarrow> holds_view v d w \<Longrightarrow> wp (meta E (\<lambda>now. mem_DeleteQuery now i)) (\<lambda>_. holds_view (del_view i v) d) w"
  using mem.delete [of "wd_meta w" "en_clk E (wd_tick w)" i]
  by (auto simp: wp_meta alone_others holds_view_def mem_DeleteQuery_def)

text \<open>The metadata after one collection of the query \<open>i\<close> with the record \<open>r\<close>.\<close>

definition collected :: "('p, mem, 'w) env \<Rightarrow> string \<Rightarrow> QueryRecord \<Rightarrow> 'w \<Rightarrow> meta_view \<Rightarrow> meta_view" where
  "collected E i r d v =
     (if \<not> expirable r then v
      else if result_gone E r d
      then del_view i (if qr_IdempotencyKey r = [] then v
             else release_view (fullKey (qr_DatabaseID r) (scopedIdempotencyKey (qr_Subject r) (qr_IdempotencyKey r))) i v)
      else put_view (r\<lparr>qr_State := StateExpired\<rparr>) v)"

lemma forget_alone:
  assumes "alone E" and "holds_view (put_view x v) d w" and "qr_ID x = i"
  shows "wp (release_key mem_store E rec i \<bind> (\<lambda>_. meta E (\<lambda>now. mem_DeleteQuery now i))) (\<lambda>_. holds_view (del_view i
      (if qr_IdempotencyKey rec = [] then v
       else release_view (fullKey (qr_DatabaseID rec) (scopedIdempotencyKey (qr_Subject rec) (qr_IdempotencyKey rec))) i v)) d) w"
proof -
  have e: "del_view i (put_view x v) = del_view i v" "del_view i (release_view k i (put_view x v)) = del_view i (release_view k i v)" for k
    by (simp_all add: del_view_def put_view_def release_view_def assms(3) cong: if_cong)
  show ?thesis unfolding wp_bind
    by (rule wp_mono [OF release_key_alone [OF assms(1,2)]], rule wp_mono [OF delete_alone [OF assms(1)]], assumption)
      (simp add: e split: if_splits)
qed

lemma put_view_strip: "put_view (strip_lease r) v = put_view r v"
  by (simp add: put_view_def)

lemma collected_strip [simp]:
  "expirable (strip_lease r) = expirable r" "without_result E (strip_lease r) d = without_result E r d"
  "collected E i (strip_lease r) d v = collected E i r d v"
  by (simp_all add: expirable_def without_result_def collected_def result_gone_def expire_stripped put_view_strip)

lemma collect_expired_alone:
  fixes E :: "('p, mem, 'w) env"
  assumes "alone E" and "holds_view (put_view (rec\<lparr>qr_State := StateExpired\<rparr>) v) d w" and "qr_ID rec = i" and "expirable rec"
  shows "wp (collect_expired mem_store E (rec\<lparr>qr_State := StateExpired\<rparr>) i) (\<lambda>_. holds_view (collected E i rec d v) (without_result E rec d)) w"
  unfolding collect_expired_def mem_store_simps wp_bind
proof (rule wp_mono [OF delete_result_alone [OF assms(1,2), of _ rec]])
  show "qr_Result (rec\<lparr>qr_State := StateExpired\<rparr>) = qr_Result rec" by simp
next
  fix gone and w2 :: "('p, mem, 'w) world"
  let ?rec = "rec\<lparr>qr_State := StateExpired\<rparr>"
  assume h: "gone = result_gone E rec d \<and> holds_view (put_view ?rec v) (without_result E rec d) w2"
  have "qr_ID ?rec = i" by (simp add: assms(3))
  note del = forget_alone [OF assms(1) conjunct2 [OF h] this, of ?rec]
  have c: "collected E i rec d v = del_view i (if qr_IdempotencyKey ?rec = [] then v
       else release_view (fullKey (qr_DatabaseID ?rec) (scopedIdempotencyKey (qr_Subject ?rec) (qr_IdempotencyKey ?rec))) i v)" if gone
    using h that by (simp add: collected_def assms(4))
  show "wp (if \<not> gone then ret () else do { release_key mem_store E ?rec i; _ \<leftarrow> meta E (\<lambda>now. mem_DeleteQuery now i); ret () })
      (\<lambda>_. holds_view (collected E i rec d v) (without_result E rec d)) w2"
  proof (cases gone)
    case True
    then show ?thesis using del by (simp only: c [OF True] wp_bind wp_return simp_thms if_False)
  next
    case False
    with h assms(4) show ?thesis by (simp add: collected_def)
  qed
qed

lemma collect_found_alone:
  fixes E :: "('p, mem, 'w) env"
  assumes "alone E" and "holds_view v d w" and "v_rec v i = Some (strip_lease rec)" and "qr_ID rec = i"
  shows "wp (mark_expired mem_store E rec i) (\<lambda>m. wp (case m of None \<Rightarrow> ret () | Some rec \<Rightarrow> collect_expired mem_store E rec i)
      (\<lambda>_. holds_view (collected E i rec d v) (if expirable rec then without_result E rec d else d))) w"
proof (rule wp_mono [OF mark_expired_alone [OF assms(1-3)]])
  fix m and w1 :: "('p, mem, 'w) world"
  assume m: "if expirable rec then m = Some (rec\<lparr>qr_State := StateExpired\<rparr>) \<and> holds_view (put_view (rec\<lparr>qr_State := StateExpired\<rparr>) v) d w1
      else m = None \<and> holds_view v d w1"
  show "wp (case m of None \<Rightarrow> ret () | Some rec \<Rightarrow> collect_expired mem_store E rec i)
      (\<lambda>_. holds_view (collected E i rec d v) (if expirable rec then without_result E rec d else d)) w1"
  proof (cases "expirable rec")
    case True
    with m have h: "m = Some (rec\<lparr>qr_State := StateExpired\<rparr>)" "holds_view (put_view (rec\<lparr>qr_State := StateExpired\<rparr>) v) d w1" by simp_all
    from collect_expired_alone [OF assms(1) h(2) assms(4) True] show ?thesis by (simp only: h(1) option.case True if_True)
  next
    case False
    with m show ?thesis by (simp add: collected_def)
  qed
qed

lemma collectQuery_alone:
  assumes "alone E" and "holds_view v d w" and "v_rec v i = Some r"
  shows "wp (collectQuery mem_store E i)
      (\<lambda>_. holds_view (collected E i r d v) (if expirable r then without_result E r d else d)) w"
proof -
  have w: "mem_inv (wd_meta w)" "mem_view (wd_meta w) = v" using assms(2) by (simp_all add: holds_view_def)
  have q: "mget (mm_queries (wd_meta w)) i = Some r" using w(2) assms(3) by (auto simp: mem_view_def)
  have id: "qr_ID r = i" using mem.stored [OF w(1), of i r] w(2) assms(3) by auto
  have o: "holds_view v d (others E w)" using assms(2) by (simp add: holds_view_def alone_others [OF assms(1)])
  show ?thesis unfolding collectQuery_def mem_store_simps wp_bind
  proof (rule get_alone(2) [OF assms(1) w(1) q])
    fix rec assume rec: "strip_lease rec = r"
    have "v_rec v i = Some (strip_lease rec)" "qr_ID rec = i" using assms(3) id rec by auto
    from collect_found_alone [OF assms(1) o this]
    show "wp (case Inr rec of Inl _ \<Rightarrow> ret () | Inr rec \<Rightarrow>
        mark_expired mem_store E rec i \<bind> (\<lambda>m. case m of None \<Rightarrow> ret () | Some rec \<Rightarrow> collect_expired mem_store E rec i))
      (\<lambda>_. holds_view (collected E i r d v) (if expirable r then without_result E r d else d)) (others E w)"
      by (simp only: sum.case wp_bind rec [symmetric] collected_strip)
  qed
qed

text \<open>
  C5. Collecting one query. With nobody interfering, the collection of a query that may not expire
  changes nothing. Otherwise its result is deleted, and only when that went without an error the
  record goes, together with the idempotency key if this query still holds it; when it did not,
  the record stays, EXPIRED and with its result, so that a later pass can try again. Nothing else
  in the metadata changes.
\<close>

theorem collect_result_first:
  assumes "alone E" and "mem_inv (wd_meta w)" and "mget (mm_queries (wd_meta w)) i = Some r"
    and "run_state (collectQuery mem_store E i) w = (u, w')"
  shows "mem_view (wd_meta w') =
      (if \<not> expirable r then mem_view (wd_meta w)
       else if result_gone E r (wd_data w)
       then del_view i (if qr_IdempotencyKey r = [] then mem_view (wd_meta w)
              else release_view (fullKey (qr_DatabaseID r) (scopedIdempotencyKey (qr_Subject r) (qr_IdempotencyKey r))) i (mem_view (wd_meta w)))
       else put_view (r\<lparr>qr_State := StateExpired\<rparr>) (mem_view (wd_meta w)))
    \<and> wd_data w' = (if expirable r then without_result E r (wd_data w) else wd_data w)"
proof -
  have "holds_view (mem_view (wd_meta w)) (wd_data w) w" "v_rec (mem_view (wd_meta w)) i = Some r"
    using assms(2,3) by (simp_all add: holds_view_def mem_view_def)
  from collectQuery_alone [OF assms(1) this] show ?thesis
    by (simp add: wp_run [OF assms(4)] holds_view_def collected_def)
qed

text \<open>A finished query whose result is in the store that cannot delete.\<close>

definition kept_result :: QueryRecord where
  "kept_result = sample_record\<lparr>qr_State := StateSucceeded, qr_FinishedAt := 200, qr_Result := Some sample_ref\<rparr>"

definition stuck_env :: "(nat, mem, string) env" where
  "stuck_env = sample_env\<lparr>en_stores := [(''fs'', sample_store\<lparr>rs_Delete := (\<lambda>ref w. (Some ErrNotFound, w))\<rparr>)]\<rparr>"

theorem collect_result_first_witness:
  "mget (mm_queries (wd_meta (snd (run_state (collectQuery mem_store stuck_env ''q1'') (orphan_world kept_result))))) ''q1''
     = Some (kept_result\<lparr>qr_State := StateExpired\<rparr>)
   \<and> mget (mm_queries (wd_meta (snd (run_state (collectQuery mem_store sample_env ''q1'') (orphan_world kept_result))))) ''q1'' = None"
proof -
  have i: "qr_ID kept_result = ''q1''" "strip_lease kept_result = kept_result"
    by (simp_all add: kept_result_def sample_record_def strip_lease_def)
  have m: "mget (mm_queries (wd_meta (orphan_world kept_result))) ''q1'' = Some kept_result"
    using orphan_world(3) [of kept_result] by (simp add: i)
  have a: "alone stuck_env" by (simp add: alone_def stuck_env_def sample_env_def)
  have e: "expirable kept_result" "\<not> result_gone stuck_env kept_result d" "result_gone sample_env kept_result d" for d
    by (simp_all add: expirable_def kept_result_def CanTransitionTo_def result_gone_def stuck_env_def sample_env_def sample_ref_def
        GetStore_def sample_store_def mget_def)
  obtain u w1 where 1: "run_state (collectQuery mem_store stuck_env ''q1'') (orphan_world kept_result) = (u, w1)" by (metis surj_pair)
  obtain u2 w2 where 2: "run_state (collectQuery mem_store sample_env ''q1'') (orphan_world kept_result) = (u2, w2)" by (metis surj_pair)
  have "v_rec (mem_view (wd_meta w1)) ''q1'' = Some (strip_lease (kept_result\<lparr>qr_State := StateExpired\<rparr>))"
    using collect_result_first [OF a orphan_world(1) m 1] e by (simp add: i)
  moreover have "v_rec (mem_view (wd_meta w2)) ''q1'' = None"
    using collect_result_first [OF alone_sample orphan_world(1) m 2] e by simp
  ultimately show ?thesis by (simp add: 1 2 mem_view_def expire_stripped [symmetric] i)
qed

text \<open>A whole pass, on the queries \<open>S\<close>.\<close>

definition swept_out :: "string set \<Rightarrow> ('p, mem, 'w) world \<Rightarrow> ('p, mem, 'w) world \<Rightarrow> bool" where
  "swept_out S w w' \<longleftrightarrow> mem_inv (wd_meta w') \<and>
     (\<forall>j. mget (mm_queries (wd_meta w')) j = mget (mm_queries (wd_meta w)) j \<or>
        j \<in> S \<and> (\<exists>r. mget (mm_queries (wd_meta w)) j = Some r \<and>
          mget (mm_queries (wd_meta w')) j \<in> {None, Some (r\<lparr>qr_State := StateExpired\<rparr>)}))"

lemma swept_out_trans:
  assumes "swept_out S w w1" "swept_out S w1 w2"
  shows "swept_out S w w2"
  unfolding swept_out_def
proof (intro conjI allI)
  show "mem_inv (wd_meta w2)" using assms(2) by (simp add: swept_out_def)
  fix j
  show "mget (mm_queries (wd_meta w2)) j = mget (mm_queries (wd_meta w)) j \<or> j \<in> S \<and> (\<exists>r. mget (mm_queries (wd_meta w)) j = Some r \<and>
      mget (mm_queries (wd_meta w2)) j \<in> {None, Some (r\<lparr>qr_State := StateExpired\<rparr>)})"
  proof (cases "mget (mm_queries (wd_meta w1)) j = mget (mm_queries (wd_meta w)) j")
    case True
    from assms(2) show ?thesis unfolding swept_out_def True [symmetric] by blast
  next
    case False
    with assms(1) obtain r where "j \<in> S" "mget (mm_queries (wd_meta w)) j = Some r"
      "mget (mm_queries (wd_meta w1)) j \<in> {None, Some (r\<lparr>qr_State := StateExpired\<rparr>)}" unfolding swept_out_def by blast
    moreover from assms(2) have "mget (mm_queries (wd_meta w2)) j = mget (mm_queries (wd_meta w1)) j \<or>
      (\<exists>r. mget (mm_queries (wd_meta w1)) j = Some r \<and> mget (mm_queries (wd_meta w2)) j \<in> {None, Some (r\<lparr>qr_State := StateExpired\<rparr>)})"
      unfolding swept_out_def by blast
    ultimately show ?thesis by auto
  qed
qed

lemma collectQuery_swept:
  assumes "alone E" and "mem_inv (wd_meta w)" and "i \<in> S"
  shows "wp (collectQuery mem_store E i) (\<lambda>_. swept_out S w) w"
proof (cases "mget (mm_queries (wd_meta w)) i")
  case None
  show ?thesis unfolding collectQuery_def mem_store_simps wp_bind
    by (rule get_alone(1) [OF assms(1,2) None]) (simp add: swept_out_def assms(2) alone_others [OF assms(1)])
next
  case (Some r)
  have id: "qr_ID r = i" "strip_lease r = r" using mem.stored [OF assms(2), of i r] Some by (simp_all add: mem_view_def)
  have h: "holds_view (mem_view (wd_meta w)) (wd_data w) w" "v_rec (mem_view (wd_meta w)) i = Some r"
    using assms(2) Some by (simp_all add: holds_view_def mem_view_def)
  have out: "swept_out S w w'" if "holds_view (collected E i r (wd_data w) (mem_view (wd_meta w))) d w'" for d w'
  proof -
    have v: "mget (mm_queries (wd_meta w')) = v_rec (collected E i r (wd_data w) (mem_view (wd_meta w)))"
    proof -
      have "mem_view (wd_meta w') = collected E i r (wd_data w) (mem_view (wd_meta w))" using that by (simp add: holds_view_def)
      from this [symmetric] show ?thesis by (simp add: mem_view_def [of "wd_meta w'"])
    qed
    have x: "strip_lease (r\<lparr>qr_State := StateExpired\<rparr>) = r\<lparr>qr_State := StateExpired\<rparr>"
      using expire_stripped [of r] id(2) by simp
    have q: "v_rec (mem_view (wd_meta w)) = mget (mm_queries (wd_meta w))" by (simp add: mem_view_def)
    show ?thesis unfolding swept_out_def v using that assms(3) Some
      by (simp add: holds_view_def collected_def id(1) x q)
  qed
  show ?thesis by (rule wp_mono [OF collectQuery_alone [OF assms(1) h]]) (rule out)
qed

lemma collect_loop_swept:
  assumes "alone E"
  shows "mem_inv (wd_meta w) \<Longrightarrow> set is \<subseteq> S \<Longrightarrow> wp (collect_loop mem_store E deadline is) (\<lambda>_. swept_out S w) w"
proof (induction "is" arbitrary: w)
  case Nil
  then show ?case by (simp add: swept_out_def)
next
  case (Cons i "is")
  let ?w = "w\<lparr>wd_tick := Suc (wd_tick w)\<rparr>"
  have t: "swept_out S ?w = swept_out S w" by (simp add: swept_out_def fun_eq_iff)
  have c: "wp (collectQuery mem_store E i) (\<lambda>_. swept_out S w) ?w"
    using collectQuery_swept [OF assms, of ?w i S] Cons.prems unfolding t by simp
  have "wp (collectQuery mem_store E i) (\<lambda>_. wp (collect_loop mem_store E deadline is) (\<lambda>_. swept_out S w)) ?w"
  proof (rule wp_mono [OF c])
    fix u w1 assume s: "swept_out S w w1"
    then have "mem_inv (wd_meta w1)" by (simp add: swept_out_def)
    with Cons.IH [of w1] Cons.prems show "wp (collect_loop mem_store E deadline is) (\<lambda>_. swept_out S w) w1"
      by (auto intro: wp_mono swept_out_trans [OF s])
  qed
  moreover have "swept_out S w ?w" using Cons.prems by (simp add: swept_out_def)
  ultimately show ?case by (simp add: wp_access alone_others [OF assms])
qed

text \<open>
  C39. What a pass may touch. With nobody interfering, a pass of the garbage collector removes a
  record or turns it EXPIRED only if it got the lock all instances compete for, and only the record
  of a finished query whose retention time was over when the pass listed its candidates. All other
  records are as before.
\<close>

theorem gc_touches_expired_only:
  assumes "alone E" and "mem_inv (wd_meta w)" and "run_state (collectGarbage mem_store E) w = (u, w')"
    and "mget (mm_queries (wd_meta w')) i \<noteq> mget (mm_queries (wd_meta w)) i"
  shows "\<exists>r. mget (mm_queries (wd_meta w)) i = Some r
    \<and> \<not> v_held (mem_view (wd_meta w)) (en_clk E (wd_tick w + 3)) gcLockName
    \<and> expired_at (en_clk E (wd_tick w + 4)) r
    \<and> mget (mm_queries (wd_meta w')) i \<in> {None, Some (r\<lparr>qr_State := StateExpired\<rparr>)}"
proof -
  let ?held = "v_held (mem_view (wd_meta w)) (en_clk E (wd_tick w + 3)) gcLockName"
  let ?S = "{j. \<exists>r. mget (mm_queries (wd_meta w)) j = Some r \<and> expired_at (en_clk E (wd_tick w + 4)) r}"
  define m where "m = snd (mem_TryLock (en_clk E (wd_tick w + 3)) gcLockName (gcLockTTL (wd_qm w)) (wd_meta w))"
  have t: "mem_TryLock (en_clk E (wd_tick w + 3)) gcLockName (gcLockTTL (wd_qm w)) (wd_meta w) = (Inr (\<not> ?held), m)"
    by (simp add: m_def mem_TryLock_def mem_view_def lock_held_def)
  have m: "mm_queries m = mm_queries (wd_meta w)" "mem_inv m"
    using assms(2) by (simp_all add: m_def mem_TryLock_def mem_inv_def)
  define ids where "ids = projr (fst (mem_ListExpiredQueries (en_clk E (wd_tick w + 4)) m))"
  have l: "mem_ListExpiredQueries (en_clk E (wd_tick w + 4)) m = (Inr ids, m)" by (simp add: ids_def mem_ListExpiredQueries_def)
  have S: "set ids = ?S" unfolding ids_def mem_ListExpiredQueries_def using mem_ids_list(1) [OF m(2)] by (simp add: m(1))
  let ?w = "w\<lparr>wd_tick := wd_tick w + 5, wd_meta := m\<rparr>"
  have "swept_out ?S ?w = swept_out ?S w" by (simp add: swept_out_def fun_eq_iff m(1))
  with collect_loop_swept [OF assms(1), of ?w ids ?S] S m(2)
  have loop: "wp (collect_loop mem_store E dl ids) (\<lambda>_. swept_out ?S w) ?w" for dl by simp
  have "wp (collectGarbage mem_store E) (\<lambda>_ w'. if ?held then mm_queries (wd_meta w') = mm_queries (wd_meta w) else swept_out ?S w w') w"
    unfolding collectGarbage_def using loop t l m(1)
    by (cases ?held) (simp_all add: wp_access wp_meta alone_others [OF assms(1)] eval_nat_numeral)
  then show ?thesis unfolding wp_run [OF assms(3)] using assms(4) by (auto simp: swept_out_def split: if_splits)
qed

text \<open>A query that finished long ago, on an instance whose collector gets the lock.\<close>

lemma late_collects:
  "mget (mm_queries (wd_meta (snd (run_state (collectGarbage mem_store (late_env\<lparr>en_clk := (\<lambda>n. 1000 * Hour)\<rparr>)) (orphan_world kept_result))))) ''q1''
     = None"
  by code_simp

theorem gc_touches_expired_only_witness:
  "expired_at (1000 * Hour) kept_result"
proof -
  let ?E = "late_env\<lparr>en_clk := (\<lambda>n. 1000 * Hour)\<rparr>"
  have a: "alone ?E" using alone_late by (simp add: alone_def)
  have i: "qr_ID kept_result = ''q1''" "strip_lease kept_result = kept_result"
    by (simp_all add: kept_result_def sample_record_def strip_lease_def)
  have m: "mget (mm_queries (wd_meta (orphan_world kept_result))) ''q1'' = Some kept_result"
    using orphan_world(3) [of kept_result] by (simp add: i)
  obtain u w' where r: "run_state (collectGarbage mem_store ?E) (orphan_world kept_result) = (u, w')" by (metis surj_pair)
  have "mget (mm_queries (wd_meta w')) ''q1'' \<noteq> mget (mm_queries (wd_meta (orphan_world kept_result))) ''q1''"
    using late_collects m by (simp add: r)
  from gc_touches_expired_only [OF a orphan_world(1) r this] m show ?thesis by auto
qed

end
