(* ===== verification/Service.thy ===== *)
theory Service
  imports Workers Lifecycle
begin

text \<open>
  The application service, \<^verbatim>\<open>internal/core/service/service.go\<close>: the operations the transports
  call, with the check that a caller only reaches its own queries, and the reader that serves a
  section of a result.

  The service holds the lifecycle manager and the flag that says that callers are expected to
  carry an identity; the query manager it works on is the one of the world. Spans are not
  modelled.
\<close>

record QueryService =
  qs_lifecycle :: LManager
  qs_authRequired :: bool

definition NewQueryService :: "LManager \<Rightarrow> QueryService" where
  "NewQueryService lm = \<lparr>qs_lifecycle = lm, qs_authRequired = False\<rparr>"

definition SetAuthRequired :: "bool \<Rightarrow> QueryService \<Rightarrow> QueryService" where
  "SetAuthRequired v s = s\<lparr>qs_authRequired := v\<rparr>"

section \<open>Sections of a result\<close>

text \<open>
  A reader is a function that reads at most \<open>n\<close> bytes: what it read, the error it returned with
  them, and the new state. \<^verbatim>\<open>io.CopyN(io.Discard, r, n)\<close> reads in pieces of at most 8192 bytes
  until \<open>n\<close> bytes are gone; \<open>None\<close> says that the fuel was not enough.
\<close>

type_synonym 'w reader = "nat \<Rightarrow> 'w \<Rightarrow> (string \<times> go_error option) \<times> 'w"

fun copy_discard :: "'w reader \<Rightarrow> nat \<Rightarrow> int \<Rightarrow> int \<Rightarrow> 'w \<Rightarrow> ((int \<times> go_error option) \<times> 'w) option" where
  "copy_discard rd 0 n copied w = None"
| "copy_discard rd (Suc fuel) n copied w =
     (if n \<le> copied then Some ((copied, None), w)
      else case rd (nat (min 8192 (n - copied))) w of
        ((bs, err), w') \<Rightarrow>
          let copied' = copied + int (length bs) in
          case err of
            None \<Rightarrow> copy_discard rd fuel n copied' w'
          | Some e \<Rightarrow> Some ((copied', if e = EOF then None else Some e), w'))"

definition io_CopyN :: "'w reader \<Rightarrow> nat \<Rightarrow> int \<Rightarrow> 'w \<Rightarrow> ((int \<times> go_error option) \<times> 'w) option" where
  "io_CopyN rd fuel n w =
     (case copy_discard rd fuel n 0 w of
        None \<Rightarrow> None
      | Some ((written, err), w') \<Rightarrow>
          Some ((written, if written = n then None else if written < n \<and> err = None then Some EOF else err), w'))"

record sectionReadCloser =
  sr_offset :: int
  sr_limit :: int
  sr_read :: int

definition newSectionReadCloser :: "int \<Rightarrow> int \<Rightarrow> sectionReadCloser" where
  "newSectionReadCloser offset limit = \<lparr>sr_offset = offset, sr_limit = limit, sr_read = 0\<rparr>"

text \<open>The part of \<^verbatim>\<open>Read\<close> after the offset is skipped.\<close>

definition section_serve :: "'w reader \<Rightarrow> nat \<Rightarrow> sectionReadCloser \<Rightarrow> 'w \<Rightarrow> (string \<times> go_error option) \<times> sectionReadCloser \<times> 'w" where
  "section_serve rd p src w =
     (if sr_limit src > 0 \<and> sr_read src \<ge> sr_limit src then (([], Some EOF), src, w)
      else
        let toRead = (if sr_limit src > 0 \<and> int p > sr_limit src - sr_read src then nat (sr_limit src - sr_read src) else p) in
        case rd toRead w of
          ((bs, err), w') \<Rightarrow>
            let src' = src\<lparr>sr_read := sr_read src + int (length bs)\<rparr> in
            if sr_limit src' > 0 \<and> sr_read src' \<ge> sr_limit src' \<and> err = None then ((bs, Some EOF), src', w')
            else ((bs, err), src', w'))"

definition section_Read :: "'w reader \<Rightarrow> nat \<Rightarrow> nat \<Rightarrow> sectionReadCloser \<Rightarrow> 'w \<Rightarrow> ((string \<times> go_error option) \<times> sectionReadCloser \<times> 'w) option" where
  "section_Read rd fuel p src w =
     (if sr_offset src > 0
      then case io_CopyN rd fuel (sr_offset src) w of
        None \<Rightarrow> None
      | Some ((discarded, err), w') \<Rightarrow>
          let src' = src\<lparr>sr_offset := sr_offset src - discarded\<rparr> in
          (case err of
             Some e \<Rightarrow> Some (([], Some e), src', w')
           | None \<Rightarrow> Some (section_serve rd p src' w'))
      else Some (section_serve rd p src w))"

section \<open>Operations\<close>

definition StartQuery :: "'s MetaStore \<Rightarrow> ('p, 's, 'w) env \<Rightarrow> QueryService \<Rightarrow> nat \<Rightarrow> Context \<Rightarrow> string \<Rightarrow> string \<Rightarrow> QueryOptions \<Rightarrow>
    ('p, 's, 'w, (go_error + QueryRecord) option) prog" where
  "StartQuery ms E s fuel ctx dbID sql opts =
     (if IsDraining (qs_lifecycle s) then ret (Some (Inl DrainingError))
      else SubmitQuery ms E fuel ctx dbID sql opts)"

definition authorized :: "'s MetaStore \<Rightarrow> ('p, 's, 'w) env \<Rightarrow> QueryService \<Rightarrow> Context \<Rightarrow> string \<Rightarrow> ('p, 's, 'w, go_error + QueryRecord) prog" where
  "authorized ms E s ctx queryID =
     (if qs_authRequired s \<and> FromContext ctx = None then ret (Inl (NotFoundError ''query'' queryID))
      else do {
        r \<leftarrow> qm_GetQuery ms E queryID;
        case r of
          Inl e \<Rightarrow> ret (Inl e)
        | Inr rec \<Rightarrow>
            (case AuthorizeSubject ctx (qr_Subject rec) of
               Some _ \<Rightarrow> ret (Inl (NotFoundError ''query'' queryID))
             | None \<Rightarrow> ret (Inr rec))
      })"

definition GetQueryStatus :: "'s MetaStore \<Rightarrow> ('p, 's, 'w) env \<Rightarrow> QueryService \<Rightarrow> Context \<Rightarrow> string \<Rightarrow> ('p, 's, 'w, go_error + QueryRecord) prog" where
  "GetQueryStatus ms E s ctx queryID = authorized ms E s ctx queryID"

definition svc_StopQuery :: "'s MetaStore \<Rightarrow> ('p, 's, 'w) env \<Rightarrow> QueryService \<Rightarrow> Context \<Rightarrow> string \<Rightarrow> ('p, 's, 'w, go_error option) prog" where
  "svc_StopQuery ms E s ctx queryID = do {
     r \<leftarrow> authorized ms E s ctx queryID;
     case r of Inl e \<Rightarrow> ret (Some e) | Inr _ \<Rightarrow> StopQuery ms E queryID
   }"

definition GetQueryStats :: "'s MetaStore \<Rightarrow> ('p, 's, 'w) env \<Rightarrow> QueryService \<Rightarrow> Context \<Rightarrow> string \<Rightarrow> ('p, 's, 'w, go_error + QueryStats) prog" where
  "GetQueryStats ms E s ctx queryID = do {
     r \<leftarrow> authorized ms E s ctx queryID;
     case r of Inl e \<Rightarrow> ret (Inl e) | Inr rec \<Rightarrow> ret (Inr (qr_Stats rec))
   }"

text \<open>A download: the store and the handle of the open reader, the section served, and the reference.\<close>

record 'w download =
  dl_store :: "'w ResultStore"
  dl_handle :: nat
  dl_section :: "sectionReadCloser option"
  dl_ref :: ResultRef

definition DownloadResult :: "'s MetaStore \<Rightarrow> ('p, 's, 'w) env \<Rightarrow> QueryService \<Rightarrow> Context \<Rightarrow> string \<Rightarrow> int \<Rightarrow> int \<Rightarrow>
    ('p, 's, 'w, go_error + 'w download) prog" where
  "DownloadResult ms E s ctx queryID offset limit = do {
     r \<leftarrow> authorized ms E s ctx queryID;
     case r of
       Inl e \<Rightarrow> ret (Inl e)
     | Inr rec \<Rightarrow>
         if qr_State rec \<noteq> StateSucceeded
         then ret (Inl (ValidationError ''query_id''
                (''query is in state '' @ state_string (qr_State rec) @ '', results are only available for SUCCEEDED'')))
         else (case qr_Result rec of
           None \<Rightarrow> ret (Inl (NotFoundError ''result for query'' queryID))
         | Some ref \<Rightarrow>
             (case GetStore (en_stores E) (ref_Backend ref) of
                Inl e \<Rightarrow> ret (Inl (Wrapf ''failed to load result storage'' e))
              | Inr store \<Rightarrow> do {
                  h \<leftarrow> data E (rs_Reader store ref);
                  (case h of
                     Inl e \<Rightarrow> ret (Inl (Wrapf ''failed to open result reader'' e))
                   | Inr h \<Rightarrow> ret (Inr \<lparr>dl_store = store, dl_handle = h,
                       dl_section = (if offset > 0 \<or> limit > 0 then Some (newSectionReadCloser offset limit) else None),
                       dl_ref = ref\<rparr>))
                }))
   }"

fun probe_databases :: "('p, 's, 'w) env \<Rightarrow> DatabaseConfig list \<Rightarrow> ('p, 's, 'w, DatabaseInfo list) prog" where
  "probe_databases E [] = ret []"
| "probe_databases E (dbCfg # cfgs) = do {
     pool \<leftarrow> look E (GetPool (db_ID dbCfg));
     healthy \<leftarrow> (case pool of None \<Rightarrow> ret False | Some p \<Rightarrow> ask E (\<lambda>n. en_ping E n p = None));
     infos \<leftarrow> probe_databases E cfgs;
     ret (\<lparr>di_ID = db_ID dbCfg, di_Engine = db_Engine dbCfg, di_DisplayName = db_DisplayName dbCfg, di_Healthy = healthy\<rparr> # infos)
   }"

definition dropped_databases :: "string list \<Rightarrow> string list \<Rightarrow> DatabaseInfo list" where
  "dropped_databases configured seen =
     map (\<lambda>i. \<lparr>di_ID = i, di_Engine = [], di_DisplayName = [], di_Healthy = False\<rparr>)
       (filter (\<lambda>i. i \<noteq> [] \<and> i \<notin> set configured) seen)"

definition ListDatabases :: "'s MetaStore \<Rightarrow> ('p, 's, 'w) env \<Rightarrow> ('p, 's, 'w, DatabaseInfo list) prog" where
  "ListDatabases ms E = do {
     cfg \<leftarrow> look E GetConfig;
     databases \<leftarrow> probe_databases E (cf_Databases cfg);
     seen \<leftarrow> DatabasesSeen ms E;
     case seen of
       Inl _ \<Rightarrow> ret databases
     | Inr ids \<Rightarrow> ret (databases @ dropped_databases (map db_ID (cf_Databases cfg)) ids)
   }"

definition ReloadConfig :: "'p drivers \<Rightarrow> ('p, 's, 'w) env \<Rightarrow> attempt \<Rightarrow> ('p, 's, 'w, ReloadReport \<times> go_error option) prog" where
  "ReloadConfig drivers E a = critical E (qm_Reload drivers a)"

text \<open>The answer, and the service with the state its lifecycle manager is in after it.\<close>

definition CanIBeStopped :: "'s MetaStore \<Rightarrow> ('p, 's, 'w) env \<Rightarrow> QueryService \<Rightarrow> ('p, 's, 'w, (bool \<times> nat \<times> LState) \<times> QueryService) prog" where
  "CanIBeStopped ms E s = do {
     inFlight \<leftarrow> qm_CountInFlight ms E;
     let (st, lm) = Advance inFlight (qs_lifecycle s);
     ret ((inFlight = 0, inFlight, st), s\<lparr>qs_lifecycle := lm\<rparr>)
   }"

definition InstanceState :: "QueryService \<Rightarrow> LState" where
  "InstanceState s = GetState (qs_lifecycle s)"

definition svc_IsDraining :: "QueryService \<Rightarrow> bool" where
  "svc_IsDraining s = IsDraining (qs_lifecycle s)"

definition WatchQuery :: "'s MetaStore \<Rightarrow> ('p, 's, 'w) env \<Rightarrow> QueryService \<Rightarrow> Context \<Rightarrow> string \<Rightarrow> ('p, 's, 'w, go_error + nat option) prog" where
  "WatchQuery ms E s ctx queryID = do {
     r \<leftarrow> authorized ms E s ctx queryID;
     case r of Inl e \<Rightarrow> ret (Inl e) | Inr _ \<Rightarrow> Watch ms E queryID
   }"

section \<open>Who may see a query\<close>

text \<open>The caller is not one the record may be shown to.\<close>

definition outsider :: "QueryService \<Rightarrow> Context \<Rightarrow> QueryRecord \<Rightarrow> bool" where
  "outsider s ctx r \<longleftrightarrow>
     (case FromContext ctx of
        None \<Rightarrow> qs_authRequired s
      | Some i \<Rightarrow> \<not> IsAdmin i \<and> (qr_Subject r = [] \<or> qr_Subject r \<noteq> id_Subject i))"

lemma authorized_outsider:
  assumes "alone E" and "\<And>r. mget (mm_queries (wd_meta w)) i = Some r \<Longrightarrow> outsider s ctx r"
    and "\<And>e n. e \<in> {ErrNotFound, NotFoundError ''query'' i} \<Longrightarrow> Q (Inl e) (w\<lparr>wd_tick := n\<rparr>)"
  shows "wp (authorized mem_store E s ctx i) Q w"
proof (cases "qs_authRequired s \<and> FromContext ctx = None")
  case True
  have "w\<lparr>wd_tick := wd_tick w\<rparr> = w" by simp
  with assms(3) [of "NotFoundError ''query'' i" "wd_tick w"] True show ?thesis by (simp add: authorized_def)
next
  case False
  have a: "\<exists>e. AuthorizeSubject ctx (qr_Subject r) = Some e" if "mget (mm_queries (wd_meta w)) i = Some r" for r
    using assms(2) [OF that] False by (auto simp: outsider_def AuthorizeSubject_def split: option.splits)
  show ?thesis
  proof (cases "mget (mm_queries (wd_meta w)) i")
    case None
    with False assms(3) show ?thesis
      by (auto simp: authorized_def qm_GetQuery_def wp_meta alone_others [OF assms(1)] mem_GetQuery_def)
  next
    case (Some r)
    with a [OF Some] False assms(3) show ?thesis
      by (auto simp: authorized_def qm_GetQuery_def wp_meta alone_others [OF assms(1)] mem_GetQuery_def split: option.splits)
  qed
qed

lemma authorized_insider:
  assumes "alone E" and "mem_inv (wd_meta w)" and "mget (mm_queries (wd_meta w)) i = Some r" and "\<not> outsider s ctx r"
    and "\<And>rec. strip_lease rec = r \<Longrightarrow> Q (Inr rec) (w\<lparr>wd_tick := Suc (wd_tick w)\<rparr>)"
  shows "wp (authorized mem_store E s ctx i) Q w"
proof -
  have r: "strip_lease r = r" using mem.stored [OF assms(2), of i r] assms(3) by (simp add: mem_view_def)
  have a: "\<not> (qs_authRequired s \<and> FromContext ctx = None)" "AuthorizeSubject ctx (qr_Subject r) = None"
    using assms(4) by (auto simp: outsider_def AuthorizeSubject_def split: option.splits)
  have l: "strip_lease (r\<lparr>qr_LeaseDeadline := t\<rparr>) = r" for t using r by (cases r) (auto simp: strip_lease_def)
  show ?thesis using a assms(3) assms(5) l r
    by (auto simp: authorized_def qm_GetQuery_def wp_meta alone_others [OF assms(1)] mem_GetQuery_def split: option.splits)
qed

section \<open>A section is a slice\<close>

text \<open>
  What a reader promises: it returns at most what was asked for, in order, and \<^verbatim>\<open>io.EOF\<close> only at
  the end; and, if it works, it fails with nothing but \<^verbatim>\<open>io.EOF\<close> and does not return zero bytes
  without an error. \<open>rest w\<close> is what is still unread.
\<close>

definition works :: "'w reader \<Rightarrow> ('w \<Rightarrow> string) \<Rightarrow> bool" where
  "works rd rest \<longleftrightarrow>
     (\<forall>n w bs err w'. rd n w = ((bs, err), w') \<longrightarrow>
        length bs \<le> n \<and> rest w = bs @ rest w' \<and> err \<in> {None, Some EOF} \<and>
        (err = Some EOF \<longrightarrow> rest w' = []) \<and> (err = None \<longrightarrow> 0 < n \<longrightarrow> bs \<noteq> []))"

lemma worksD:
  assumes "works rd rest" "rd n w = ((bs, err), w')"
  shows "length bs \<le> n" "rest w = bs @ rest w'" "err = None \<or> err = Some EOF" "err = Some EOF \<Longrightarrow> rest w' = []"
    "err = None \<Longrightarrow> 0 < n \<Longrightarrow> bs \<noteq> []"
  using assms unfolding works_def by blast+

lemma copy_discard_works:
  "works rd rest \<Longrightarrow> length (rest w) < fuel \<Longrightarrow> 0 \<le> copied \<Longrightarrow> copied \<le> n \<Longrightarrow>
     \<exists>w'. copy_discard rd fuel n copied w = Some ((min n (copied + int (length (rest w))), None), w')
       \<and> rest w' = drop (nat (n - copied)) (rest w)"
proof (induction fuel arbitrary: copied w)
  case (Suc fuel)
  obtain bs err w1 where rd: "rd (nat (min 8192 (n - copied))) w = ((bs, err), w1)" by (metis surj_pair)
  note d = worksD [OF Suc.prems(1) rd]
  show ?case
  proof (cases "copied = n")
    case True
    then show ?thesis by auto
  next
    case False
    with Suc.prems(4) have lt: "copied < n" by simp
    with d(1) have le: "copied + int (length bs) \<le> n" by simp
    show ?thesis
    proof (cases err)
      case None
      with d(5) lt have "bs \<noteq> []" by auto
      with d(2) Suc.prems(2) have "length (rest w1) < fuel" by (cases bs) simp_all
      from Suc.IH [OF Suc.prems(1) this _ le] Suc.prems(3) obtain w'
        where w': "copy_discard rd fuel n (copied + int (length bs)) w1 = Some ((min n (copied + int (length bs) + int (length (rest w1))), None), w')"
          "rest w' = drop (nat (n - (copied + int (length bs)))) (rest w1)" by auto
      have "drop (nat (n - copied)) (rest w) = drop (nat (n - (copied + int (length bs)))) (rest w1)"
      proof -
        have "nat (n - copied) - length bs = nat (n - (copied + int (length bs)))" using le by linarith
        moreover have "length bs \<le> nat (n - copied)" using le by linarith
        ultimately show ?thesis by (simp add: d(2))
      qed
      with w' show ?thesis using lt None rd d(2) by (auto simp: Let_def add.assoc)
    next
      case (Some e)
      with d(3) have e: "e = EOF" by auto
      with d(4) Some have r: "rest w1 = []" by simp
      with d(2) le have "length (rest w) \<le> nat (n - copied)" by simp
      with lt Some e rd d(2) r le show ?thesis by (auto simp: Let_def min_def)
    qed
  qed
qed simp

lemma io_CopyN_works:
  assumes "works rd rest" "length (rest w) < fuel" "0 \<le> n"
  shows "\<exists>w'. io_CopyN rd fuel n w = Some ((min n (int (length (rest w))), if n \<le> int (length (rest w)) then None else Some EOF), w')
       \<and> rest w' = drop (nat n) (rest w)"
proof -
  from copy_discard_works [OF assms(1,2), of 0 n] assms(3) obtain w'
    where "copy_discard rd fuel n 0 w = Some ((min n (int (length (rest w))), None), w')" "rest w' = drop (nat n) (rest w)" by auto
  then show ?thesis by (auto simp: io_CopyN_def min_def)
qed

text \<open>What a section still has to serve.\<close>

definition section_rest :: "('w \<Rightarrow> string) \<Rightarrow> sectionReadCloser \<times> 'w \<Rightarrow> string" where
  "section_rest rest = (\<lambda>(src, w).
     let d = drop (nat (sr_offset src)) (rest w) in
     if sr_limit src > 0 then take (nat (sr_limit src - sr_read src)) d else d)"

lemma section_serve_works:
  assumes "works rd rest" and "sr_offset src \<le> 0" and "section_serve rd p src w = ((bs, err), src', w')"
  shows "length bs \<le> p \<and> section_rest rest (src, w) = bs @ section_rest rest (src', w') \<and> err \<in> {None, Some EOF} \<and>
     (err = Some EOF \<longrightarrow> section_rest rest (src', w') = []) \<and> (err = None \<longrightarrow> 0 < p \<longrightarrow> bs \<noteq> []) \<and>
     length (rest w') \<le> length (rest w) \<and> sr_offset src' \<le> 0"
proof (cases "sr_limit src > 0 \<and> sr_read src \<ge> sr_limit src")
  case True
  with assms show ?thesis by (auto simp: section_serve_def section_rest_def)
next
  case False
  define q where "q = (if sr_limit src > 0 \<and> int p > sr_limit src - sr_read src then nat (sr_limit src - sr_read src) else p)"
  obtain bs1 err1 w1 where rd: "rd q w = ((bs1, err1), w1)" by (metis surj_pair)
  note d = worksD [OF assms(1) rd]
  have q: "q \<le> p" "sr_limit src > 0 \<Longrightarrow> int q \<le> sr_limit src - sr_read src" "0 < p \<Longrightarrow> 0 < q"
    using False by (auto simp: q_def)
  let ?l = "sr_limit src > 0 \<and> sr_read src + int (length bs1) \<ge> sr_limit src"
  have res: "bs = bs1" "w' = w1" "src' = src\<lparr>sr_read := sr_read src + int (length bs1)\<rparr>" "err = (if ?l \<and> err1 = None then Some EOF else err1)"
    using assms(3) False rd by (auto simp: section_serve_def q_def Let_def split: if_splits)
  have lim: "take (nat (sr_limit src - sr_read src)) (rest w) = bs1 @ take (nat (sr_limit src - (sr_read src + int (length bs1)))) (rest w1)"
    if "sr_limit src > 0"
  proof -
    have "int (length bs1) \<le> sr_limit src - sr_read src" using q(2) [OF that] d(1) by simp
    then have "nat (sr_limit src - sr_read src) - length bs1 = nat (sr_limit src - (sr_read src + int (length bs1)))" "length bs1 \<le> nat (sr_limit src - sr_read src)"
      by (simp_all add: nat_diff_distrib)
    then show ?thesis unfolding d(2) by simp
  qed
  have "section_rest rest (src, w) = bs @ section_rest rest (src', w')"
    using assms(2) lim by (simp add: section_rest_def res Let_def) (simp add: d(2))
  moreover have "section_rest rest (src', w') = []" if "err = Some EOF"
    using that d(4) assms(2) by (auto simp: section_rest_def res Let_def split: if_splits)
  moreover have "length bs \<le> p" "err \<in> {None, Some EOF}" using d(1,3) q(1) by (auto simp: res)
  moreover have "err = None \<longrightarrow> 0 < p \<longrightarrow> bs \<noteq> []" using d(5) q(3) by (auto simp: res split: if_splits)
  moreover have "length (rest w') \<le> length (rest w)" using d(2) by (simp add: res)
  ultimately show ?thesis using assms(2) by (simp add: res)
qed

lemma section_Read_works:
  assumes "works rd rest" and "length (rest w) < fuel"
  shows "\<exists>bs err src' w'. section_Read rd fuel p src w = Some ((bs, err), src', w')
     \<and> length bs \<le> p \<and> section_rest rest (src, w) = bs @ section_rest rest (src', w') \<and> err \<in> {None, Some EOF}
     \<and> (err = Some EOF \<longrightarrow> section_rest rest (src', w') = []) \<and> (err = None \<longrightarrow> 0 < p \<longrightarrow> bs \<noteq> [])
     \<and> length (rest w') \<le> length (rest w)"
proof (cases "sr_offset src > 0")
  case False
  obtain bs err src' w' where s: "section_serve rd p src w = ((bs, err), src', w')" by (metis surj_pair)
  from section_serve_works [OF assms(1) _ s] False show ?thesis by (auto simp: section_Read_def s)
next
  case True
  from io_CopyN_works [OF assms, of "sr_offset src"] True obtain w1
    where c: "io_CopyN rd fuel (sr_offset src) w = Some ((min (sr_offset src) (int (length (rest w))), if sr_offset src \<le> int (length (rest w)) then None else Some EOF), w1)"
      and r: "rest w1 = drop (nat (sr_offset src)) (rest w)" by auto
  show ?thesis
  proof (cases "sr_offset src \<le> int (length (rest w))")
    case le: True
    let ?src = "src\<lparr>sr_offset := 0\<rparr>"
    obtain bs err src' w' where s: "section_serve rd p ?src w1 = ((bs, err), src', w')" by (metis surj_pair)
    have "section_rest rest (src, w) = section_rest rest (?src, w1)" by (simp add: section_rest_def r Let_def)
    with section_serve_works [OF assms(1) _ s] True c s le r show ?thesis by (auto simp: section_Read_def min_def)
  next
    case gt: False
    then have "rest w1 = []" using r by simp
    then have "section_rest rest (x, w1) = []" for x by (simp add: section_rest_def)
    moreover have "section_rest rest (src, w) = []" using gt True by (simp add: section_rest_def)
    ultimately show ?thesis using True c gt r by (auto simp: section_Read_def min_def)
  qed
qed

text \<open>
  \<^verbatim>\<open>io.Copy\<close> from a section, with a buffer of \<open>buf\<close> bytes: what arrived and the error.
\<close>

fun copy_section :: "'w reader \<Rightarrow> nat \<Rightarrow> nat \<Rightarrow> nat \<Rightarrow> string \<Rightarrow> sectionReadCloser \<Rightarrow> 'w \<Rightarrow> ((string \<times> go_error option) \<times> 'w) option" where
  "copy_section rd n 0 buf got src w = None"
| "copy_section rd n (Suc fuel) buf got src w =
     (case section_Read rd n buf src w of
        None \<Rightarrow> None
      | Some ((bs, err), src', w') \<Rightarrow>
          (case err of
             None \<Rightarrow> copy_section rd n fuel buf (got @ bs) src' w'
           | Some e \<Rightarrow> Some ((got @ bs, if e = EOF then None else Some e), w')))"

lemma copy_section_works:
  "works rd rest \<Longrightarrow> 0 < buf \<Longrightarrow> length (rest w) < n \<Longrightarrow> length (section_rest rest (src, w)) < fuel \<Longrightarrow>
     \<exists>w'. copy_section rd n fuel buf got src w = Some ((got @ section_rest rest (src, w), None), w')"
proof (induction fuel arbitrary: got src w)
  case (Suc fuel)
  from section_Read_works [OF Suc.prems(1,3), of buf src] obtain bs err src' w'
    where r: "section_Read rd n buf src w = Some ((bs, err), src', w')" "section_rest rest (src, w) = bs @ section_rest rest (src', w')"
      "err \<in> {None, Some EOF}" "err = Some EOF \<longrightarrow> section_rest rest (src', w') = []" "err = None \<longrightarrow> 0 < buf \<longrightarrow> bs \<noteq> []"
      "length (rest w') \<le> length (rest w)" by blast
  show ?case
  proof (cases err)
    case None
    with r(5) Suc.prems(2) have "bs \<noteq> []" by simp
    with r(2) Suc.prems(4) have "length (section_rest rest (src', w')) < fuel" by (cases bs) simp_all
    with Suc.IH [OF Suc.prems(1,2), of w' src' "got @ bs"] r Suc.prems(3) None show ?thesis by auto
  next
    case (Some e)
    with r show ?thesis by auto
  qed
qed simp

text \<open>
  Serving a section. Whatever pieces the underlying reader delivers and whatever the size of
  the buffer, copying from a section reader with a given offset and limit ends and yields exactly
  the bytes of the stored result from the offset on, cut off at the limit if there is one - none at
  all when the offset is past the end - and reports no error.
\<close>

theorem section_is_slice:
  assumes "works rd rest" and "0 < buf" and "0 \<le> offset" and "length (rest w) < fuel"
  shows "\<exists>w'. copy_section rd fuel fuel buf [] (newSectionReadCloser offset limit) w
     = Some ((let d = drop (nat offset) (rest w) in if limit > 0 then take (nat limit) d else d, None), w')"
proof -
  let ?src = "newSectionReadCloser offset limit"
  have r: "section_rest rest (?src, w) = (let d = drop (nat offset) (rest w) in if limit > 0 then take (nat limit) d else d)"
    by (simp add: section_rest_def newSectionReadCloser_def Let_def)
  then have "length (section_rest rest (?src, w)) < fuel" using assms(4) by (auto simp: Let_def)
  from copy_section_works [OF assms(1,2,4) this, of "[]"] show ?thesis by (simp add: r)
qed

text \<open>A reader that hands out at most three bytes at a time.\<close>

definition trickle :: "string reader" where
  "trickle n w = (if w = [] then (([], Some EOF), w) else ((take (min n 3) w, None), drop (min n 3) w))"

lemma works_trickle: "works trickle (\<lambda>w. w)"
  by (auto simp: works_def trickle_def split: if_splits)

theorem section_is_slice_witness:
  "\<exists>w'. copy_section trickle 20 20 4 [] (newSectionReadCloser 2 5) ''abcdefghij'' = Some ((''cdefg'', None), w')"
  using section_is_slice [OF works_trickle, of 4 2 "''abcdefghij''" 20 5] by (simp add: Let_def)

end
