(* ===== verification/Ratelimit.thy ===== *)
theory Ratelimit
  imports Config
begin

text \<open>
  The request rate limiter, \<^verbatim>\<open>internal/ratelimit/ratelimit.go\<close>: one token bucket per caller,
  dropped after a time without use.

  The bucket itself is \<^verbatim>\<open>golang.org/x/time/rate\<close> and so a parameter, \<open>rate_lib\<close>: a new bucket for
  a rate and a burst, and what \<^verbatim>\<open>Allow\<close> answers at a time. A request comes with its clock reading.
\<close>

record 'l rate_lib =
  rl_NewLimiter :: "rat \<Rightarrow> int \<Rightarrow> 'l"
  rl_Allow :: "time \<Rightarrow> 'l \<Rightarrow> bool \<times> 'l"

definition idleEviction :: duration where "idleEviction = 10 * Minute"

record 'l limiter_entry =
  le_limiter :: 'l
  le_lastUse :: time

record 'l Limiter =
  li_entries :: "(string, 'l limiter_entry) gomap"
  li_rps :: rat
  li_burst :: int
  li_lastPurge :: time

definition NewLimiter :: "rat \<Rightarrow> int \<Rightarrow> 'l Limiter option" where
  "NewLimiter rps burst =
     (if rps \<le> 0 then None
      else Some \<lparr>li_entries = [], li_rps = rps, li_burst = (if burst \<le> 0 then 1 else burst), li_lastPurge = 0\<rparr>)"

definition purgeLocked :: "time \<Rightarrow> 'l Limiter \<Rightarrow> 'l Limiter" where
  "purgeLocked now l =
     (if time_Sub now (li_lastPurge l) < idleEviction then l
      else l\<lparr>li_lastPurge := now,
             li_entries := filter (\<lambda>(key, e). \<not> time_Sub now (le_lastUse e) > idleEviction) (li_entries l)\<rparr>)"

text \<open>\<^verbatim>\<open>Allow\<close> on a limiter; the nil limiter allows everything.\<close>

definition limiter_Allow :: "'l rate_lib \<Rightarrow> time \<Rightarrow> string \<Rightarrow> 'l Limiter \<Rightarrow> bool \<times> 'l Limiter" where
  "limiter_Allow lib now key l =
     (let l = purgeLocked now l;
          e = (case mget (li_entries l) key of
                 Some e \<Rightarrow> e
               | None \<Rightarrow> \<lparr>le_limiter = rl_NewLimiter lib (li_rps l) (li_burst l), le_lastUse = 0\<rparr>);
          (ok, b) = rl_Allow lib now (le_limiter e) in
      (ok, l\<lparr>li_entries := mput key \<lparr>le_limiter = b, le_lastUse = now\<rparr> (li_entries l)\<rparr>))"

definition Allow :: "'l rate_lib \<Rightarrow> time \<Rightarrow> string \<Rightarrow> 'l Limiter option \<Rightarrow> bool \<times> 'l Limiter option" where
  "Allow lib now key ol =
     (case ol of None \<Rightarrow> (True, None) | Some l \<Rightarrow> (case limiter_Allow lib now key l of (ok, l') \<Rightarrow> (ok, Some l')))"

text \<open>\<^verbatim>\<open>net.SplitHostPort\<close>: the host, or \<open>None\<close> when it fails.\<close>

fun index_of :: "char \<Rightarrow> string \<Rightarrow> nat option" where
  "index_of c [] = None"
| "index_of c (x # xs) = (if x = c then Some 0 else map_option Suc (index_of c xs))"

definition last_index_of :: "char \<Rightarrow> string \<Rightarrow> nat option" where
  "last_index_of c s = map_option (\<lambda>i. length s - 1 - i) (index_of c (rev s))"

definition SplitHost :: "string \<Rightarrow> string option" where
  "SplitHost hostport =
     (case last_index_of (CHR '':'') hostport of
        None \<Rightarrow> None
      | Some i \<Rightarrow>
          if hostport ! 0 = CHR ''['' then
            (case index_of (CHR '']'') hostport of
               None \<Rightarrow> None
             | Some e \<Rightarrow>
                 if e + 1 \<noteq> i then None
                 else if index_of (CHR ''['') (drop 1 hostport) \<noteq> None \<or> index_of (CHR '']'') (drop (e + 1) hostport) \<noteq> None then None
                 else Some (take (e - 1) (drop 1 hostport)))
          else let host = take i hostport in
            if index_of (CHR '':'') host \<noteq> None \<or> index_of (CHR ''['') hostport \<noteq> None \<or> index_of (CHR '']'') hostport \<noteq> None then None
            else Some host)"

definition clientAddr :: "string \<Rightarrow> string \<Rightarrow> string" where
  "clientAddr clientIP remoteAddr =
     (if clientIP \<noteq> [] then clientIP
      else case SplitHost remoteAddr of None \<Rightarrow> remoteAddr | Some host \<Rightarrow> host)"

definition KeyOf :: "string \<Rightarrow> string \<Rightarrow> string" where
  "KeyOf clientIP remoteAddr = ''addr:'' @ clientAddr clientIP remoteAddr"

section \<open>Callers do not disturb each other\<close>

text \<open>A sequence of requests, each with the time and the key, and the answers.\<close>

fun serve_all :: "'l rate_lib \<Rightarrow> (time \<times> string) list \<Rightarrow> 'l Limiter \<Rightarrow> (string \<times> bool) list" where
  "serve_all lib [] l = []"
| "serve_all lib ((now, key) # rs) l =
     (case limiter_Allow lib now key l of (ok, l') \<Rightarrow> (key, ok) # serve_all lib rs l')"

text \<open>One bucket that serves the requests of one caller.\<close>

fun bucket_run :: "'l rate_lib \<Rightarrow> time list \<Rightarrow> 'l \<Rightarrow> bool list" where
  "bucket_run lib [] b = []"
| "bucket_run lib (now # ts) b = (case rl_Allow lib now b of (ok, b') \<Rightarrow> ok # bucket_run lib ts b')"

text \<open>
  A bucket that was not used for longer than the eviction time is full again: it goes on like a
  new one. \<open>P\<close> are the buckets that occur, with the time of their last use.
\<close>

definition refills :: "'l rate_lib \<Rightarrow> rat \<Rightarrow> int \<Rightarrow> ('l \<Rightarrow> time \<Rightarrow> bool) \<Rightarrow> bool" where
  "refills lib rps burst P \<longleftrightarrow>
     (\<forall>now. P (snd (rl_Allow lib now (rl_NewLimiter lib rps burst))) now) \<and>
     (\<forall>b t now. P b t \<longrightarrow> P (snd (rl_Allow lib now b)) now) \<and>
     (\<forall>b t now. P b t \<longrightarrow> time_Sub now t > idleEviction \<longrightarrow> rl_Allow lib now b = rl_Allow lib now (rl_NewLimiter lib rps burst))"

text \<open>The bucket \<open>b\<close> answers like the entry of \<open>k\<close> from the time \<open>T\<close> on.\<close>

definition same_bucket :: "'l rate_lib \<Rightarrow> ('l \<Rightarrow> time \<Rightarrow> bool) \<Rightarrow> time \<Rightarrow> string \<Rightarrow> 'l \<Rightarrow> 'l Limiter \<Rightarrow> bool" where
  "same_bucket lib P T k b l \<longleftrightarrow>
     mwf (li_entries l) \<and>
     (case mget (li_entries l) k of
        Some e \<Rightarrow> le_limiter e = b \<and> P b (le_lastUse e)
      | None \<Rightarrow> \<forall>now \<ge> T. rl_Allow lib now b = rl_Allow lib now (rl_NewLimiter lib (li_rps l) (li_burst l)))"

lemma mwf_filter: "mwf m \<Longrightarrow> mwf (filter Q m)"
  by (simp add: mwf_def mkeys_def distinct_map_filter)

lemma mget_filter:
  assumes "mwf m"
  shows "mget (filter (\<lambda>(k, v). Q v) m) k = (case mget m k of Some v \<Rightarrow> if Q v then Some v else None | None \<Rightarrow> None)"
proof -
  let ?f = "mget (filter (\<lambda>(k, v). Q v) m) k"
  have iff: "?f = Some v \<longleftrightarrow> mget m k = Some v \<and> Q v" for v
    using assms by (simp add: mget_iff_mem mwf_filter)
  show ?thesis
  proof (cases "mget m k")
    case None
    with iff have "?f \<noteq> Some v" for v by simp
    then have "?f = None" by (cases ?f) blast+
    with None show ?thesis by simp
  next
    case (Some v)
    show ?thesis
    proof (cases "Q v")
      case True
      with Some iff [of v] show ?thesis by simp
    next
      case False
      with Some iff have "?f \<noteq> Some u" for u by auto
      then have "?f = None" by (cases ?f) blast+
      with Some False show ?thesis by simp
    qed
  qed
qed

lemma time_Sub_mono: "now \<le> now' \<Longrightarrow> time_Sub now t \<le> time_Sub now' t"
  by (simp add: time_Sub_def sat64_def)

lemma purge_same_bucket:
  assumes "refills lib (li_rps l) (li_burst l) P" and "same_bucket lib P T k b l" and "T \<le> now"
  shows "same_bucket lib P now k b (purgeLocked now l)"
proof (cases "time_Sub now (li_lastPurge l) < idleEviction")
  case True
  with assms show ?thesis by (auto simp: same_bucket_def purgeLocked_def split: option.splits)
next
  case False
  have wf: "mwf (li_entries l)" using assms(2) by (simp add: same_bucket_def)
  show ?thesis
  proof (cases "mget (li_entries l) k")
    case None
    with False assms wf show ?thesis by (simp add: same_bucket_def purgeLocked_def mget_filter mwf_filter)
  next
    case (Some e)
    with assms(2) have e: "le_limiter e = b" "P b (le_lastUse e)" by (simp_all add: same_bucket_def)
    have "rl_Allow lib now' b = rl_Allow lib now' (rl_NewLimiter lib (li_rps l) (li_burst l))"
      if "time_Sub now (le_lastUse e) > idleEviction" "now \<le> now'" for now'
      using assms(1) e(2) that time_Sub_mono [OF that(2), of "le_lastUse e"] unfolding refills_def by (meson less_le_trans)
    with False wf Some e show ?thesis by (simp add: same_bucket_def purgeLocked_def mget_filter mwf_filter)
  qed
qed

lemma allow_same_bucket:
  assumes "refills lib (li_rps l) (li_burst l) P" and "same_bucket lib P T k b l" and "T \<le> now"
    and "limiter_Allow lib now key l = (ok, l')"
  shows "if key = k then ok = fst (rl_Allow lib now b) \<and> same_bucket lib P now k (snd (rl_Allow lib now b)) l'
    else same_bucket lib P now k b l'"
    and "li_rps l' = li_rps l" "li_burst l' = li_burst l"
proof -
  let ?l = "purgeLocked now l"
  have cfg: "li_rps ?l = li_rps l" "li_burst ?l = li_burst l" by (simp_all add: purgeLocked_def)
  note s = purge_same_bucket [OF assms(1-3)]
  define e where "e = (case mget (li_entries ?l) key of Some e \<Rightarrow> e
      | None \<Rightarrow> \<lparr>le_limiter = rl_NewLimiter lib (li_rps ?l) (li_burst ?l), le_lastUse = 0\<rparr>)"
  have l': "ok = fst (rl_Allow lib now (le_limiter e))"
    "l' = ?l\<lparr>li_entries := mput key \<lparr>le_limiter = snd (rl_Allow lib now (le_limiter e)), le_lastUse = now\<rparr> (li_entries ?l)\<rparr>"
    using assms(4) by (auto simp: limiter_Allow_def Let_def e_def split: prod.splits)
  show "li_rps l' = li_rps l" "li_burst l' = li_burst l" by (simp_all add: l'(2) cfg)
  show "if key = k then ok = fst (rl_Allow lib now b) \<and> same_bucket lib P now k (snd (rl_Allow lib now b)) l'
    else same_bucket lib P now k b l'"
  proof (cases "key = k")
    case True
    have "rl_Allow lib now (le_limiter e) = rl_Allow lib now b" "P (snd (rl_Allow lib now b)) now"
      using s True assms(1) [folded cfg] by (auto simp: same_bucket_def e_def refills_def split: option.splits)
    with s True show ?thesis by (simp add: l' same_bucket_def)
  next
    case False
    with s show ?thesis by (auto simp: l' same_bucket_def split: option.splits)
  qed
qed

lemma serve_all_bucket:
  "refills lib (li_rps l) (li_burst l) P \<Longrightarrow> same_bucket lib P T k b l \<Longrightarrow> sorted (T # map fst rs) \<Longrightarrow>
     map snd (filter (\<lambda>(k', ok). k' = k) (serve_all lib rs l)) = bucket_run lib (map fst (filter (\<lambda>(t, k'). k' = k) rs)) b"
proof (induction rs arbitrary: T b l)
  case (Cons r rs)
  obtain now key where r: "r = (now, key)" by (cases r)
  obtain ok l' where a: "limiter_Allow lib now key l = (ok, l')" by (metis surj_pair)
  have T: "T \<le> now" "sorted (now # map fst rs)" using Cons.prems(3) by (simp_all add: r)
  note s = allow_same_bucket [OF Cons.prems(1,2) T(1) a]
  from Cons.prems(1) have f: "refills lib (li_rps l') (li_burst l') P" by (simp add: s(2,3))
  show ?case
    using s(1) Cons.IH [OF f _ T(2)] by (auto simp: r a split: prod.splits if_splits)
qed simp


text \<open>A bucket that gives one token back per ten minutes and holds one.\<close>

definition slow_lib :: "(time option) rate_lib" where
  "slow_lib = \<lparr>rl_NewLimiter = (\<lambda>rps burst. None),
     rl_Allow = (\<lambda>now b. case b of None \<Rightarrow> (True, Some now)
       | Some t \<Rightarrow> if time_Sub now t > idleEviction then (True, Some now) else (False, Some now))\<rparr>"

lemma slow_refills: "refills slow_lib rps burst (\<lambda>b t. b = Some t)"
  by (auto simp: refills_def slow_lib_def)


text \<open>
  The proviso is needed: a bucket that takes an hour to give a token back is replaced by a full one
  after ten idle minutes.
\<close>

definition hourly_lib :: "(time option) rate_lib" where
  "hourly_lib = \<lparr>rl_NewLimiter = (\<lambda>rps burst. None),
     rl_Allow = (\<lambda>now b. case b of None \<Rightarrow> (True, Some now)
       | Some t \<Rightarrow> if time_Sub now t \<ge> Hour then (True, Some now) else (False, Some t))\<rparr>"

lemma eviction_refills:
  "map snd (serve_all hourly_lib [(Hour, ''a''), (Hour + 11 * Minute, ''a'')]
     \<lparr>li_entries = [], li_rps = 1 / 3600, li_burst = 1, li_lastPurge = 0\<rparr>) = [True, True]"
  "bucket_run hourly_lib [Hour, Hour + 11 * Minute] (rl_NewLimiter hourly_lib (1 / 3600) 1) = [True, False]"
  by code_simp+

end
