(* ===== verification/Rest.thy ===== *)
theory Rest
  imports Service Ratelimit
begin

text \<open>
  The REST transport, \<^verbatim>\<open>internal/transport/rest\<close>: the mapping of errors, the credential of a
  request and the gates of the routes, the wire types, and the handlers.

  \<^item> A request is the record of what the handlers read of it: path parameters, the headers and the
    query string they look at, the request ID the middleware assigned, and the addresses. A header
    that is absent reads as the empty string, as \<^verbatim>\<open>Header.Get\<close> does.
  \<^item> A response is its status, the headers the source sets and the body. A JSON body is the value
    that is encoded, not its text; what decoding the request body gives is an argument.
  \<^item> Routing is \<^verbatim>\<open>chi\<close>'s: \<open>setupRoutes\<close> is the table the source hands it, and a request comes with
    the endpoint it was routed to. Logging and tracing middleware is not modelled.
\<close>

section \<open>Wire types\<close>

record queryOptionsDTO =
  od_TimeoutMs :: int
  od_Mode :: string
  od_ResultTTLSeconds :: int
  od_IdempotencyKey :: string
  od_ResultFormat :: string
  od_StorageBackend :: string

record queryStatsDTO =
  sd_RowsRead :: int
  sd_BytesWritten :: int
  sd_DBExecDurationMs :: int
  sd_StorageWriteDurationMs :: int
  sd_TotalDurationMs :: int

record resultRefDTO =
  rd_Backend :: string
  rd_Locator :: string
  rd_SizeBytes :: int
  rd_RowCount :: int
  rd_Format :: string
  rd_Checksum :: string

record queryErrorDTO =
  ed_Code :: string
  ed_Message :: string
  ed_Retryable :: bool

record queryRecordDTO =
  qd_ID :: string
  qd_DatabaseID :: string
  qd_SQL :: string
  qd_Options :: queryOptionsDTO
  qd_State :: string
  qd_OwnerInstanceID :: string
  qd_CreatedAt :: time
  qd_StartedAt :: "time option"
  qd_FinishedAt :: "time option"
  qd_LeaseDeadline :: "time option"
  qd_Error :: "queryErrorDTO option"
  qd_Stats :: queryStatsDTO
  qd_Result :: "resultRefDTO option"
  qd_IdempotencyKey :: string
  qd_Subject :: string

definition optionalTime :: "time \<Rightarrow> time option" where
  "optionalTime t = (if IsZero t then None else Some t)"

text \<open>\<^verbatim>\<open>Duration.Milliseconds\<close>. \<^verbatim>\<open>int64(d.Seconds())\<close> goes through a \<^verbatim>\<open>float64\<close>: \<open>secs\<close> is that function.\<close>

definition Milliseconds :: "duration \<Rightarrow> int" where
  "Milliseconds d = quot64 d Millisecond"

definition toOptionsDTO :: "(duration \<Rightarrow> int) \<Rightarrow> QueryOptions \<Rightarrow> queryOptionsDTO" where
  "toOptionsDTO secs o' =
     \<lparr>od_TimeoutMs = Milliseconds (opt_Timeout o'), od_Mode = opt_Mode o', od_ResultTTLSeconds = secs (opt_ResultTTL o'),
      od_IdempotencyKey = opt_IdempotencyKey o', od_ResultFormat = opt_ResultFormat o', od_StorageBackend = opt_StorageBackend o'\<rparr>"

definition toStatsDTO :: "QueryStats \<Rightarrow> queryStatsDTO" where
  "toStatsDTO s =
     \<lparr>sd_RowsRead = st_RowsRead s, sd_BytesWritten = st_BytesWritten s, sd_DBExecDurationMs = Milliseconds (st_DBExecDuration s),
      sd_StorageWriteDurationMs = Milliseconds (st_StorageWriteDuration s), sd_TotalDurationMs = Milliseconds (st_TotalDuration s)\<rparr>"

definition toErrorDTO :: "QueryError \<Rightarrow> queryErrorDTO" where
  "toErrorDTO e = \<lparr>ed_Code = code_string (qe_Code e), ed_Message = qe_Message e, ed_Retryable = qe_Retryable e\<rparr>"

definition toRefDTO :: "ResultRef \<Rightarrow> resultRefDTO" where
  "toRefDTO ref = \<lparr>rd_Backend = ref_Backend ref, rd_Locator = ref_Locator ref, rd_SizeBytes = ref_SizeBytes ref,
     rd_RowCount = ref_RowCount ref, rd_Format = ref_Format ref, rd_Checksum = ref_Checksum ref\<rparr>"

definition toRecordDTO :: "(duration \<Rightarrow> int) \<Rightarrow> QueryRecord \<Rightarrow> queryRecordDTO" where
  "toRecordDTO secs r =
     \<lparr>qd_ID = qr_ID r, qd_DatabaseID = qr_DatabaseID r, qd_SQL = qr_SQL r, qd_Options = toOptionsDTO secs (qr_Options r),
      qd_State = state_string (qr_State r), qd_OwnerInstanceID = qr_OwnerInstanceID r, qd_CreatedAt = qr_CreatedAt r,
      qd_StartedAt = optionalTime (qr_StartedAt r), qd_FinishedAt = optionalTime (qr_FinishedAt r),
      qd_LeaseDeadline = optionalTime (qr_LeaseDeadline r), qd_Error = map_option toErrorDTO (qr_Error r),
      qd_Stats = toStatsDTO (qr_Stats r), qd_Result = map_option toRefDTO (qr_Result r),
      qd_IdempotencyKey = qr_IdempotencyKey r, qd_Subject = qr_Subject r\<rparr>"

section \<open>Requests and responses\<close>

record request =
  rq_id :: string
  rq_Path :: string
  rq_Range :: string
  rq_offset :: string
  rq_limit :: string
  rq_Authorization :: string
  rq_Protocols :: "string list"
  rq_IdempotencyKey :: string
  rq_RequestID :: string
  rq_ClientIP :: string
  rq_RemoteAddr :: string

datatype body =
    NoBody
  | ErrorJSON string string
  | RecordJSON queryRecordDTO
  | StatsJSON queryStatsDTO
  | StoppedJSON string
  | DatabasesJSON "DatabaseInfo list"
  | ReloadJSON ReloadReport
  | CanStopJSON bool nat string
  | Text string
  | Bytes string

record response =
  rp_status :: nat
  rp_headers :: "(string \<times> string) list"
  rp_body :: body

definition json_type :: "string \<times> string" where
  "json_type = (''Content-Type'', ''application/json'')"

definition writeStatus :: "request \<Rightarrow> nat \<Rightarrow> string \<Rightarrow> response" where
  "writeStatus r status message =
     \<lparr>rp_status = status, rp_headers = [json_type], rp_body = ErrorJSON message (rq_RequestID r)\<rparr>"

definition classify :: "go_error option \<Rightarrow> nat \<times> string" where
  "classify err =
     (case err of
        None \<Rightarrow> (200, [])
      | Some e \<Rightarrow>
          (case root e of
             ValidationError _ _ \<Rightarrow> (400, error_text e)
           | NotFoundError _ _ \<Rightarrow> (404, ''not found'')
           | ErrNotFound \<Rightarrow> (404, ''not found'')
           | DrainingError \<Rightarrow> (503, error_text e)
           | UnavailableError _ \<Rightarrow> (503, error_text e)
           | ResourceExhaustedError _ \<Rightarrow> (429, error_text e)
           | _ \<Rightarrow> (500, ''internal error'')))"

definition writeError :: "request \<Rightarrow> go_error \<Rightarrow> response" where
  "writeError r e = (case classify (Some e) of (status, message) \<Rightarrow> writeStatus r status message)"

definition writeValidationError :: "request \<Rightarrow> string \<Rightarrow> string \<Rightarrow> response" where
  "writeValidationError r field reason = writeError r (ValidationError field reason)"

definition okJSON :: "nat \<Rightarrow> body \<Rightarrow> response" where
  "okJSON status b = \<lparr>rp_status = status, rp_headers = [json_type], rp_body = b\<rparr>"

section \<open>Credentials and gates\<close>

definition BearerSubprotocol :: string where
  "BearerSubprotocol = ''dbbridge.bearer''"

fun after_marker :: "string list \<Rightarrow> string" where
  "after_marker (p # q # ps) = (if p = BearerSubprotocol then q else after_marker (q # ps))"
| "after_marker ps = []"

definition subprotocolCredential :: "string list \<Rightarrow> string" where
  "subprotocolCredential vals =
     after_marker (filter (\<lambda>p. p \<noteq> []) (map TrimSpace (concat (map (split_char (CHR '','')) vals))))"

definition credential :: "request \<Rightarrow> string" where
  "credential r =
     (let v = BearerToken (rq_Authorization r) in
      if v \<noteq> [] then v else subprotocolCredential (rq_Protocols r))"

text \<open>
  The middleware of a scope: the response that ends the request, or the context to go on with. The
  \<^verbatim>\<open>Vary\<close> header that a gate adds to a request it lets through is not kept.
\<close>

definition require :: "Authenticator option \<Rightarrow> Scope \<Rightarrow> request \<Rightarrow> Context \<Rightarrow> response + Context" where
  "require auth scope r ctx =
     (case auth of
        None \<Rightarrow> Inr ctx
      | Some a \<Rightarrow>
          (case Authenticate a (credential r) of
             Inl _ \<Rightarrow> Inl ((writeStatus r 401 ''unauthorized'')
                  \<lparr>rp_headers := [(''Vary'', ''Authorization''), (''WWW-Authenticate'', ''Bearer realm='' @ strconv_Quote ''dbbridge''), json_type]\<rparr>)
           | Inr i \<Rightarrow>
               if \<not> Has i scope
               then Inl ((writeStatus r 403 ''forbidden'')\<lparr>rp_headers := [(''Vary'', ''Authorization''), json_type]\<rparr>)
               else Inr (WithIdentity ctx i)))"

fun require_all :: "Authenticator option \<Rightarrow> Scope list \<Rightarrow> request \<Rightarrow> Context \<Rightarrow> response + Context" where
  "require_all auth [] r ctx = Inr ctx"
| "require_all auth (s # ss) r ctx =
     (case require auth s r ctx of Inl resp \<Rightarrow> Inl resp | Inr ctx' \<Rightarrow> require_all auth ss r ctx')"

definition rateLimit :: "'l rate_lib \<Rightarrow> time \<Rightarrow> request \<Rightarrow> 'l Limiter option \<Rightarrow> response option \<times> 'l Limiter option" where
  "rateLimit lib now r l =
     (if rq_Path r = ''/healthz'' \<or> rq_Path r = ''/readyz'' then (None, l)
      else case Allow lib now (KeyOf (rq_ClientIP r) (rq_RemoteAddr r)) l of
        (ok, l') \<Rightarrow> (if ok then None else Some (writeStatus r 429 ''rate limit exceeded''), l'))"

section \<open>Routes\<close>

datatype endpoint =
    Healthz | Readyz | Result | WebSocket | Start | Databases | Status | Stats | Stop | Metrics | ReloadEP | CanStop

record route =
  rt_method :: string
  rt_pattern :: string
  rt_scopes :: "Scope list"
  rt_timeout :: bool
  rt_endpoint :: endpoint

definition route_of :: "string \<Rightarrow> string \<Rightarrow> Scope list \<Rightarrow> bool \<Rightarrow> endpoint \<Rightarrow> route" where
  "route_of m p ss t ep = \<lparr>rt_method = m, rt_pattern = p, rt_scopes = ss, rt_timeout = t, rt_endpoint = ep\<rparr>"

definition mountAdmin :: "route list" where
  "mountAdmin =
     [route_of ''*'' ''/metrics'' [ScopeAdmin] False Metrics,
      route_of ''POST'' ''/v1/admin/reload'' [ScopeAdmin] True ReloadEP,
      route_of ''GET'' ''/v1/admin/can-stop'' [ScopeAdmin] True CanStop]"

text \<open>The routes of the public router, and those of the admin router if there is one.\<close>

definition setupRoutes :: "bool \<Rightarrow> route list \<times> route list option" where
  "setupRoutes separateAdmin =
     (let pub =
       [route_of ''GET'' ''/healthz'' [] False Healthz,
        route_of ''GET'' ''/readyz'' [] False Readyz,
        route_of ''GET'' ''/v1/queries/{id}/result'' [ScopeRead] False Result,
        route_of ''GET'' ''/v1/ws'' [ScopeRead] False WebSocket,
        route_of ''POST'' ''/v1/queries'' [ScopeRead, ScopeWrite] False Start,
        route_of ''GET'' ''/v1/databases'' [ScopeRead] True Databases,
        route_of ''GET'' ''/v1/queries/{id}'' [ScopeRead] True Status,
        route_of ''GET'' ''/v1/queries/{id}/stats'' [ScopeRead] True Stats,
        route_of ''POST'' ''/v1/queries/{id}:stop'' [ScopeRead, ScopeWrite] True Stop]
      in if separateAdmin then (pub, Some mountAdmin) else (pub @ mountAdmin, None))"

section \<open>Ranges\<close>

text \<open>\<^verbatim>\<open>strconv.ParseInt(s, 10, 64)\<close>.\<close>

definition is_digit :: "char \<Rightarrow> bool" where
  "is_digit c \<longleftrightarrow> (48::nat) \<le> of_char c \<and> of_char c \<le> (57::nat)"

definition decimal :: "string \<Rightarrow> nat" where
  "decimal ds = fold (\<lambda>c n. 10 * n + (of_char c - 48)) ds 0"

definition ParseInt64 :: "string \<Rightarrow> int option" where
  "ParseInt64 s =
     (let (neg, ds) = (case s of c # cs \<Rightarrow> if c = CHR ''-'' then (True, cs) else if c = CHR ''+'' then (False, cs) else (False, s)
                        | [] \<Rightarrow> (False, []));
          v = (if neg then - int (decimal ds) else int (decimal ds)) in
      if ds \<noteq> [] \<and> list_all is_digit ds \<and> in64 v then Some v else None)"

text \<open>\<^verbatim>\<open>strings.SplitN(spec, "-", 2)\<close> when the separator occurs.\<close>

fun split_at :: "char \<Rightarrow> string \<Rightarrow> (string \<times> string) option" where
  "split_at c [] = None"
| "split_at c (x # xs) = (if x = c then Some ([], xs) else map_option (\<lambda>(a, b). (x # a, b)) (split_at c xs))"

definition parseByteRange :: "string \<Rightarrow> (int \<times> int) option" where
  "parseByteRange header =
     (if \<not> strings_HasPrefix header ''bytes='' then None
      else case split_at (CHR ''-'') (strings_TrimPrefix header ''bytes='') of
        None \<Rightarrow> None
      | Some (a, b) \<Rightarrow>
          (case ParseInt64 a of
             None \<Rightarrow> None
           | Some s \<Rightarrow>
               if s < 0 then None
               else if b = [] then Some (s, -1)
               else (case ParseInt64 b of
                 None \<Rightarrow> None
               | Some e \<Rightarrow> if e < s then None else Some (s, e))))"

text \<open>A count in the query string: absent, a count, or malformed.\<close>

definition query_count :: "string \<Rightarrow> int option" where
  "query_count s =
     (if s = [] then Some 0
      else case ParseInt64 s of None \<Rightarrow> None | Some n \<Rightarrow> if n < 0 then None else Some n)"

text \<open>What a download request asks for: offset, limit, and the range if there is a \<^verbatim>\<open>Range\<close> header.\<close>

definition download_window :: "request \<Rightarrow> response + int \<times> int \<times> (int \<times> int) option" where
  "download_window r =
     (if rq_Range r \<noteq> [] then
        (case parseByteRange (rq_Range r) of
           None \<Rightarrow> Inl (writeStatus r 416 ''invalid Range header'')
         | Some (s, e) \<Rightarrow> Inr (s, if e \<ge> 0 then wrap64 (wrap64 (e - s) + 1) else 0, Some (s, e)))
      else (case query_count (rq_offset r) of
          None \<Rightarrow> Inl (writeValidationError r ''offset'' ''must be a non-negative integer'')
        | Some offset \<Rightarrow>
            (case query_count (rq_limit r) of
               None \<Rightarrow> Inl (writeValidationError r ''limit'' ''must be a non-negative integer'')
             | Some limit \<Rightarrow> Inr (offset, limit, None))))"

definition content_type :: "string \<Rightarrow> string" where
  "content_type format =
     (if format = ''csv'' then ''text/csv'' else if format = ''jsonl'' then ''application/x-jsonlines''
      else ''application/octet-stream'')"

text \<open>
  The head of the answer: \<open>Inl\<close> is the response to a range that starts past the end, \<open>Inr\<close> the
  status and headers of one whose body follows.
\<close>

definition download_head :: "request \<Rightarrow> ResultRef \<Rightarrow> (int \<times> int) option \<Rightarrow> response + nat \<times> (string \<times> string) list" where
  "download_head r ref rg =
     (let ct = (''Content-Type'', content_type (ref_Format ref)); total = ref_SizeBytes ref in
      case rg of
        None \<Rightarrow> Inr (200, [ct])
      | Some (rangeStart, rangeEnd) \<Rightarrow>
          if total \<ge> 0 \<and> rangeStart \<ge> total
          then Inl ((writeStatus r 416 ''range not satisfiable'')
                 \<lparr>rp_headers := [json_type, (''Content-Range'', ''bytes */'' @ itoa total)]\<rparr>)
          else let e = (if rangeEnd < 0 \<or> rangeEnd \<ge> total then wrap64 (total - 1) else rangeEnd) in
            Inr (206, [ct, (''Content-Range'', ''bytes '' @ itoa rangeStart @ ''-'' @ itoa e @ ''/'' @ itoa total)]))"

text \<open>One \<^verbatim>\<open>Read\<close> of the open download, through the section if there is one.\<close>

definition download_read :: "nat \<Rightarrow> nat \<Rightarrow> 'w ResultStore \<Rightarrow> nat \<Rightarrow> sectionReadCloser option \<Rightarrow> 'w \<Rightarrow>
    ((string \<times> go_error option) \<times> sectionReadCloser option) option \<times> 'w" where
  "download_read n p store h sec d =
     (case sec of
        None \<Rightarrow> (case rs_Read store h p d of (r, d') \<Rightarrow> (Some (r, None), d'))
      | Some src \<Rightarrow>
          (case section_Read (rs_Read store h) n p src d of
             None \<Rightarrow> (None, d)
           | Some (r, src', d') \<Rightarrow> (Some (r, Some src'), d')))"

text \<open>\<^verbatim>\<open>io.Copy\<close> to the response; \<open>None\<close> says that the fuel was not enough.\<close>

fun copy_body :: "('p, 's, 'w) env \<Rightarrow> nat \<Rightarrow> nat \<Rightarrow> 'w ResultStore \<Rightarrow> nat \<Rightarrow> sectionReadCloser option \<Rightarrow> string \<Rightarrow> ('p, 's, 'w, string option) prog" where
  "copy_body E n 0 store h sec got = ret None"
| "copy_body E n (Suc fuel) store h sec got = do {
     r \<leftarrow> data E (download_read n 32768 store h sec);
     case r of
       None \<Rightarrow> ret None
     | Some ((bs, err), sec') \<Rightarrow>
         (case err of
            None \<Rightarrow> copy_body E n fuel store h sec' (got @ bs)
          | Some _ \<Rightarrow> ret (Some (got @ bs)))
   }"

section \<open>Handlers\<close>

record StartQueryPayload =
  sp_DatabaseID :: string
  sp_SQL :: string
  sp_TimeoutMs :: int
  sp_Mode :: string
  sp_ResultTTLSeconds :: int
  sp_ResultFormat :: string
  sp_StorageBackend :: string

datatype decoded = TooLarge | Malformed | Decoded StartQueryPayload

definition payload_options :: "request \<Rightarrow> StartQueryPayload \<Rightarrow> QueryOptions" where
  "payload_options r p =
     \<lparr>opt_Timeout = wrap64 (sp_TimeoutMs p * Millisecond), opt_Mode = sp_Mode p,
      opt_ResultTTL = wrap64 (sp_ResultTTLSeconds p * Second),
      opt_IdempotencyKey = rq_IdempotencyKey r, opt_ResultFormat = sp_ResultFormat p, opt_StorageBackend = sp_StorageBackend p\<rparr>"

definition handleStartQuery :: "'s MetaStore \<Rightarrow> ('p, 's, 'w) env \<Rightarrow> (duration \<Rightarrow> int) \<Rightarrow> QueryService \<Rightarrow> nat \<Rightarrow> int \<Rightarrow> decoded \<Rightarrow> Context \<Rightarrow> request \<Rightarrow>
    ('p, 's, 'w, response option) prog" where
  "handleStartQuery ms E secs s fuel maxBytes dec ctx r =
     (case dec of
        TooLarge \<Rightarrow> ret (Some (writeStatus r 413 (''request body exceeds '' @ itoa maxBytes @ '' bytes'')))
      | Malformed \<Rightarrow> ret (Some (writeValidationError r ''body'' ''malformed JSON''))
      | Decoded p \<Rightarrow>
          if sp_DatabaseID p = [] then ret (Some (writeValidationError r ''database_id'' ''is required''))
          else if sp_SQL p = [] then ret (Some (writeValidationError r ''sql'' ''is required''))
          else do {
            res \<leftarrow> StartQuery ms E s fuel ctx (sp_DatabaseID p) (sp_SQL p) (payload_options r p);
            case res of
              None \<Rightarrow> ret None
            | Some (Inl e) \<Rightarrow> ret (Some (writeError r e))
            | Some (Inr record) \<Rightarrow>
                ret (Some (okJSON (if sp_Mode p = ''sync'' then 200 else 202) (RecordJSON (toRecordDTO secs record))))
          })"

definition handleGetQueryStatus :: "'s MetaStore \<Rightarrow> ('p, 's, 'w) env \<Rightarrow> (duration \<Rightarrow> int) \<Rightarrow> QueryService \<Rightarrow> Context \<Rightarrow> request \<Rightarrow> ('p, 's, 'w, response) prog" where
  "handleGetQueryStatus ms E secs s ctx r =
     (if rq_id r = [] then ret (writeValidationError r ''id'' ''is required'')
      else do {
        res \<leftarrow> GetQueryStatus ms E s ctx (rq_id r);
        case res of Inl e \<Rightarrow> ret (writeError r e) | Inr record \<Rightarrow> ret (okJSON 200 (RecordJSON (toRecordDTO secs record)))
      })"

definition handleStopQuery :: "'s MetaStore \<Rightarrow> ('p, 's, 'w) env \<Rightarrow> QueryService \<Rightarrow> Context \<Rightarrow> request \<Rightarrow> ('p, 's, 'w, response) prog" where
  "handleStopQuery ms E s ctx r =
     (if rq_id r = [] then ret (writeValidationError r ''id'' ''is required'')
      else do {
        res \<leftarrow> svc_StopQuery ms E s ctx (rq_id r);
        case res of Some e \<Rightarrow> ret (writeError r e) | None \<Rightarrow> ret (okJSON 200 (StoppedJSON (rq_id r)))
      })"

definition handleGetQueryStats :: "'s MetaStore \<Rightarrow> ('p, 's, 'w) env \<Rightarrow> QueryService \<Rightarrow> Context \<Rightarrow> request \<Rightarrow> ('p, 's, 'w, response) prog" where
  "handleGetQueryStats ms E s ctx r =
     (if rq_id r = [] then ret (writeValidationError r ''id'' ''is required'')
      else do {
        res \<leftarrow> GetQueryStats ms E s ctx (rq_id r);
        case res of Inl e \<Rightarrow> ret (writeError r e) | Inr stats \<Rightarrow> ret (okJSON 200 (StatsJSON (toStatsDTO stats)))
      })"

definition handleDownloadResult :: "'s MetaStore \<Rightarrow> ('p, 's, 'w) env \<Rightarrow> QueryService \<Rightarrow> nat \<Rightarrow> Context \<Rightarrow> request \<Rightarrow> ('p, 's, 'w, response option) prog" where
  "handleDownloadResult ms E s fuel ctx r =
     (if rq_id r = [] then ret (Some (writeValidationError r ''id'' ''is required''))
      else case download_window r of
        Inl resp \<Rightarrow> ret (Some resp)
      | Inr (offset, limit, rg) \<Rightarrow> do {
          res \<leftarrow> DownloadResult ms E s ctx (rq_id r) offset limit;
          case res of
            Inl e \<Rightarrow> ret (Some (writeError r e))
          | Inr dl \<Rightarrow> do {
              resp \<leftarrow> (case download_head r (dl_ref dl) rg of
                Inl resp \<Rightarrow> ret (Some resp)
              | Inr (status, headers) \<Rightarrow> do {
                  got \<leftarrow> copy_body E fuel fuel (dl_store dl) (dl_handle dl) (dl_section dl) [];
                  case got of
                    None \<Rightarrow> ret None
                  | Some bs \<Rightarrow> ret (Some \<lparr>rp_status = status, rp_headers = headers, rp_body = Bytes bs\<rparr>)
                });
              _ \<leftarrow> data E (rs_CloseReader (dl_store dl) (dl_handle dl));
              ret resp
            }
        })"

definition handleListDatabases :: "'s MetaStore \<Rightarrow> ('p, 's, 'w) env \<Rightarrow> ('p, 's, 'w, response) prog" where
  "handleListDatabases ms E = do { dbs \<leftarrow> ListDatabases ms E; ret (okJSON 200 (DatabasesJSON dbs)) }"

definition handleReloadConfig :: "'p drivers \<Rightarrow> ('p, 's, 'w) env \<Rightarrow> attempt \<Rightarrow> request \<Rightarrow> ('p, 's, 'w, response) prog" where
  "handleReloadConfig drivers E a r = do {
     res \<leftarrow> ReloadConfig drivers E a;
     case res of
       (rep, None) \<Rightarrow> ret (okJSON 200 (ReloadJSON rep))
     | (rep, Some e) \<Rightarrow> ret (writeError r e)
   }"

definition handleCanIBeStopped :: "'s MetaStore \<Rightarrow> ('p, 's, 'w) env \<Rightarrow> QueryService \<Rightarrow> ('p, 's, 'w, response \<times> QueryService) prog" where
  "handleCanIBeStopped ms E s = do {
     res \<leftarrow> CanIBeStopped ms E s;
     case res of ((canStop, inFlight, st), s') \<Rightarrow> ret (okJSON 200 (CanStopJSON canStop inFlight (lstate_string st)), s')
   }"

definition handleHealthz :: response where
  "handleHealthz = \<lparr>rp_status = 200, rp_headers = [], rp_body = Text ''OK''\<rparr>"

text \<open>\<^verbatim>\<open>None\<close> is a server without a service.\<close>

definition handleReadyz :: "QueryService option \<Rightarrow> response" where
  "handleReadyz svc =
     (if (case svc of None \<Rightarrow> True | Some s \<Rightarrow> svc_IsDraining s)
      then \<lparr>rp_status = 503, rp_headers = [], rp_body = Text ''NOT READY''\<rparr>
      else \<lparr>rp_status = 200, rp_headers = [], rp_body = Text ''READY''\<rparr>)"

section \<open>What a range request gets\<close>

definition unread :: "('w \<Rightarrow> string) \<Rightarrow> sectionReadCloser option \<Rightarrow> 'w \<Rightarrow> string" where
  "unread rest sec d = (case sec of None \<Rightarrow> rest d | Some src \<Rightarrow> section_rest rest (src, d))"

lemma download_read_works:
  assumes "works (rs_Read store h) rest" and "length (rest d) < n" and "0 < p"
  shows "\<exists>bs err sec' d'. download_read n p store h sec d = (Some ((bs, err), sec'), d') \<and> unread rest sec d = bs @ unread rest sec' d'
     \<and> err \<in> {None, Some EOF} \<and> (err = Some EOF \<longrightarrow> unread rest sec' d' = []) \<and> (err = None \<longrightarrow> bs \<noteq> []) \<and> length (rest d') \<le> length (rest d)"
proof (cases sec)
  case None
  obtain bs err d' where rd: "rs_Read store h p d = ((bs, err), d')" by (metis surj_pair)
  from worksD [OF assms(1) rd] assms(3) show ?thesis by (auto simp: None download_read_def rd unread_def)
next
  case (Some src)
  from section_Read_works [OF assms(1,2), of p src] assms(3) show ?thesis
    by (auto simp: Some download_read_def unread_def)
qed

lemma copy_body_works:
  assumes "alone E" and "works (rs_Read store h) rest"
  shows "length (rest (wd_data w)) < n \<Longrightarrow> length (unread rest sec (wd_data w)) < fuel \<Longrightarrow>
     wp (copy_body E n fuel store h sec got) (\<lambda>r w'. r = Some (got @ unread rest sec (wd_data w))) w"
proof (induction fuel arbitrary: sec got w)
  case (Suc fuel)
  from download_read_works [OF assms(2) Suc.prems(1), of 32768 sec] obtain bs err sec' d'
    where r: "download_read n 32768 store h sec (wd_data w) = (Some ((bs, err), sec'), d')"
      "unread rest sec (wd_data w) = bs @ unread rest sec' d'" "err \<in> {None, Some EOF}"
      "err = Some EOF \<longrightarrow> unread rest sec' d' = []" "err = None \<longrightarrow> bs \<noteq> []" "length (rest d') \<le> length (rest (wd_data w))" by auto
  show ?case
  proof (cases err)
    case None
    with r(5) have "bs \<noteq> []" by simp
    with r(2) Suc.prems(2) have "length (unread rest sec' d') < fuel" by (cases bs) simp_all
    with Suc.IH [of "(others E w)\<lparr>wd_data := d'\<rparr>" sec' "got @ bs"] Suc.prems(1) r None show ?thesis
      by (simp add: wp_data alone_others [OF assms(1)])
  next
    case (Some e)
    with r show ?thesis by (auto simp: wp_data alone_others [OF assms(1)])
  qed
qed simp

lemma parseByteRange_bounds:
  assumes "parseByteRange h = Some (a, b)"
  shows "0 \<le> a" "in64 a" "b = -1 \<or> a \<le> b \<and> in64 b"
proof -
  have i: "ParseInt64 x = Some v \<Longrightarrow> in64 v" for x v by (auto simp: ParseInt64_def Let_def split: if_splits prod.splits)
  show "0 \<le> a" "in64 a" "b = -1 \<or> a \<le> b \<and> in64 b"
    using assms i by (auto simp: parseByteRange_def split: if_splits option.splits prod.splits)
qed

text \<open>The window of a range is the bytes it names, as far as there are any; the largest limit wraps and means all.\<close>

lemma range_slice:
  assumes "0 \<le> a" "in64 a" "b = -1 \<or> a \<le> b \<and> in64 b" "a < int (length bs)" "int (length bs) \<le> 2 ^ 63 - 1"
  defines "limit \<equiv> (if b \<ge> 0 then wrap64 (wrap64 (b - a) + 1) else 0)"
    and "e \<equiv> (if b < 0 \<or> b \<ge> int (length bs) then int (length bs) - 1 else b)"
  shows "(if limit > 0 then take (nat limit) (drop (nat a) bs) else drop (nat a) bs) = take (nat (e - a + 1)) (drop (nat a) bs)"
    and "\<not> (a > 0 \<or> limit > 0) \<Longrightarrow> take (nat (e - a + 1)) (drop (nat a) bs) = bs"
proof -
  have w: "wrap64 (b - a) = b - a" if "b \<ge> 0"
    using assms(1-3) that by (intro wrap64_id) (auto simp: in64_def)
  have lim: "limit = b - a + 1 \<or> a = 0 \<and> limit \<le> 0 \<and> b \<ge> int (length bs)" if "b \<ge> 0"
  proof (cases "b - a + 1 < 2 ^ 63")
    case True
    then have "wrap64 (b - a + 1) = b - a + 1" using assms(1-3) that by (intro wrap64_id) (auto simp: in64_def)
    with that w show ?thesis by (simp add: limit_def)
  next
    case False
    then have "b - a + 1 = 2 ^ 63" "a = 0" "b = 2 ^ 63 - 1" using assms(1-3) that by (auto simp: in64_def)
    with that w assms(5) show ?thesis by (simp add: limit_def wrap64_def)
  qed
  show "(if limit > 0 then take (nat limit) (drop (nat a) bs) else drop (nat a) bs) = take (nat (e - a + 1)) (drop (nat a) bs)"
    using lim assms(3,4) by (auto simp: e_def limit_def)
  show "\<not> (a > 0 \<or> limit > 0) \<Longrightarrow> take (nat (e - a + 1)) (drop (nat a) bs) = bs"
    using lim assms(1,3,4) by (auto simp: e_def limit_def)
qed

text \<open>The caller may see the query, and its result is in place: the reader \<open>h\<close> opens and works.\<close>

definition downloadable :: "('p, mem, 'w) env \<Rightarrow> QueryService \<Rightarrow> Context \<Rightarrow> string \<Rightarrow> ('p, mem, 'w) world \<Rightarrow> ResultRef \<Rightarrow> 'w ResultStore \<Rightarrow> nat \<Rightarrow> ('w \<Rightarrow> string) \<Rightarrow> 'w \<Rightarrow> bool" where
  "downloadable E s ctx i w ref store h rest d \<longleftrightarrow>
     alone E \<and> mem_inv (wd_meta w) \<and>
     (\<exists>rec. mget (mm_queries (wd_meta w)) i = Some rec \<and> \<not> outsider s ctx rec \<and> qr_State rec = StateSucceeded \<and> qr_Result rec = Some ref) \<and>
     GetStore (en_stores E) (ref_Backend ref) = Inr store \<and> rs_Reader store ref (wd_data w) = (Inr h, d) \<and>
     works (rs_Read store h) rest \<and> ref_SizeBytes ref = int (length (rest d)) \<and> int (length (rest d)) \<le> 2 ^ 63 - 1"

lemma DownloadResult_alone:
  assumes "downloadable E s ctx i w ref store h rest d"
    and "\<And>n. Q (Inr \<lparr>dl_store = store, dl_handle = h,
       dl_section = (if offset > 0 \<or> limit > 0 then Some (newSectionReadCloser offset limit) else None), dl_ref = ref\<rparr>)
       (w\<lparr>wd_tick := n, wd_data := d\<rparr>)"
  shows "wp (DownloadResult mem_store E s ctx i offset limit) Q w"
proof -
  obtain rec where r: "alone E" "mem_inv (wd_meta w)" "mget (mm_queries (wd_meta w)) i = Some rec" "\<not> outsider s ctx rec"
    and q: "qr_State rec = StateSucceeded" "qr_Result rec = Some ref"
    and g: "GetStore (en_stores E) (ref_Backend ref) = Inr store" "rs_Reader store ref (wd_data w) = (Inr h, d)"
    using assms(1) by (auto simp: downloadable_def)
  show ?thesis unfolding DownloadResult_def wp_bind
  proof (rule authorized_insider [OF r])
    fix rec' assume "strip_lease rec' = rec"
    then have "qr_State rec' = StateSucceeded" "qr_Result rec' = Some ref" using q by auto
    then show "wp (case Inr rec' of Inl e \<Rightarrow> ret (Inl e)
       | Inr rec \<Rightarrow> if qr_State rec \<noteq> StateSucceeded
         then ret (Inl (ValidationError ''query_id'' (''query is in state '' @ state_string (qr_State rec) @ '', results are only available for SUCCEEDED'')))
         else (case qr_Result rec of
           None \<Rightarrow> ret (Inl (NotFoundError ''result for query'' i))
         | Some ref \<Rightarrow>
             (case GetStore (en_stores E) (ref_Backend ref) of
                Inl e \<Rightarrow> ret (Inl (Wrapf ''failed to load result storage'' e))
              | Inr store \<Rightarrow> data E (rs_Reader store ref) \<bind> (\<lambda>h. (case h of
                     Inl e \<Rightarrow> ret (Inl (Wrapf ''failed to open result reader'' e))
                   | Inr h \<Rightarrow> ret (Inr \<lparr>dl_store = store, dl_handle = h,
                       dl_section = (if offset > 0 \<or> limit > 0 then Some (newSectionReadCloser offset limit) else None), dl_ref = ref\<rparr>)))))) Q
       (w\<lparr>wd_tick := Suc (wd_tick w)\<rparr>)"
      using g assms(2) by (simp add: wp_data alone_others [OF r(1)])
  qed
qed

text \<open>
  C9. What a range request gets. For a caller who may see the query and a result that is in place,
  a request with a well-formed \<^verbatim>\<open>Range\<close> header is answered with 416 and the total size when the
  range starts past the end; otherwise with 206, a \<^verbatim>\<open>Content-Range\<close> header that names the bytes
  from the start of the range to its end or the last byte, and a body of exactly these bytes -
  also for an end so large that the length of the range does not fit into 64 bits.
\<close>

theorem range_response:
  assumes "downloadable E s ctx (rq_id r) w ref store h rest d" and "rq_id r \<noteq> []" and "rq_Range r \<noteq> []"
    and "parseByteRange (rq_Range r) = Some (a, b)" and "length (rest d) < fuel"
    and "run_state (handleDownloadResult mem_store E s fuel ctx r) w = (resp, w')"
  defines "n \<equiv> int (length (rest d))"
  defines "e \<equiv> (if b < 0 \<or> b \<ge> n then n - 1 else b)"
  shows "resp = Some (if a \<ge> n
     then \<lparr>rp_status = 416, rp_headers = [json_type, (''Content-Range'', ''bytes */'' @ itoa n)],
        rp_body = ErrorJSON ''range not satisfiable'' (rq_RequestID r)\<rparr>
     else \<lparr>rp_status = 206, rp_headers = [(''Content-Type'', content_type (ref_Format ref)),
          (''Content-Range'', ''bytes '' @ itoa a @ ''-'' @ itoa e @ ''/'' @ itoa n)],
        rp_body = Bytes (take (nat (e - a + 1)) (drop (nat a) (rest d)))\<rparr>)" (is "_ = Some ?answer")
proof -
  note p = parseByteRange_bounds [OF assms(4)]
  let ?limit = "if b \<ge> 0 then wrap64 (wrap64 (b - a) + 1) else 0"
  let ?sec = "if a > 0 \<or> ?limit > 0 then Some (newSectionReadCloser a ?limit) else None"
  have D: "alone E" "works (rs_Read store h) rest" "ref_SizeBytes ref = n" "n \<le> 2 ^ 63 - 1"
    using assms(1) by (auto simp: downloadable_def n_def)
  have u: "unread rest ?sec d = take (nat (e - a + 1)) (drop (nat a) (rest d))" if "a < n"
    using range_slice [of a b "rest d"] p that D(4) unfolding n_def [symmetric] e_def [symmetric]
    by (simp add: unread_def section_rest_def newSectionReadCloser_def Let_def split: if_splits)
  have "length (take (nat (e - a + 1)) (drop (nat a) (rest d))) < fuel" using assms(5) by auto
  then have c: "wp (copy_body E fuel fuel store h ?sec [])
      (\<lambda>got w'. got = Some (take (nat (e - a + 1)) (drop (nat a) (rest d)))) w1" if "a < n" "wd_data w1 = d" for w1
    using copy_body_works [OF D(1,2), of w1 fuel ?sec fuel "[]"] u [OF that(1)] that(2) assms(5) by simp
  have wr: "wrap64 (n - 1) = n - 1" using D(4) by (intro wrap64_id) (simp add: in64_def n_def)
  define answer where "answer = ?answer"
  have "wp (handleDownloadResult mem_store E s fuel ctx r) (\<lambda>resp w'. resp = Some answer) w"
    unfolding handleDownloadResult_def if_not_P [OF assms(2)] download_window_def if_P [OF assms(3)] assms(4)
      sum.case option.case prod.case wp_bind
  proof (rule DownloadResult_alone [OF assms(1)], goal_cases)
    case (1 k)
    show ?case
    proof (cases "a \<ge> n")
      case True
      then show ?thesis
        by (simp add: download_head_def Let_def D(3) n_def writeStatus_def answer_def wp_data alone_others [OF D(1)] split: prod.splits)
    next
      case False
      then have hd: "download_head r ref (Some (a, b)) = Inr (rp_status answer, rp_headers answer)"
        by (simp add: download_head_def Let_def D(3) answer_def e_def wr)
      have "wp (copy_body E fuel fuel store h ?sec []) (\<lambda>got w'. wp (case got of None \<Rightarrow> ret None
           | Some bs \<Rightarrow> ret (Some \<lparr>rp_status = rp_status answer, rp_headers = rp_headers answer, rp_body = Bytes bs\<rparr>))
          (\<lambda>resp. wp (data E (rs_CloseReader store h)) (\<lambda>_. wp (ret resp) (\<lambda>resp w'. resp = Some answer))) w')
         (w\<lparr>wd_tick := k, wd_data := d\<rparr>)"
        by (rule wp_mono [OF c])
          (use False in \<open>auto simp: answer_def wp_data alone_others [OF D(1)] split: prod.splits\<close>)
      then show ?thesis by (simp only: sum.case prod.case download.simps hd wp_bind)
    qed
  qed
  then show ?thesis using wp_run [OF assms(6)] by (simp add: answer_def)
qed

text \<open>A finished query of \<^verbatim>\<open>alice\<close> whose result is ten bytes long, in a store that trickles.\<close>

definition served_ref :: ResultRef where
  "served_ref = sample_ref\<lparr>ref_SizeBytes := 10\<rparr>"

definition served_store :: "string ResultStore" where
  "served_store = sample_store\<lparr>rs_Read := (\<lambda>h. trickle)\<rparr>"

definition served_env :: "(nat, mem, string) env" where
  "served_env = sample_env\<lparr>en_stores := [(''fs'', served_store)]\<rparr>"

definition served_record :: QueryRecord where
  "served_record = sample_record\<lparr>qr_State := StateSucceeded, qr_FinishedAt := 200, qr_Result := Some served_ref\<rparr>"

definition served_world :: "(nat, mem, string) world" where
  "served_world = sample_world\<lparr>wd_meta := mem_write served_record NewMemoryMetaStore, wd_data := ''abcdefghij''\<rparr>"

definition open_service :: QueryService where
  "open_service = NewQueryService NewLManager"

definition sample_request :: request where
  "sample_request = \<lparr>rq_id = ''q1'', rq_Path = ''/v1/queries/q1/result'', rq_Range = ''bytes=4-99'', rq_offset = [], rq_limit = [],
     rq_Authorization = [], rq_Protocols = [], rq_IdempotencyKey = [], rq_RequestID = ''r1'', rq_ClientIP = [], rq_RemoteAddr = []\<rparr>"

lemma served_stored: "mget (mm_queries (wd_meta served_world)) ''q1'' = Some served_record"
proof -
  have "strip_lease served_record = served_record" "qr_ID served_record = ''q1''"
    by (simp_all add: served_record_def sample_record_def strip_lease_def)
  then show ?thesis by (simp add: served_world_def mem_write_def NewMemoryMetaStore_def Let_def)
qed

lemma served:
  "downloadable served_env open_service None ''q1'' served_world served_ref served_store 0 (\<lambda>w. w) ''abcdefghij''"
proof -
  show ?thesis using works_trickle served_stored
    by (simp add: downloadable_def served_env_def alone_def sample_env_def served_world_def mem_write_inv mem_inv_new
        outsider_def FromContext_def open_service_def NewQueryService_def served_record_def served_ref_def sample_ref_def GetStore_def
        served_store_def sample_store_def mget_def)
qed

theorem range_response_witness:
  "fst (run_state (handleDownloadResult mem_store served_env open_service 20 None sample_request) served_world)
     = Some \<lparr>rp_status = 206, rp_headers = [(''Content-Type'', ''application/x-jsonlines''), (''Content-Range'', ''bytes 4-9/10'')],
          rp_body = Bytes ''efghij''\<rparr>"
proof -
  obtain resp w' where r: "run_state (handleDownloadResult mem_store served_env open_service 20 None sample_request) served_world = (resp, w')"
    by (metis surj_pair)
  have p: "parseByteRange (rq_Range sample_request) = Some (4, 99)" by code_simp
  have i: "rq_id sample_request = ''q1''" "rq_Range sample_request \<noteq> []" by (simp_all add: sample_request_def)
  have f: "content_type (ref_Format served_ref) = ''application/x-jsonlines''" "itoa 4 = ''4''" "itoa 9 = ''9''" "itoa 10 = ''10''"
    by code_simp+
  show ?thesis using range_response [OF served [folded i(1)] _ i(2) p _ r] r by (simp add: i(1) f)
qed

end
