(* ===== verification/Grpc.thy ===== *)
theory Grpc
  imports Rest
begin

text \<open>
  The gRPC transport, \<^verbatim>\<open>internal/transport/grpcconnect\<close>: the scope of each procedure and the
  authentication interceptor (\<^verbatim>\<open>auth.go\<close>), the handlers, the mapping of records and errors to
  the wire types, and the rate limit interceptor (\<^verbatim>\<open>handler.go\<close>).

  The wire types are generated code; the model has records with their fields. A response or a
  stream message is handed to the Connect library, so sending is a parameter: whether the
  \<open>n\<close>-th message of a stream could be sent. \<^verbatim>\<open>None\<close> as the result of a program says that its fuel
  was not enough.
\<close>

section \<open>Authentication\<close>

datatype connect_code = CodeInvalidArgument | CodeNotFound | CodeUnavailable | CodeResourceExhausted | CodeInternal
  | CodeUnauthenticated | CodePermissionDenied

text \<open>An error a handler returns: one with a code, or the error of a failed send.\<close>

datatype rpc_error = ConnectError connect_code string | SendError go_error

definition procedureScopes :: "(string, Scope) gomap" where
  "procedureScopes =
     [(''StartQuery'', ScopeWrite), (''StopQuery'', ScopeWrite), (''GetQueryStatus'', ScopeRead), (''GetQueryStats'', ScopeRead),
      (''DownloadResult'', ScopeRead), (''ListDatabases'', ScopeRead), (''WatchQuery'', ScopeRead), (''ReloadConfig'', ScopeAdmin),
      (''CanIBeStopped'', ScopeAdmin)]"

definition ScopeForProcedure :: "string \<Rightarrow> Scope" where
  "ScopeForProcedure procedure =
     (let procedure = (case last_index_of (CHR ''/'') procedure of None \<Rightarrow> procedure | Some idx \<Rightarrow> drop (idx + 1) procedure) in
      case mget procedureScopes procedure of Some s \<Rightarrow> s | None \<Rightarrow> ScopeAdmin)"

definition check :: "Authenticator \<Rightarrow> string \<Rightarrow> string \<Rightarrow> rpc_error + Identity" where
  "check a authorization procedure =
     (case Authenticate a (BearerToken authorization) of
        Inl _ \<Rightarrow> Inl (ConnectError CodeUnauthenticated (error_text ErrUnauthenticated))
      | Inr i \<Rightarrow>
          if \<not> Has i (ScopeForProcedure procedure) then Inl (ConnectError CodePermissionDenied (error_text ErrForbidden))
          else Inr i)"

text \<open>
  The interceptor around a handler; \<open>client\<close> says that the call is an outgoing one. A streaming
  handler is always at the server side.
\<close>

definition WrapUnary :: "Authenticator \<Rightarrow> bool \<Rightarrow> string \<Rightarrow> string \<Rightarrow> (Context \<Rightarrow> ('s, rpc_error + 'a) state) \<Rightarrow> Context \<Rightarrow> ('s, rpc_error + 'a) state" where
  "WrapUnary a client authorization procedure handler ctx =
     (if client then handler ctx
      else case check a authorization procedure of
        Inl e \<Rightarrow> ret (Inl e)
      | Inr i \<Rightarrow> handler (WithIdentity ctx i))"

definition WrapStreamingHandler :: "Authenticator \<Rightarrow> string \<Rightarrow> string \<Rightarrow> (Context \<Rightarrow> ('s, rpc_error option) state) \<Rightarrow> Context \<Rightarrow> ('s, rpc_error option) state" where
  "WrapStreamingHandler a authorization procedure handler ctx =
     (case check a authorization procedure of
        Inl e \<Rightarrow> ret (Some e)
      | Inr i \<Rightarrow> handler (WithIdentity ctx i))"

section \<open>Errors\<close>

definition connectError :: "go_error \<Rightarrow> rpc_error" where
  "connectError e =
     (case root e of
        ValidationError _ _ \<Rightarrow> ConnectError CodeInvalidArgument (error_text e)
      | NotFoundError _ _ \<Rightarrow> ConnectError CodeNotFound ''not found''
      | ErrNotFound \<Rightarrow> ConnectError CodeNotFound ''not found''
      | DrainingError \<Rightarrow> ConnectError CodeUnavailable (error_text e)
      | UnavailableError _ \<Rightarrow> ConnectError CodeUnavailable (error_text e)
      | ResourceExhaustedError _ \<Rightarrow> ConnectError CodeResourceExhausted (error_text e)
      | _ \<Rightarrow> ConnectError CodeInternal ''internal error'')"

section \<open>Wire types\<close>

datatype proto_state = QUERY_STATE_UNSPECIFIED | QUERY_STATE_PENDING | QUERY_STATE_RUNNING | QUERY_STATE_SUCCEEDED
  | QUERY_STATE_FAILED | QUERY_STATE_CANCELED | QUERY_STATE_EXPIRED

record proto_record =
  pr_Id :: string
  pr_DatabaseId :: string
  pr_Sql :: string
  pr_Options :: queryOptionsDTO
  pr_State :: proto_state
  pr_OwnerInstanceId :: string
  pr_CreatedAtMs :: int
  pr_StartedAtMs :: int
  pr_FinishedAtMs :: int
  pr_Error :: "queryErrorDTO option"
  pr_Stats :: queryStatsDTO
  pr_Result :: "resultRefDTO option"
  pr_IdempotencyKey :: string
  pr_LeaseDeadlineMs :: int
  pr_Subject :: string

text \<open>\<^verbatim>\<open>UnixMilli\<close> rounds down.\<close>

definition unixMillis :: "time \<Rightarrow> int" where
  "unixMillis t = (if IsZero t then 0 else wrap64 ((t - unix_epoch) div 1000000))"

definition mapToProtoState :: "QueryState \<Rightarrow> proto_state" where
  "mapToProtoState s =
     (case s of
        StatePending \<Rightarrow> QUERY_STATE_PENDING
      | StateRunning \<Rightarrow> QUERY_STATE_RUNNING
      | StateSucceeded \<Rightarrow> QUERY_STATE_SUCCEEDED
      | StateFailed \<Rightarrow> QUERY_STATE_FAILED
      | StateCanceled \<Rightarrow> QUERY_STATE_CANCELED
      | StateExpired \<Rightarrow> QUERY_STATE_EXPIRED
      | OtherState _ \<Rightarrow> QUERY_STATE_UNSPECIFIED)"

definition mapToProtoStats :: "QueryStats \<Rightarrow> queryStatsDTO" where
  "mapToProtoStats s =
     \<lparr>sd_RowsRead = st_RowsRead s, sd_BytesWritten = st_BytesWritten s, sd_DBExecDurationMs = Milliseconds (st_DBExecDuration s),
      sd_StorageWriteDurationMs = Milliseconds (st_StorageWriteDuration s), sd_TotalDurationMs = Milliseconds (st_TotalDuration s)\<rparr>"

definition proto_error :: "QueryError \<Rightarrow> queryErrorDTO" where
  "proto_error e = \<lparr>ed_Code = code_string (qe_Code e), ed_Message = qe_Message e, ed_Retryable = qe_Retryable e\<rparr>"

definition mapToProtoRecord :: "(duration \<Rightarrow> int) \<Rightarrow> QueryRecord \<Rightarrow> proto_record" where
  "mapToProtoRecord secs r =
     \<lparr>pr_Id = qr_ID r, pr_DatabaseId = qr_DatabaseID r, pr_Sql = qr_SQL r,
      pr_Options =
        \<lparr>od_TimeoutMs = Milliseconds (opt_Timeout (qr_Options r)), od_Mode = opt_Mode (qr_Options r),
         od_ResultTTLSeconds = secs (opt_ResultTTL (qr_Options r)), od_IdempotencyKey = opt_IdempotencyKey (qr_Options r),
         od_ResultFormat = opt_ResultFormat (qr_Options r), od_StorageBackend = opt_StorageBackend (qr_Options r)\<rparr>,
      pr_State = mapToProtoState (qr_State r), pr_OwnerInstanceId = qr_OwnerInstanceID r,
      pr_CreatedAtMs = unixMillis (qr_CreatedAt r), pr_StartedAtMs = unixMillis (qr_StartedAt r),
      pr_FinishedAtMs = unixMillis (qr_FinishedAt r), pr_Error = map_option proto_error (qr_Error r),
      pr_Stats = mapToProtoStats (qr_Stats r),
      pr_Result = map_option (\<lambda>ref. \<lparr>rd_Backend = ref_Backend ref, rd_Locator = ref_Locator ref, rd_SizeBytes = ref_SizeBytes ref,
         rd_RowCount = ref_RowCount ref, rd_Format = ref_Format ref, rd_Checksum = ref_Checksum ref\<rparr>) (qr_Result r),
      pr_IdempotencyKey = qr_IdempotencyKey r, pr_LeaseDeadlineMs = unixMillis (qr_LeaseDeadline r), pr_Subject = qr_Subject r\<rparr>"

section \<open>Handlers\<close>

record start_request =
  sq_DatabaseId :: string
  sq_Sql :: string
  sq_Options :: "queryOptionsDTO option"

definition start_options :: "start_request \<Rightarrow> QueryOptions" where
  "start_options msg =
     (case sq_Options msg of
        None \<Rightarrow> \<lparr>opt_Timeout = 0, opt_Mode = [], opt_ResultTTL = 0, opt_IdempotencyKey = [], opt_ResultFormat = [], opt_StorageBackend = []\<rparr>
      | Some o' \<Rightarrow>
          \<lparr>opt_Timeout = wrap64 (od_TimeoutMs o' * Millisecond), opt_Mode = od_Mode o',
           opt_ResultTTL = wrap64 (od_ResultTTLSeconds o' * Second), opt_IdempotencyKey = od_IdempotencyKey o',
           opt_ResultFormat = od_ResultFormat o', opt_StorageBackend = od_StorageBackend o'\<rparr>)"

definition rpc_StartQuery :: "'s MetaStore \<Rightarrow> ('p, 's, 'w) env \<Rightarrow> (duration \<Rightarrow> int) \<Rightarrow> QueryService \<Rightarrow> nat \<Rightarrow> Context \<Rightarrow> start_request \<Rightarrow>
    ('p, 's, 'w, (rpc_error + proto_record) option) prog" where
  "rpc_StartQuery ms E secs s fuel ctx msg = do {
     res \<leftarrow> StartQuery ms E s fuel ctx (sq_DatabaseId msg) (sq_Sql msg) (start_options msg);
     case res of
       None \<Rightarrow> ret None
     | Some (Inl e) \<Rightarrow> ret (Some (Inl (connectError e)))
     | Some (Inr record) \<Rightarrow> ret (Some (Inr (mapToProtoRecord secs record)))
   }"

definition rpc_GetQueryStatus :: "'s MetaStore \<Rightarrow> ('p, 's, 'w) env \<Rightarrow> (duration \<Rightarrow> int) \<Rightarrow> QueryService \<Rightarrow> Context \<Rightarrow> string \<Rightarrow> ('p, 's, 'w, rpc_error + proto_record) prog" where
  "rpc_GetQueryStatus ms E secs s ctx queryID = do {
     res \<leftarrow> GetQueryStatus ms E s ctx queryID;
     case res of Inl e \<Rightarrow> ret (Inl (connectError e)) | Inr record \<Rightarrow> ret (Inr (mapToProtoRecord secs record))
   }"

definition rpc_StopQuery :: "'s MetaStore \<Rightarrow> ('p, 's, 'w) env \<Rightarrow> QueryService \<Rightarrow> Context \<Rightarrow> string \<Rightarrow> ('p, 's, 'w, rpc_error + string \<times> string) prog" where
  "rpc_StopQuery ms E s ctx queryID = do {
     res \<leftarrow> svc_StopQuery ms E s ctx queryID;
     case res of Some e \<Rightarrow> ret (Inl (connectError e)) | None \<Rightarrow> ret (Inr (queryID, ''STOPPED''))
   }"

definition rpc_GetQueryStats :: "'s MetaStore \<Rightarrow> ('p, 's, 'w) env \<Rightarrow> QueryService \<Rightarrow> Context \<Rightarrow> string \<Rightarrow> ('p, 's, 'w, rpc_error + queryStatsDTO) prog" where
  "rpc_GetQueryStats ms E s ctx queryID = do {
     res \<leftarrow> GetQueryStats ms E s ctx queryID;
     case res of Inl e \<Rightarrow> ret (Inl (connectError e)) | Inr stats \<Rightarrow> ret (Inr (mapToProtoStats stats))
   }"

text \<open>The chunks sent so far, and the error the stream ends with.\<close>

fun stream_chunks :: "(nat \<Rightarrow> go_error option) \<Rightarrow> ('p, 's, 'w) env \<Rightarrow> nat \<Rightarrow> nat \<Rightarrow> 'w ResultStore \<Rightarrow> nat \<Rightarrow> sectionReadCloser option \<Rightarrow> string list \<Rightarrow>
    ('p, 's, 'w, (string list \<times> rpc_error option) option) prog" where
  "stream_chunks send E n 0 store h sec sent = ret None"
| "stream_chunks send E n (Suc fuel) store h sec sent = do {
     r \<leftarrow> data E (download_read n (64 * 1024) store h sec);
     case r of
       None \<Rightarrow> ret None
     | Some ((bs, err), sec') \<Rightarrow>
         (case (if bs \<noteq> [] then send (length sent) else None) of
            Some e \<Rightarrow> ret (Some (sent, Some (SendError e)))
          | None \<Rightarrow>
              let sent' = (if bs \<noteq> [] then sent @ [bs] else sent) in
              (case err of
                 None \<Rightarrow> stream_chunks send E n fuel store h sec' sent'
               | Some e \<Rightarrow> if errors_Is e EOF then ret (Some (sent', None)) else ret (Some (sent', Some (connectError e)))))
   }"

definition rpc_DownloadResult :: "(nat \<Rightarrow> go_error option) \<Rightarrow> 's MetaStore \<Rightarrow> ('p, 's, 'w) env \<Rightarrow> QueryService \<Rightarrow> nat \<Rightarrow> Context \<Rightarrow> string \<Rightarrow> int \<Rightarrow> int \<Rightarrow>
    ('p, 's, 'w, (string list \<times> rpc_error option) option) prog" where
  "rpc_DownloadResult send ms E s fuel ctx queryID offset limit = do {
     res \<leftarrow> DownloadResult ms E s ctx queryID offset limit;
     case res of
       Inl e \<Rightarrow> ret (Some ([], Some (connectError e)))
     | Inr dl \<Rightarrow> do {
         out \<leftarrow> stream_chunks send E fuel fuel (dl_store dl) (dl_handle dl) (dl_section dl) [];
         _ \<leftarrow> data E (rs_CloseReader (dl_store dl) (dl_handle dl));
         ret out
       }
   }"

definition rpc_ListDatabases :: "'s MetaStore \<Rightarrow> ('p, 's, 'w) env \<Rightarrow> ('p, 's, 'w, DatabaseInfo list) prog" where
  "rpc_ListDatabases ms E = ListDatabases ms E"

definition rpc_ReloadConfig :: "'p drivers \<Rightarrow> ('p, 's, 'w) env \<Rightarrow> attempt \<Rightarrow> ('p, 's, 'w, bool \<times> string) prog" where
  "rpc_ReloadConfig drivers E a = do {
     res \<leftarrow> ReloadConfig drivers E a;
     case res of
       (rep, Some e) \<Rightarrow> ret (False, ''config reload failed'')
     | (rep, None) \<Rightarrow> ret (True, ''Config reloaded successfully (added='' @ itoa (int (length (rr_Added rep))) @ '' removed='' @
         itoa (int (length (rr_Removed rep))) @ '' updated='' @ itoa (int (length (rr_Updated rep))) @ '')'')
   }"

text \<open>\<^verbatim>\<open>int32(inFlight)\<close>.\<close>

definition to_int32 :: "int \<Rightarrow> int" where
  "to_int32 n = (n + 2 ^ 31) mod 2 ^ 32 - 2 ^ 31"

definition rpc_CanIBeStopped :: "'s MetaStore \<Rightarrow> ('p, 's, 'w) env \<Rightarrow> QueryService \<Rightarrow> ('p, 's, 'w, (bool \<times> int \<times> string) \<times> QueryService) prog" where
  "rpc_CanIBeStopped ms E s = do {
     res \<leftarrow> CanIBeStopped ms E s;
     case res of ((canStop, inFlight, st), s') \<Rightarrow> ret ((canStop, to_int32 (int inFlight), lstate_string st), s')
   }"

record watch_response =
  wr_QueryId :: string
  wr_State :: proto_state
  wr_Stats :: queryStatsDTO
  wr_Error :: "queryErrorDTO option"

text \<open>
  The rounds of the loop in \<^verbatim>\<open>WatchQuery\<close>: what each \<^verbatim>\<open>select\<close> found. \<open>None\<close> as the outcome says that
  the loop is still waiting after these rounds.
\<close>

datatype watch_round = WatchDone | WatchClosed | WatchEvent QueryEvent

fun watch_rounds :: "(nat \<Rightarrow> go_error option) \<Rightarrow> watch_round list \<Rightarrow> watch_response list \<Rightarrow> watch_response list \<times> rpc_error option option" where
  "watch_rounds send [] sent = (sent, None)"
| "watch_rounds send (WatchDone # rs) sent = (sent, Some None)"
| "watch_rounds send (WatchClosed # rs) sent = (sent, Some None)"
| "watch_rounds send (WatchEvent ev # rs) sent =
     (case send (length sent) of
        Some e \<Rightarrow> (sent, Some (Some (SendError e)))
      | None \<Rightarrow> watch_rounds send rs
          (sent @ [\<lparr>wr_QueryId = ev_QueryID ev, wr_State = mapToProtoState (ev_State ev), wr_Stats = mapToProtoStats (ev_Stats ev),
             wr_Error = map_option proto_error (ev_Error ev)\<rparr>]))"

definition rpc_WatchQuery :: "(nat \<Rightarrow> go_error option) \<Rightarrow> 's MetaStore \<Rightarrow> ('p, 's, 'w) env \<Rightarrow> QueryService \<Rightarrow> Context \<Rightarrow> string \<Rightarrow> watch_round list \<Rightarrow>
    ('p, 's, 'w, watch_response list \<times> rpc_error option option) prog" where
  "rpc_WatchQuery send ms E s ctx queryID rounds = do {
     res \<leftarrow> WatchQuery ms E s ctx queryID;
     case res of
       Inl e \<Rightarrow> ret ([], Some (Some (connectError e)))
     | Inr _ \<Rightarrow> ret (watch_rounds send rounds [])
   }"

text \<open>On a working reader and a stream that takes everything, the chunks are the bytes not yet read.\<close>

lemma stream_chunks_works:
  assumes "alone E" and "works (rs_Read store h) rest"
  shows "length (rest (wd_data w)) < n \<Longrightarrow> length (unread rest sec (wd_data w)) < fuel \<Longrightarrow>
     wp (stream_chunks (\<lambda>k. None) E n fuel store h sec sent)
       (\<lambda>r w'. \<exists>cs. r = Some (sent @ cs, None) \<and> concat cs = unread rest sec (wd_data w) \<and> [] \<notin> set cs) w"
proof (induction fuel arbitrary: sec sent w)
  case (Suc fuel)
  from download_read_works [OF assms(2) Suc.prems(1), of "64 * 1024" sec] obtain bs err sec' d'
    where r: "download_read n (64 * 1024) store h sec (wd_data w) = (Some ((bs, err), sec'), d')"
      "unread rest sec (wd_data w) = bs @ unread rest sec' d'" "err \<in> {None, Some EOF}"
      "err = Some EOF \<longrightarrow> unread rest sec' d' = []" "err = None \<longrightarrow> bs \<noteq> []" "length (rest d') \<le> length (rest (wd_data w))" by auto
  let ?w' = "w\<lparr>wd_tick := Suc (wd_tick w), wd_data := d'\<rparr>"
  show ?case
  proof (cases err)
    case None
    with r(5) have b: "bs \<noteq> []" by simp
    with r(2) Suc.prems(2) have "length (unread rest sec' d') < fuel" by (cases bs) simp_all
    then have "wp (stream_chunks (\<lambda>k. None) E n fuel store h sec' (sent @ [bs]))
       (\<lambda>r w'. \<exists>cs. r = Some ((sent @ [bs]) @ cs, None) \<and> concat cs = unread rest sec' d' \<and> [] \<notin> set cs) ?w'"
      using Suc.IH [of ?w' sec' "sent @ [bs]"] r(6) Suc.prems(1) by simp
    then have "wp (stream_chunks (\<lambda>k. None) E n fuel store h sec' (sent @ [bs]))
       (\<lambda>r w'. \<exists>cs. r = Some (sent @ cs, None) \<and> concat cs = unread rest sec (wd_data w) \<and> [] \<notin> set cs) ?w'"
      by (rule wp_mono) (use r(2) b in auto)
    then show ?thesis using r(1) None b by (simp add: wp_data alone_others [OF assms(1)])
  next
    case (Some e)
    with r show ?thesis
      by (auto simp: wp_data alone_others [OF assms(1)] errors_Is_def intro!: exI [of _ "if bs = [] then [] else [bs]"])
  qed
qed simp

section \<open>Rate limit\<close>

definition rpc_allow :: "'l rate_lib \<Rightarrow> time \<Rightarrow> string \<Rightarrow> 'l Limiter option \<Rightarrow> rpc_error option \<times> 'l Limiter option" where
  "rpc_allow lib now peer l =
     (case Allow lib now (''addr:'' @ peer) l of
        (ok, l') \<Rightarrow> (if ok then None else Some (ConnectError CodeResourceExhausted ''rate limit exceeded''), l'))"

text \<open>
  The address of a peer has a port. Two calls of one host over two connections at the same moment,
  with a limit of one an hour: over REST the second is refused, over gRPC it is not.
\<close>

lemma limit_per_connection:
  "let l = NewLimiter (1 / 3600) 1; t = Hour;
       second = sample_request\<lparr>rq_RemoteAddr := ''10.0.0.1:5001''\<rparr> in
   fst (rateLimit hourly_lib t second (snd (rateLimit hourly_lib t (sample_request\<lparr>rq_RemoteAddr := ''10.0.0.1:5000''\<rparr>) l)))
     = Some (writeStatus second 429 ''rate limit exceeded'')
   \<and> fst (rpc_allow hourly_lib t ''10.0.0.1:5001'' (snd (rpc_allow hourly_lib t ''10.0.0.1:5000'' l))) = None"
  by code_simp

end
