(* ===== verification/Ws.thy ===== *)
theory Ws
  imports Watchers
begin

text \<open>
  The WebSocket transport, \<^verbatim>\<open>internal/transport/ws/server.go\<close>: the subscriptions of one connection.

  Three kinds of goroutines work on a connection: the reader, which handles one client message after
  the other, and for each subscription a pump, which forwards the events of its query until its
  context is canceled, its channel is closed or a write fails. Each critical section under
  \<^verbatim>\<open>c.mu\<close> is one function here; \<open>ws_step\<close> lets the reader and the pumps interleave in any way. A
  cancel function is identified with the number of its context. The socket, the JSON codec and the
  answer of \<^verbatim>\<open>WatchQuery\<close> (see \<^verbatim>\<open>Service\<close>) are nondeterministic in the steps.
\<close>

section \<open>Data\<close>

definition maxSubscriptionsPerConn :: nat where "maxSubscriptionsPerConn = 32"

record ClientMessage =
  cl_Action :: string
  cl_QueryID :: string

datatype ws_error = Reason string | Failure QueryError

record ServerMessage =
  sm_QueryID :: string
  sm_State :: string
  sm_Stats :: "QueryStats option"
  sm_Error :: "ws_error option"

text \<open>
  The connection, with the contexts created and canceled so far, the pumps that run, and the
  subscription the reader has entered but not yet opened.
\<close>

record conn =
  wc_subs :: "(string, nat) gomap"
  wc_next :: nat
  wc_canceled :: "nat list"
  wc_pumps :: "(nat \<times> string) list"
  wc_opening :: "(nat \<times> string) option"
  wc_sent :: "ServerMessage list"
  wc_left :: bool

definition new_conn :: conn where
  "new_conn = \<lparr>wc_subs = [], wc_next = 0, wc_canceled = [], wc_pumps = [], wc_opening = None, wc_sent = [], wc_left = False\<rparr>"

section \<open>Operations\<close>

text \<open>A write that fails sends nothing: \<open>ok\<close> says whether the socket took the message.\<close>

definition conn_write :: "bool \<Rightarrow> ServerMessage \<Rightarrow> conn \<Rightarrow> bool \<times> conn" where
  "conn_write ok msg c = (ok, if ok then c\<lparr>wc_sent := wc_sent c @ [msg]\<rparr> else c)"

definition conn_writeError :: "bool \<Rightarrow> string \<Rightarrow> string \<Rightarrow> conn \<Rightarrow> conn" where
  "conn_writeError ok queryID reason c =
     snd (conn_write ok \<lparr>sm_QueryID = queryID, sm_State = [], sm_Stats = None, sm_Error = Some (Reason reason)\<rparr> c)"

definition conn_unsubscribe :: "string \<Rightarrow> conn \<Rightarrow> conn" where
  "conn_unsubscribe queryID c =
     (let c' = c\<lparr>wc_subs := mdel queryID (wc_subs c)\<rparr> in
      case mget (wc_subs c) queryID of
        Some cancel \<Rightarrow> c'\<lparr>wc_canceled := cancel # wc_canceled c'\<rparr>
      | None \<Rightarrow> c')"

text \<open>\<^verbatim>\<open>subscribe\<close> up to the call of \<^verbatim>\<open>WatchQuery\<close>, and what follows its two outcomes.\<close>

definition subscribe_enter :: "bool \<Rightarrow> string \<Rightarrow> conn \<Rightarrow> conn" where
  "subscribe_enter ok queryID c =
     (if mget (wc_subs c) queryID \<noteq> None then c
      else if length (wc_subs c) \<ge> maxSubscriptionsPerConn then conn_writeError ok queryID ''subscription limit reached'' c
      else c\<lparr>wc_subs := mput queryID (wc_next c) (wc_subs c), wc_next := Suc (wc_next c), wc_opening := Some (wc_next c, queryID)\<rparr>)"

definition subscribe_opened :: "nat \<Rightarrow> string \<Rightarrow> conn \<Rightarrow> conn" where
  "subscribe_opened i queryID c = c\<lparr>wc_opening := None, wc_pumps := (i, queryID) # wc_pumps c\<rparr>"

definition subscribe_refused :: "bool \<Rightarrow> string \<Rightarrow> conn \<Rightarrow> conn" where
  "subscribe_refused ok queryID c = conn_writeError ok queryID ''query not found'' (conn_unsubscribe queryID (c\<lparr>wc_opening := None\<rparr>))"

definition pump_message :: "QueryEvent \<Rightarrow> ServerMessage" where
  "pump_message ev =
     \<lparr>sm_QueryID = ev_QueryID ev, sm_State = state_string (ev_State ev), sm_Stats = Some (ev_Stats ev),
      sm_Error = map_option Failure (ev_Error ev)\<rparr>"

text \<open>The end of a pump, with the deferred \<^verbatim>\<open>unsubscribe\<close>.\<close>

definition pump_return :: "nat \<Rightarrow> string \<Rightarrow> conn \<Rightarrow> conn" where
  "pump_return i queryID c = conn_unsubscribe queryID (c\<lparr>wc_pumps := removeAll (i, queryID) (wc_pumps c)\<rparr>)"

definition conn_closeAll :: "conn \<Rightarrow> conn" where
  "conn_closeAll c = c\<lparr>wc_subs := [], wc_canceled := map snd (wc_subs c) @ wc_canceled c, wc_left := True\<rparr>"

text \<open>One message of the client; \<open>None\<close> is one that is not text or not a message.\<close>

definition dispatch :: "bool \<Rightarrow> ClientMessage option \<Rightarrow> conn \<Rightarrow> conn" where
  "dispatch ok m c =
     (case m of
        None \<Rightarrow> c
      | Some msg \<Rightarrow>
          if cl_Action msg = ''watch'' then (if cl_QueryID msg \<noteq> [] then subscribe_enter ok (cl_QueryID msg) c else c)
          else if cl_Action msg = ''unwatch'' then conn_unsubscribe (cl_QueryID msg) c
          else c)"

section \<open>Steps\<close>

inductive ws_step :: "conn \<Rightarrow> conn \<Rightarrow> bool" where
  message: "wc_opening c = None \<Longrightarrow> \<not> wc_left c \<Longrightarrow> ws_step c (dispatch ok m c)"
| opened: "wc_opening c = Some (i, q) \<Longrightarrow> ws_step c (subscribe_opened i q c)"
| refused: "wc_opening c = Some (i, q) \<Longrightarrow> ws_step c (subscribe_refused ok q c)"
| event: "(i, q) \<in> set (wc_pumps c) \<Longrightarrow> ws_step c (snd (conn_write True (pump_message ev) c))"
| canceled: "(i, q) \<in> set (wc_pumps c) \<Longrightarrow> i \<in> set (wc_canceled c) \<Longrightarrow> ws_step c (pump_return i q c)"
| ended: "(i, q) \<in> set (wc_pumps c) \<Longrightarrow> ws_step c (pump_return i q c)"
| leave: "wc_opening c = None \<Longrightarrow> \<not> wc_left c \<Longrightarrow> ws_step c (conn_closeAll c)"

inductive ws_reachable :: "conn \<Rightarrow> bool" where
  start: "ws_reachable new_conn"
| step: "ws_reachable c \<Longrightarrow> ws_step c c' \<Longrightarrow> ws_reachable c'"

section \<open>Invariant\<close>

text \<open>
  The map is well-formed, within its bound and names contexts that exist; a pump, and a subscription
  being opened, is canceled or the one the map has for its query; nothing is left in the map, nor
  being opened, once the reader has gone.
\<close>

definition ws_inv :: "conn \<Rightarrow> bool" where
  "ws_inv c \<longleftrightarrow>
     mwf (wc_subs c) \<and> length (wc_subs c) \<le> maxSubscriptionsPerConn \<and>
     (\<forall>q i. mget (wc_subs c) q = Some i \<longrightarrow> i < wc_next c) \<and>
     (\<forall>(i, q) \<in> set (wc_pumps c). i \<in> set (wc_canceled c) \<or> mget (wc_subs c) q = Some i) \<and>
     (\<forall>i q. wc_opening c = Some (i, q) \<longrightarrow> i \<in> set (wc_canceled c) \<or> mget (wc_subs c) q = Some i) \<and>
     distinct (map fst (wc_pumps c)) \<and>
     (\<forall>(i, q) \<in> set (wc_pumps c). i < wc_next c) \<and>
     (\<forall>i q. wc_opening c = Some (i, q) \<longrightarrow> i < wc_next c \<and> i \<notin> fst ` set (wc_pumps c)) \<and>
     (wc_left c \<longrightarrow> wc_subs c = [] \<and> wc_opening c = None)"

lemma ws_inv_new: "ws_inv new_conn"
  by (simp add: ws_inv_def new_conn_def mwf_def mkeys_def maxSubscriptionsPerConn_def)

lemma ws_inv_write [simp]:
  "ws_inv (snd (conn_write ok msg c)) = ws_inv c" "ws_inv (conn_writeError ok q reason c) = ws_inv c"
  by (simp_all add: conn_writeError_def conn_write_def ws_inv_def)

lemma ws_inv_unsubscribe: "ws_inv c \<Longrightarrow> ws_inv (conn_unsubscribe q c)"
  unfolding ws_inv_def conn_unsubscribe_def Let_def
  by (auto simp: length_mdel mdel_id split: option.splits)

lemma ws_inv_reserve:
  assumes "ws_inv c" and "wc_opening c = None" and "\<not> wc_left c" and "mget (wc_subs c) q = None"
    and "length (wc_subs c) < maxSubscriptionsPerConn"
  shows "ws_inv (c\<lparr>wc_subs := mput q (wc_next c) (wc_subs c), wc_next := Suc (wc_next c), wc_opening := Some (wc_next c, q)\<rparr>)"
proof -
  note inv = assms(1) [unfolded ws_inv_def]
  have p: "i \<in> set (wc_canceled c) \<or> mget (mput q (wc_next c) (wc_subs c)) q' = Some i" "i < wc_next c"
    if "(i, q') \<in> set (wc_pumps c)" for i q'
  proof -
    from inv that have "i \<in> set (wc_canceled c) \<or> mget (wc_subs c) q' = Some i" by blast
    with assms(4) show "i \<in> set (wc_canceled c) \<or> mget (mput q (wc_next c) (wc_subs c)) q' = Some i" by auto
    from inv that show "i < wc_next c" by blast
  qed
  then have n: "wc_next c \<notin> fst ` set (wc_pumps c)" by fastforce
  have m: "i < Suc (wc_next c)" if "mget (mput q (wc_next c) (wc_subs c)) q' = Some i" for i q'
    using inv that by (auto simp: less_Suc_eq split: if_splits)
  have l: "length (mput q (wc_next c) (wc_subs c)) \<le> maxSubscriptionsPerConn" using assms(5) by (simp add: length_mput)
  have "\<forall>(i, q') \<in> set (wc_pumps c). i \<in> set (wc_canceled c) \<or> mget (mput q (wc_next c) (wc_subs c)) q' = Some i"
    "\<forall>(i, q') \<in> set (wc_pumps c). i < Suc (wc_next c)" using p less_SucI by blast+
  moreover have "mget (mput q (wc_next c) (wc_subs c)) q = Some (wc_next c)" by simp
  ultimately show ?thesis using inv n m l assms(3) unfolding ws_inv_def by (simp del: mget_mput)
qed

lemma ws_inv_enter: "ws_inv c \<Longrightarrow> wc_opening c = None \<Longrightarrow> \<not> wc_left c \<Longrightarrow> ws_inv (subscribe_enter ok q c)"
  by (simp add: subscribe_enter_def ws_inv_reserve)

lemma ws_inv_opened: "ws_inv c \<Longrightarrow> wc_opening c = Some (i, q) \<Longrightarrow> ws_inv (subscribe_opened i q c)"
  by (auto simp: ws_inv_def subscribe_opened_def)

lemma ws_inv_return: "ws_inv c \<Longrightarrow> ws_inv (pump_return i q c)"
  unfolding pump_return_def
  by (rule ws_inv_unsubscribe) (auto simp: ws_inv_def distinct_map inj_on_def intro: distinct_removeAll)

lemma ws_inv_closeAll: "ws_inv c \<Longrightarrow> wc_opening c = None \<Longrightarrow> ws_inv (conn_closeAll c)"
proof -
  assume inv: "ws_inv c" and o: "wc_opening c = None"
  have p: "i \<in> snd ` set (wc_subs c) \<union> set (wc_canceled c)" if "(i, q) \<in> set (wc_pumps c)" for i q
  proof -
    from inv that have "i \<in> set (wc_canceled c) \<or> mget (wc_subs c) q = Some i" unfolding ws_inv_def by blast
    then show ?thesis using mget_mem [of "wc_subs c" q i] by force
  qed
  then have "\<forall>(i, q) \<in> set (wc_pumps c). i \<in> snd ` set (wc_subs c) \<or> i \<in> set (wc_canceled c)" by blast
  with inv o show ?thesis by (simp add: ws_inv_def conn_closeAll_def mwf_def mkeys_def mget_def)
qed

lemma ws_inv_step: "ws_step c c' \<Longrightarrow> ws_inv c \<Longrightarrow> ws_inv c'"
proof (induction rule: ws_step.induct)
  case (message c ok m)
  then show ?case by (auto simp: dispatch_def ws_inv_enter ws_inv_unsubscribe split: option.split)
next
  case (refused c i q ok)
  then have "ws_inv (c\<lparr>wc_opening := None\<rparr>)" by (simp add: ws_inv_def)
  then show ?case by (simp add: subscribe_refused_def ws_inv_unsubscribe)
qed (simp_all add: ws_inv_opened ws_inv_return ws_inv_closeAll)

lemma ws_inv_reachable: "ws_reachable c \<Longrightarrow> ws_inv c"
  by (induction rule: ws_reachable.induct) (auto intro: ws_inv_new ws_inv_step)

section \<open>What a connection can hold\<close>

definition live_pumps :: "conn \<Rightarrow> (nat \<times> string) list" where
  "live_pumps c = filter (\<lambda>(i, q). i \<notin> set (wc_canceled c)) (wc_pumps c)"

lemma live_in_subs: "ws_inv c \<Longrightarrow> (i, q) \<in> set (live_pumps c) \<Longrightarrow> mget (wc_subs c) q = Some i"
  by (auto simp: ws_inv_def live_pumps_def)

lemma live_distinct:
  assumes "ws_inv c" shows "distinct (map snd (live_pumps c))"
proof -
  have "distinct (live_pumps c)" using assms by (auto simp: ws_inv_def live_pumps_def distinct_map)
  moreover have "inj_on snd (set (live_pumps c))"
  proof (rule inj_onI)
    fix x y assume "x \<in> set (live_pumps c)" "y \<in> set (live_pumps c)" "snd x = snd y"
    moreover obtain i q j q' where "x = (i, q)" "y = (j, q')" by (metis surj_pair)
    ultimately show "x = y" using live_in_subs [OF assms, of i q] live_in_subs [OF assms, of j q'] by simp
  qed
  ultimately show ?thesis by (simp add: distinct_map)
qed

text \<open>
  C20. A connection is bounded. In every interleaving of a client's messages with the pumps, a
  connection has at most 32 subscriptions, at most 32 pumps whose context is not canceled and at most
  one of them for a query; and once the reader has left, no pump is without a canceled context, so
  that waiting for them ends.
\<close>

theorem connection_bounded:
  assumes "ws_reachable c"
  shows "length (wc_subs c) \<le> maxSubscriptionsPerConn \<and> length (live_pumps c) \<le> maxSubscriptionsPerConn
     \<and> distinct (map snd (live_pumps c)) \<and> (wc_left c \<longrightarrow> live_pumps c = [])"
proof -
  note inv = ws_inv_reachable [OF assms]
  have sub: "snd ` set (live_pumps c) \<subseteq> set (mkeys (wc_subs c))"
    using live_in_subs [OF inv] by (force simp: mkeys_def dest: mget_mem)
  have b: "length (wc_subs c) \<le> maxSubscriptionsPerConn" using inv by (simp add: ws_inv_def)
  have "length (live_pumps c) = card (snd ` set (live_pumps c))"
    using distinct_card [OF live_distinct [OF inv]] by simp
  also have "\<dots> \<le> card (set (mkeys (wc_subs c)))" by (rule card_mono [OF _ sub]) simp
  also have "\<dots> \<le> length (wc_subs c)" by (metis card_length length_map mkeys_def)
  finally have "length (live_pumps c) \<le> length (wc_subs c)" .
  moreover have "live_pumps c = []" if "wc_left c"
    using inv that sub by (auto simp: ws_inv_def mkeys_def)
  ultimately show ?thesis using b live_distinct [OF inv] by linarith
qed

section \<open>A subscription that is lost\<close>

text \<open>
  A client that stops watching a query and then watches it again can lose the second subscription
  without a word: the pump of the first one, when it sees its canceled context, unsubscribes the query by its name, which by
  then names the second subscription. The second pump is left with a canceled context.
\<close>

definition say :: "string \<Rightarrow> string \<Rightarrow> conn \<Rightarrow> conn" where
  "say action q = dispatch True (Some \<lparr>cl_Action = action, cl_QueryID = q\<rparr>)"

definition rewatched :: conn where
  "rewatched = subscribe_opened 1 ''q'' (say ''watch'' ''q'' (say ''unwatch'' ''q'' (subscribe_opened 0 ''q'' (say ''watch'' ''q'' new_conn))))"

lemma rewatch_lost:
  "ws_reachable rewatched \<and> live_pumps rewatched = [(1, ''q'')] \<and> (0, ''q'') \<in> set (wc_pumps rewatched) \<and> 0 \<in> set (wc_canceled rewatched)
   \<and> ws_step rewatched (pump_return 0 ''q'' rewatched)
   \<and> live_pumps (pump_return 0 ''q'' rewatched) = [] \<and> wc_sent (pump_return 0 ''q'' rewatched) = []"
proof -
  let ?c1 = "say ''watch'' ''q'' new_conn"
  let ?c2 = "subscribe_opened 0 ''q'' ?c1"
  let ?c3 = "say ''unwatch'' ''q'' ?c2"
  let ?c4 = "say ''watch'' ''q'' ?c3"
  have o: "wc_opening new_conn = None" "\<not> wc_left new_conn" "wc_opening ?c1 = Some (0, ''q'')" "wc_opening ?c2 = None" "\<not> wc_left ?c2"
    "wc_opening ?c3 = None" "\<not> wc_left ?c3" "wc_opening ?c4 = Some (1, ''q'')" by code_simp+
  have s: "ws_step new_conn ?c1" "ws_step ?c1 ?c2" "ws_step ?c2 ?c3" "ws_step ?c3 ?c4" "ws_step ?c4 rewatched"
    unfolding say_def rewatched_def by (rule ws_step.intros; use o in \<open>simp add: say_def\<close>)+
  have r: "ws_reachable rewatched" by (rule ws_reachable.intros s)+
  have c: "(0, ''q'') \<in> set (wc_pumps rewatched)" "0 \<in> set (wc_canceled rewatched)" "live_pumps rewatched = [(1, ''q'')]"
    "live_pumps (pump_return 0 ''q'' rewatched) = []" "wc_sent (pump_return 0 ''q'' rewatched) = []" by code_simp+
  show ?thesis using r c ws_step.canceled [OF c(1,2)] by blast
qed

theorem connection_bounded_witness:
  "ws_reachable rewatched \<and> wc_subs rewatched \<noteq> [] \<and> length (live_pumps rewatched) \<le> 32"
proof -
  have "wc_subs rewatched \<noteq> []" by code_simp
  with connection_bounded [of rewatched] rewatch_lost show ?thesis by (simp add: maxSubscriptionsPerConn_def)
qed

end
