(* ===== verification/Filepath.thy ===== *)
theory Filepath
  imports Prelude
begin

text \<open>
  The functions of \<^verbatim>\<open>path/filepath\<close> that the storage backends use, on a Unix system: \<^verbatim>\<open>IsAbs\<close>, \<^verbatim>\<open>Clean\<close>,
  \<^verbatim>\<open>Join\<close>, \<^verbatim>\<open>Rel\<close> and \<^verbatim>\<open>IsLocal\<close>. A path is taken apart into its elements, what stands between slashes.
\<close>

abbreviation slash :: char where "slash \<equiv> CHR 0x2F"

definition dot :: string where "dot = ''.''"
definition dotdot :: string where "dotdot = ''..''"

definition IsAbs :: "string \<Rightarrow> bool" where
  "IsAbs p \<longleftrightarrow> (case p of [] \<Rightarrow> False | c # _ \<Rightarrow> c = slash)"

text \<open>The elements that are left after lexical processing, the last one first.\<close>

definition push_elem :: "bool \<Rightarrow> string list \<Rightarrow> string \<Rightarrow> string list" where
  "push_elem rooted st e =
     (if e = [] \<or> e = dot then st
      else if e = dotdot then
        (case st of
           [] \<Rightarrow> if rooted then [] else [dotdot]
         | t # ts \<Rightarrow> if t = dotdot then dotdot # st else ts)
      else e # st)"

definition clean_elems :: "string \<Rightarrow> string list" where
  "clean_elems p = rev (foldl (push_elem (IsAbs p)) [] (split_char slash p))"

definition Clean :: "string \<Rightarrow> string" where
  "Clean p =
     (if p = [] then dot
      else let es = clean_elems p in
        if IsAbs p then slash # strings_Join es [slash]
        else if es = [] then dot else strings_Join es [slash])"

definition Join2 :: "string \<Rightarrow> string \<Rightarrow> string" where
  "Join2 a b = (if a \<noteq> [] then Clean (a @ slash # b) else if b \<noteq> [] then Clean b else [])"

fun strip_common :: "string list \<Rightarrow> string list \<Rightarrow> string list \<times> string list" where
  "strip_common (b # bs) (t # ts) = (if b = t then strip_common bs ts else (b # bs, t # ts))"
| "strip_common bs ts = (bs, ts)"

definition path_comps :: "string \<Rightarrow> string list" where
  "path_comps p = (if p = [] then [] else if p = [slash] then [[]] else split_char slash p)"

text \<open>\<open>None\<close> says that there is no relative path.\<close>

definition Rel :: "string \<Rightarrow> string \<Rightarrow> string option" where
  "Rel basepath targpath =
     (let base = Clean basepath; targ = Clean targpath in
      if targ = base then Some dot
      else let base = (if base = dot then [] else base) in
        if IsAbs base \<noteq> IsAbs targ then None
        else case strip_common (path_comps base) (path_comps targ) of
          (bs, ts) \<Rightarrow>
            if bs \<noteq> [] \<and> ts \<noteq> [] \<and> hd bs = dotdot then None
            else Some (strings_Join (replicate (length bs) dotdot @ ts) [slash]))"

definition IsLocal :: "string \<Rightarrow> bool" where
  "IsLocal path =
     (if IsAbs path \<or> path = [] then False
      else let path = (if dot \<in> set (split_char slash path) \<or> dotdot \<in> set (split_char slash path) then Clean path else path) in
        \<not> (path = dotdot \<or> strings_HasPrefix path (dotdot @ [slash])))"

section \<open>What stays inside\<close>

text \<open>A name that, followed from a directory, does not lead out of it.\<close>

definition inside :: "string \<Rightarrow> bool" where
  "inside p \<longleftrightarrow> p \<noteq> [] \<and> \<not> IsAbs p \<and> dotdot \<notin> set (clean_elems p)"

lemma push_no_dotdot: "dotdot \<notin> set st \<Longrightarrow> e \<noteq> dotdot \<Longrightarrow> dotdot \<notin> set (push_elem r st e)"
  unfolding push_elem_def by (cases "e = [] \<or> e = dot") auto

lemma fold_no_dotdot: "dotdot \<notin> set es \<Longrightarrow> dotdot \<notin> set st \<Longrightarrow> dotdot \<notin> set (foldl (push_elem r) st es)"
proof (induction es arbitrary: st)
  case (Cons e es)
  then have "e \<noteq> dotdot" "dotdot \<notin> set es" by auto
  with Cons.IH [OF _ push_no_dotdot [OF Cons.prems(2)]] show ?case by simp
qed simp

text \<open>Elements that lead up are at the front.\<close>

definition ups_first :: "string list \<Rightarrow> bool" where
  "ups_first st \<longleftrightarrow> (\<exists>k xs. st = xs @ replicate k dotdot \<and> dotdot \<notin> set xs)"

lemma ups_first_push: "ups_first st \<Longrightarrow> ups_first (push_elem r st e)"
proof -
  assume "ups_first st"
  then obtain k xs where st: "st = xs @ replicate k dotdot" "dotdot \<notin> set xs" by (auto simp: ups_first_def)
  show ?thesis
  proof (cases "e = [] \<or> e = dot")
    case True
    then show ?thesis using st by (auto simp: push_elem_def ups_first_def)
  next
    case False
    show ?thesis
    proof (cases "e = dotdot")
      case up: True
      have pop: "push_elem r st e = (case st of [] \<Rightarrow> if r then [] else [dotdot] | t # ts \<Rightarrow> if t = dotdot then dotdot # st else ts)"
        using False up by (simp add: push_elem_def)
      show ?thesis
      proof (cases xs)
        case Nil
        then have "push_elem r st e = [] \<or> push_elem r st e = replicate (Suc k) dotdot" using st pop by (cases k) auto
        then show ?thesis unfolding ups_first_def by (metis append_Nil empty_iff empty_set replicate_0)
      next
        case (Cons y ys)
        then show ?thesis using st pop by (auto simp: ups_first_def)
      qed
    next
      case name: False
      then have "push_elem r st e = (e # xs) @ replicate k dotdot" using False st by (simp add: push_elem_def)
      then show ?thesis using name st(2) unfolding ups_first_def by (metis list.set_intros(2) set_ConsD)
    qed
  qed
qed

lemma ups_first_fold: "ups_first st \<Longrightarrow> ups_first (foldl (push_elem r) st es)"
  by (induction es arbitrary: st) (auto simp: ups_first_push)

lemma clean_elems_up: "dotdot \<in> set (clean_elems p) \<Longrightarrow> \<exists>es. clean_elems p = dotdot # es"
proof -
  have "ups_first []" by (auto simp: ups_first_def)
  then have "ups_first (foldl (push_elem (IsAbs p)) [] (split_char slash p))" by (rule ups_first_fold)
  then obtain k xs where "clean_elems p = replicate k dotdot @ rev xs" "dotdot \<notin> set xs"
    by (auto simp: ups_first_def clean_elems_def)
  then show "dotdot \<in> set (clean_elems p) \<Longrightarrow> ?thesis" by (cases k) auto
qed

lemma IsLocal_inside: "IsLocal p \<Longrightarrow> inside p"
proof -
  assume l: "IsLocal p"
  then have p: "p \<noteq> []" "\<not> IsAbs p" by (auto simp: IsLocal_def split: if_splits)
  have "dotdot \<notin> set (clean_elems p)"
  proof (cases "dot \<in> set (split_char slash p) \<or> dotdot \<in> set (split_char slash p)")
    case True
    then have c: "Clean p \<noteq> dotdot" "\<not> strings_HasPrefix (Clean p) (dotdot @ [slash])"
      using l p by (auto simp: IsLocal_def Let_def)
    show ?thesis
    proof
      assume "dotdot \<in> set (clean_elems p)"
      then obtain es where es: "clean_elems p = dotdot # es" using clean_elems_up by blast
      then have "Clean p = strings_Join (dotdot # es) [slash]" using p by (simp add: Clean_def)
      with c show False by (cases es) (auto simp: strings_HasPrefix_def dotdot_def)
    qed
  next
    case False
    then show ?thesis using fold_no_dotdot [of "split_char slash p" "[]"] by (simp add: clean_elems_def)
  qed
  with p show ?thesis by (simp add: inside_def)
qed

section \<open>There and back\<close>

text \<open>The name of a file: one element that is not a dot or two.\<close>

definition plain_name :: "string \<Rightarrow> bool" where
  "plain_name f \<longleftrightarrow> f \<noteq> [] \<and> slash \<notin> set f \<and> f \<noteq> dot \<and> f \<noteq> dotdot"

text \<open>A list of elements that \<^verbatim>\<open>Clean\<close> leaves as it is.\<close>

definition normal :: "bool \<Rightarrow> string list \<Rightarrow> bool" where
  "normal rooted es \<longleftrightarrow> foldl (push_elem rooted) [] es = rev es \<and> (\<forall>e \<in> set es. e \<noteq> [] \<and> slash \<notin> set e)"

lemma split_no_slash: "slash \<notin> set f \<Longrightarrow> split_char slash f = [f]"
  by (induction f) auto

lemma split_append: "slash \<notin> set f \<Longrightarrow> split_char slash (f @ slash # p) = f # split_char slash p"
  by (induction f) auto

lemma split_app: "split_char slash (p @ slash # f) = split_char slash p @ split_char slash f"
proof (induction p)
  case (Cons x p)
  then show ?case by (cases "split_char slash p") auto
qed simp

lemma split_elems: "e \<in> set (split_char slash p) \<Longrightarrow> slash \<notin> set e"
proof (induction p arbitrary: e)
  case (Cons x p)
  then show ?case by (cases "split_char slash p") (auto split: if_splits)
qed simp

lemma split_Join:
  "es \<noteq> [] \<Longrightarrow> \<forall>e \<in> set es. slash \<notin> set e \<Longrightarrow> split_char slash (strings_Join es [slash]) = es"
proof (induction es "[slash]" rule: strings_Join.induct)
  case (2 x)
  then show ?case by (simp add: split_no_slash)
next
  case (3 x y ys)
  then show ?case by (simp add: split_append)
qed simp

lemma push_elems_ok:
  "(\<forall>e \<in> set st. e \<noteq> [] \<and> slash \<notin> set e) \<Longrightarrow> slash \<notin> set e \<Longrightarrow> \<forall>x \<in> set (push_elem r st e). x \<noteq> [] \<and> slash \<notin> set x"
  unfolding push_elem_def by (cases "e = [] \<or> e = dot"; cases "e = dotdot"; cases st) (auto simp: dotdot_def)

lemma fold_elems_ok:
  "(\<forall>e \<in> set st. e \<noteq> [] \<and> slash \<notin> set e) \<Longrightarrow> \<forall>e \<in> set es. slash \<notin> set e \<Longrightarrow>
     \<forall>x \<in> set (foldl (push_elem r) st es). x \<noteq> [] \<and> slash \<notin> set x"
proof (induction es arbitrary: st)
  case (Cons e es)
  have "slash \<notin> set e" "\<forall>e \<in> set es. slash \<notin> set e" using Cons.prems(2) by simp_all
  from Cons.IH [OF push_elems_ok [OF Cons.prems(1) this(1)] this(2)] show ?case by simp
qed simp

lemma push_cases: "push_elem r st e = st \<or> push_elem r st e = e # st \<or> st \<noteq> [] \<and> push_elem r st e = tl st"
  by (cases st) (simp_all add: push_elem_def)

lemma push_grows: "length (push_elem r st e) \<le> Suc (length st)"
  using push_cases [of r st e] by auto

lemma push_grown: "length (push_elem r st e) = Suc (length st) \<Longrightarrow> tl (push_elem r st e) = st"
  using push_cases [of r st e] by auto

lemma fold_length: "length (foldl (push_elem r) st es) \<le> length st + length es"
proof (induction es arbitrary: st)
  case (Cons e es)
  show ?case using Cons [of "push_elem r st e"] push_grows [of r st e] by simp
qed simp

text \<open>The stack a fold builds is one that the same fold, on its reverse, builds again.\<close>

lemma fold_again:
  "foldl (push_elem r) [] (rev st) = st \<Longrightarrow> foldl (push_elem r) [] (rev (push_elem r st e)) = push_elem r st e"
proof -
  assume st: "foldl (push_elem r) [] (rev st) = st"
  show ?thesis
  proof (cases "e = [] \<or> e = dot")
    case True
    then show ?thesis using st by (simp add: push_elem_def)
  next
    case False
    show ?thesis
    proof (cases "e = dotdot")
      case True
      show ?thesis
      proof (cases st)
        case Nil
        then show ?thesis using True False by (simp add: push_elem_def)
      next
        case (Cons t ts)
        have t: "foldl (push_elem r) [] (rev ts) = ts"
        proof -
          let ?s = "foldl (push_elem r) [] (rev ts)"
          have p: "push_elem r ?s t = t # ts" using st Cons by simp
          moreover have "length ?s \<le> length ts" using fold_length [of r "[]" "rev ts"] by simp
          ultimately have "length (push_elem r ?s t) = Suc (length ?s)" using push_grows [of r ?s t] by simp
          from push_grown [OF this] p show ?thesis by simp
        qed
        show ?thesis
        proof (cases "t = dotdot")
          case up: True
          then have "push_elem r st e = e # st" using True False Cons by (simp add: push_elem_def)
          then show ?thesis using st by simp
        next
          case False
          then have "push_elem r st e = ts" using True \<open>\<not> (e = [] \<or> e = dot)\<close> Cons by (simp add: push_elem_def)
          then show ?thesis using t by simp
        qed
      qed
    next
      case name: False
      then have "push_elem r st e = e # st" using False by (simp add: push_elem_def)
      then show ?thesis using st by simp
    qed
  qed
qed

lemma normal_clean: "normal (IsAbs p) (clean_elems p)"
proof -
  have again: "foldl (push_elem r) [] (rev st) = st \<Longrightarrow> foldl (push_elem r) [] (rev (foldl (push_elem r) st es)) = foldl (push_elem r) st es" for r st es
    by (induction es arbitrary: st) (simp_all add: fold_again)
  have "\<forall>x \<in> set (clean_elems p). x \<noteq> [] \<and> slash \<notin> set x"
    using fold_elems_ok [of "[]" "split_char slash p"] split_elems by (simp add: clean_elems_def)
  then show ?thesis using again [of "IsAbs p" "[]"] by (simp add: normal_def clean_elems_def)
qed

lemma normal_snoc: "normal r es \<Longrightarrow> plain_name f \<Longrightarrow> normal r (es @ [f])"
  by (auto simp: normal_def plain_name_def push_elem_def)

text \<open>The path of a list of elements, which \<^verbatim>\<open>Clean\<close> leaves as it is.\<close>

definition path_of :: "bool \<Rightarrow> string list \<Rightarrow> string" where
  "path_of rooted es = (if rooted then slash # strings_Join es [slash] else if es = [] then dot else strings_Join es [slash])"

lemma Clean_path: "p \<noteq> [] \<Longrightarrow> Clean p = path_of (IsAbs p) (clean_elems p)"
  by (simp add: Clean_def path_of_def Let_def)

lemma Join_nonempty: "es \<noteq> [] \<Longrightarrow> \<forall>e \<in> set es. e \<noteq> [] \<and> slash \<notin> set e \<Longrightarrow>
    strings_Join es [slash] \<noteq> [] \<and> \<not> IsAbs (strings_Join es [slash])"
proof -
  assume es: "es \<noteq> []" "\<forall>e \<in> set es. e \<noteq> [] \<and> slash \<notin> set e"
  then obtain c e es' where e: "es = (c # e) # es'" "c \<noteq> slash" by (metis list.exhaust list.set_intros(1))
  then show ?thesis by (cases es') (simp_all add: IsAbs_def)
qed

lemma path_of_elems:
  assumes "normal r es"
  shows "path_of r es \<noteq> []" "IsAbs (path_of r es) = r" "clean_elems (path_of r es) = es"
proof -
  note ok = assms [unfolded normal_def]
  show a: "path_of r es \<noteq> []" "IsAbs (path_of r es) = r"
    using ok Join_nonempty [of es] by (auto simp: path_of_def IsAbs_def dot_def)
  have e: "foldl (push_elem b) [] (split_char slash (path_of r es)) = foldl (push_elem b) [] es" for b
  proof (cases "es = []")
    case True
    then show ?thesis by (auto simp: path_of_def push_elem_def dot_def)
  next
    case False
    then show ?thesis using ok split_Join [of es] by (auto simp: path_of_def push_elem_def)
  qed
  show "clean_elems (path_of r es) = es" unfolding clean_elems_def a(2) e using ok by simp
qed

lemma Clean_path_of: "normal r es \<Longrightarrow> Clean (path_of r es) = path_of r es"
  by (simp add: Clean_path path_of_elems)

lemma clean_elems_file:
  assumes "d \<noteq> []" and "plain_name f"
  shows "IsAbs (d @ slash # f) = IsAbs d" "clean_elems (d @ slash # f) = clean_elems d @ [f]"
proof -
  show a: "IsAbs (d @ slash # f) = IsAbs d" using assms(1) by (cases d) (auto simp: IsAbs_def)
  have "split_char slash (d @ slash # f) = split_char slash d @ [f]"
    using assms(2) split_app [of d f] by (simp add: split_no_slash plain_name_def)
  then show "clean_elems (d @ slash # f) = clean_elems d @ [f]"
    unfolding clean_elems_def a using assms(2) by (simp add: push_elem_def plain_name_def)
qed

lemma strip_common_prefix: "strip_common xs (xs @ ys) = ([], ys)"
  by (induction xs) (cases ys; simp)+

text \<open>The elements \<^verbatim>\<open>Rel\<close> compares.\<close>

lemma path_comps_of:
  assumes "normal r es"
  shows "path_comps (if path_of r es = dot then [] else path_of r es) = (if r then [] # es else es)"
proof -
  have d: "path_of r es = dot \<longleftrightarrow> \<not> r \<and> es = []"
  proof
    assume "path_of r es = dot"
    then have "clean_elems dot = es" "IsAbs dot = r" using path_of_elems [OF assms] by simp_all
    then show "\<not> r \<and> es = []" by (auto simp: clean_elems_def dot_def IsAbs_def push_elem_def)
  qed (simp add: path_of_def)
  have n: "strings_Join es [slash] \<noteq> []" "strings_Join es [slash] \<noteq> [slash]" "split_char slash (strings_Join es [slash]) = es" if "es \<noteq> []"
    using that assms Join_nonempty [of es] split_Join [of es] by (auto simp: normal_def IsAbs_def)
  show ?thesis
  proof (cases "es = []")
    case True
    then show ?thesis using d by (cases r) (simp_all add: path_comps_def path_of_def)
  next
    case False
    then have "path_of r es \<noteq> dot" using d by simp
    then show ?thesis using n [OF False] False by (simp add: path_comps_def path_of_def)
  qed
qed

lemma Rel_Join:
  assumes "d \<noteq> []" and "plain_name f"
  shows "Rel d (Join2 d f) = Some f"
proof -
  let ?r = "IsAbs d" and ?es = "clean_elems d"
  have n: "normal ?r ?es" "normal ?r (?es @ [f])" using normal_clean normal_snoc assms(2) by blast+
  have j: "Join2 d f = path_of ?r (?es @ [f])" using assms by (simp add: Join2_def Clean_path clean_elems_file)
  have b: "Clean d = path_of ?r ?es" "Clean (Join2 d f) = path_of ?r (?es @ [f])"
    using assms(1) n by (simp_all add: Clean_path j Clean_path_of)
  have ne: "path_of ?r (?es @ [f]) \<noteq> path_of ?r ?es" using path_of_elems(3) [OF n(1)] path_of_elems(3) [OF n(2)] by force
  have nd: "path_of ?r (?es @ [f]) \<noteq> dot"
  proof
    assume "path_of ?r (?es @ [f]) = dot"
    then have "clean_elems dot = ?es @ [f]" using path_of_elems(3) [OF n(2)] by simp
    then show False by (simp add: clean_elems_def dot_def push_elem_def)
  qed
  have a: "IsAbs (if path_of ?r ?es = dot then [] else path_of ?r ?es) = ?r" "IsAbs (path_of ?r (?es @ [f])) = ?r"
    using path_of_elems(2) [OF n(1)] path_of_elems(2) [OF n(2)] by (auto simp: IsAbs_def dot_def)
  have s: "strip_common (path_comps (if path_of ?r ?es = dot then [] else path_of ?r ?es)) (path_comps (path_of ?r (?es @ [f]))) = ([], [f])"
    using path_comps_of [OF n(1)] path_comps_of [OF n(2)] nd strip_common_prefix [of "[] # ?es" "[f]"] strip_common_prefix [of ?es "[f]"]
    by (simp split: if_splits)
  show ?thesis unfolding Rel_def b Let_def using ne a s by simp
qed

lemma IsLocal_plain:
  assumes "plain_name f" shows "IsLocal f"
proof -
  note p = assms [unfolded plain_name_def]
  have a: "\<not> IsAbs f" using p by (cases f) (auto simp: IsAbs_def)
  have "\<not> strings_HasPrefix f (dotdot @ [slash])"
  proof
    assume "strings_HasPrefix f (dotdot @ [slash])"
    then have "slash \<in> set (take (length (dotdot @ [slash])) f)" by (simp only: strings_HasPrefix_def) simp
    then show False using p in_set_takeD by fast
  qed
  then show ?thesis using a p by (auto simp: IsLocal_def split_no_slash)
qed

end
