(* ===== verification/Spec2Isabelle.thy ===== *)
theory Spec2Isabelle
  imports Prelude Domain Lifecycle Authn Sqlguard Config Metastore Watchers Storage Encoder Parquet Manager World Submit Run Workers Steps Upkeep
    Service Ratelimit Rest Grpc Ws Filepath Backends
begin

text \<open>
  A verification development for dbbridge, a service that runs SQL queries against configured
  databases, stores their results and serves them over REST, WebSocket and gRPC.

  \<^bold>\<open>The parts and how they interact.\<close> A transport authenticates the caller, checks a scope and calls the
  query service, which decides who may see a query and hands on to the query manager. The manager
  admits a query, claims its idempotency key in the metadata store, registers it and starts a
  goroutine that executes the SQL on a pool, encodes the rows into a result store and writes the
  terminal record. Workers of the manager renew leases, deliver events and stop requests, collect
  expired queries and fail those whose owner is gone. Several instances share one metadata store.

  \<^bold>\<open>Theories and sources\<close> (paths under \<^verbatim>\<open>src/internal\<close>).
  \<^item> \<open>Prelude\<close>: 64-bit wrap-around and saturation, time and durations, Go maps as association lists
    (\<open>mget\<close>, \<open>mput\<close>, \<open>mdel\<close>), strings as lists of bytes. \<open>Channels\<close>: buffered channels with sends and closes that
    can panic. \<open>Utf8\<close>: runes. \<open>Filepath\<close>: \<^verbatim>\<open>path/filepath\<close> on Unix.
  \<^item> \<open>Domain\<close>: \<^verbatim>\<open>core/domain\<close>, records, states, options, errors. \<open>Lifecycle\<close>: \<^verbatim>\<open>lifecycle/manager.go\<close>.
    \<open>Authn\<close>: \<^verbatim>\<open>authn/authn.go\<close>. \<open>Sqlguard\<close>: \<^verbatim>\<open>sqlguard/sqlguard.go\<close>. \<open>Config\<close>: \<^verbatim>\<open>config\<close>.
    \<open>Ratelimit\<close>: \<^verbatim>\<open>ratelimit/ratelimit.go\<close>.
  \<^item> \<open>Metastore\<close>: \<^verbatim>\<open>state/metastore.go\<close> and \<^verbatim>\<open>state/memory.go\<close>. The interface is a record of operations, its
    contract the locale \<open>meta_store\<close>, interpreted on the memory store.
  \<^item> \<open>Storage\<close>, \<open>Encoder\<close>, \<open>Parquet\<close>, \<open>Backends\<close>: \<^verbatim>\<open>storage\<close>, the registry, the three encodings and the file, S3 and
    ClickHouse stores.
  \<^item> \<open>Watchers\<close>, \<open>Manager\<close>, \<open>World\<close>, \<open>Submit\<close>, \<open>Run\<close>, \<open>Workers\<close>, \<open>Steps\<close>, \<open>Upkeep\<close>: \<^verbatim>\<open>core/manager/manager.go\<close>. \<open>Watchers\<close> is event
    delivery, \<open>Manager\<close> the state under the manager's mutexes (pools, registry, slots, defaults), \<open>Submit\<close>
    \<^verbatim>\<open>SubmitQuery\<close>, \<open>Run\<close> the query goroutine, \<open>Workers\<close> stop, close, reload and the background workers;
    \<open>Steps\<close> and \<open>Upkeep\<close> hold properties of these programs.
  \<^item> \<open>Service\<close>: \<^verbatim>\<open>core/service/service.go\<close>. \<open>Rest\<close>: \<^verbatim>\<open>transport/rest\<close>. \<open>Grpc\<close>: \<^verbatim>\<open>transport/grpcconnect\<close>. \<open>Ws\<close>: \<^verbatim>\<open>transport/ws\<close>.
    This theory has what holds across the transports.

  \<^bold>\<open>How the code is rendered.\<close> Structs are records, enumerations and error kinds datatypes; an operation
  that fails returns a sum or an option. The programs of the manager, the service and the handlers are
  terms of the state monad over a \<open>world\<close>: the manager's state, the metadata store, the data of the result stores, the
  goroutines started and a clock of accesses. Before every access the environment of type \<open>env\<close> may change the
  world (\<open>en_other\<close>): that is the interference of other goroutines and instances, so a property proved for every environment holds for every
  interleaving of atomic accesses; \<open>alone\<close> says that there is none. Reasoning goes through weakest preconditions (\<open>wp\<close>)
  and preserved predicates (\<open>keeps\<close>). The WebSocket connection is a step relation, the abstract manager of \<open>Steps\<close> another.

  \<^bold>\<open>What is shown.\<close>
  \<^item> Store: a terminal record is final, keys and locks are exclusive, leases name the stale
    queries, no channel operation panics.
  \<^item> Manager: which submissions are accepted and what a refused one leaves; what a run leaves and that it settles; that
    every operation refines steps of an abstract manager; that nothing is admitted after a drain; pools after a reload; events close
    their subscriptions.
  \<^item> Upkeep: reapers keep verdicts and fail exactly the abandoned queries, recovery clears what an instance owned,
    collection deletes results before records and touches only expired ones.
  \<^item> Results: encodings are complete and read back (CSV, JSON Lines, Parquet), what a ClickHouse table stores comes back, locators
    cannot lead out of a store, range and section requests serve exactly the bytes asked for.
  \<^item> Access: tokens and scopes, the SQL guard by tokens, what an outsider learns, one answer from both
    transports for every error and credential, isolated rate limits, bounded connections.
  \<^item> Configuration: validation, references to the environment, reloads.

  \<^bold>\<open>Fuel and bounds.\<close> Loops over finite data recurse on it. A loop that waits - a sync submission, \<^verbatim>\<open>io.Copy\<close> from a reader - takes fuel, and
  \<open>None\<close> says that it ran out. For copies and downloads the theorems ask for more fuel than there are unread
  bytes and show that it is enough, since a working reader delivers at least one byte a
  round. Lengths, offsets, durations and row numbers are kept at the width the code has.

  \<^bold>\<open>Parameters.\<close> Code outside the repository is an argument: database pools and row streams, result
  data, the Parquet writer, SHA-256, UUIDs, number and time formatting of the standard library beyond integers, Unicode tables,
  the token bucket, the open directory, the S3 client, the ClickHouse table. What a theorem needs of
  them is a named hypothesis (\<open>works\<close>, \<open>sink\<close>, \<open>formats_ok\<close>, \<open>fields_ok\<close>, \<open>refills\<close>, \<open>table_laws\<close>), with a concrete instance in its witness.

  \<^bold>\<open>Not modelled.\<close> The Redis store is a client of an external server: each method is a sequence of commands
  whose effect is the server's. The database drivers and the tracing wrappers pass calls on. The
  certificate reloader, \<^verbatim>\<open>cmd/dbbridge\<close> and telemetry deal with files, listeners, signals and
  collectors. Building the S3 client and opening the ClickHouse connection only pass on settings. Generated code and test support are
  left out. In the modelled parts, log lines, metrics and spans have no counterpart, and JSON encoding of
  responses, routing by pattern, and socket handling are those of libraries.
\<close>

section \<open>The two transports tell the same\<close>

text \<open>The HTTP status that says the same as a Connect code.\<close>

fun http_status :: "connect_code \<Rightarrow> nat" where
  "http_status CodeInvalidArgument = 400"
| "http_status CodeNotFound = 404"
| "http_status CodeUnavailable = 503"
| "http_status CodeResourceExhausted = 429"
| "http_status CodeInternal = 500"
| "http_status CodeUnauthenticated = 401"
| "http_status CodePermissionDenied = 403"


definition procedure_of :: "endpoint \<Rightarrow> string option" where
  "procedure_of ep =
     (case ep of
        Start \<Rightarrow> Some ''StartQuery'' | Stop \<Rightarrow> Some ''StopQuery'' | Status \<Rightarrow> Some ''GetQueryStatus'' | Stats \<Rightarrow> Some ''GetQueryStats''
      | Result \<Rightarrow> Some ''DownloadResult'' | Databases \<Rightarrow> Some ''ListDatabases'' | WebSocket \<Rightarrow> Some ''WatchQuery''
      | ReloadEP \<Rightarrow> Some ''ReloadConfig'' | CanStop \<Rightarrow> Some ''CanIBeStopped'' | _ \<Rightarrow> None)"

definition all_routes :: "bool \<Rightarrow> route list" where
  "all_routes sep = (case setupRoutes sep of (pub, adm) \<Rightarrow> pub @ (case adm of None \<Rightarrow> [] | Some rs \<Rightarrow> rs))"

lemma last_index_of_append: "c \<notin> set ys \<Longrightarrow> last_index_of c (xs @ c # ys) = Some (length xs)"
proof -
  have "c \<notin> set zs \<Longrightarrow> index_of c (zs @ c # ws) = Some (length zs)" for zs ws by (induction zs) auto
  then show "c \<notin> set ys \<Longrightarrow> ?thesis" by (simp add: last_index_of_def)
qed

lemma ScopeForProcedure_method:
  "CHR ''/'' \<notin> set p \<Longrightarrow> ScopeForProcedure (svc @ CHR ''/'' # p) = (case mget procedureScopes p of Some s \<Rightarrow> s | None \<Rightarrow> ScopeAdmin)"
  by (simp add: ScopeForProcedure_def last_index_of_append Let_def)

text \<open>What the gates of a route let through: the scopes one after the other.\<close>

lemma require_all_iff:
  "ss \<noteq> [] \<Longrightarrow> require_all (Some a) ss r ctx = Inr ctx' \<longleftrightarrow>
     (\<exists>i. Authenticate a (credential r) = Inr i \<and> (\<forall>s \<in> set ss. Has i s) \<and> ctx' = Some i)"
proof (induction ss arbitrary: ctx)
  case (Cons s ss)
  then show ?case by (cases ss) (auto simp: require_def WithIdentity_def split: sum.splits if_splits)
qed simp

lemma route_table:
  "map (\<lambda>rt. (rt_scopes rt, procedure_of (rt_endpoint rt))) (all_routes sep) =
     [([], None), ([], None), ([ScopeRead], Some ''DownloadResult''), ([ScopeRead], Some ''WatchQuery''),
      ([ScopeRead, ScopeWrite], Some ''StartQuery''), ([ScopeRead], Some ''ListDatabases''), ([ScopeRead], Some ''GetQueryStatus''),
      ([ScopeRead], Some ''GetQueryStats''), ([ScopeRead, ScopeWrite], Some ''StopQuery''), ([ScopeAdmin], None),
      ([ScopeAdmin], Some ''ReloadConfig''), ([ScopeAdmin], Some ''CanIBeStopped'')]"
  by (cases sep) (simp_all add: all_routes_def setupRoutes_def mountAdmin_def route_of_def procedure_of_def Let_def)

lemma route_scopes:
  assumes "rt \<in> set (all_routes sep)" and "procedure_of (rt_endpoint rt) = Some p"
  shows "rt_scopes rt \<noteq> [] \<and> ((\<forall>s \<in> set (rt_scopes rt). Has i s) \<longleftrightarrow> Has i (ScopeForProcedure (svc @ CHR ''/'' # p)))"
proof -
  from assms have "(rt_scopes rt, Some p) \<in> set (map (\<lambda>rt. (rt_scopes rt, procedure_of (rt_endpoint rt))) (all_routes sep))"
    by force
  then show ?thesis unfolding route_table
    by (auto simp: ScopeForProcedure_method procedureScopes_def mget_def Has_def scope_defs)
qed

text \<open>
  C8. One credential, the same rights. For every operation that both transports offer, a request
  passes the gates of its REST route exactly when the same credential passes the check of the
  remote procedure, and then both go on with the same identity. No route of such an operation is without a gate.
\<close>

theorem scopes_agree:
  assumes "rt \<in> set (all_routes sep)" and "procedure_of (rt_endpoint rt) = Some p" and "credential r = BearerToken (rq_Authorization r)"
  shows "require_all (Some a) (rt_scopes rt) r ctx = Inr ctx' \<longleftrightarrow>
     (\<exists>i. check a (rq_Authorization r) (svc @ CHR ''/'' # p) = Inr i \<and> ctx' = WithIdentity ctx i)"
  using route_scopes [OF assms(1,2), of _ svc]
  by (auto simp: require_all_iff check_def assms(3) WithIdentity_def split: sum.splits if_splits)

definition absent :: "request \<Rightarrow> response" where
  "absent r = writeStatus r 404 ''not found''"

definition rpc_absent :: rpc_error where
  "rpc_absent = ConnectError CodeNotFound ''not found''"

text \<open>The program gives this answer, and leaves the world as it was.\<close>

definition only_answers :: "('p, mem, 'w, 'a) prog \<Rightarrow> 'a \<Rightarrow> ('p, mem, 'w) world \<Rightarrow> bool" where
  "only_answers m x w \<longleftrightarrow> wp m (\<lambda>y w'. y = x \<and> (\<exists>n. w' = w\<lparr>wd_tick := n\<rparr>)) w"

text \<open>
  C3. An outsider cannot tell. A caller who may not see a query gets from every operation on it, over
  either transport, the answer for a query that does not exist, and nothing has changed but the time.
\<close>

theorem outsider_cannot_tell:
  assumes "alone E" and "\<forall>rec. mget (mm_queries (wd_meta w)) (rq_id r) = Some rec \<longrightarrow> outsider s ctx rec"
    and "rq_id r \<noteq> []" and "download_window r = Inr win"
  shows "only_answers (handleGetQueryStatus mem_store E secs s ctx r) (absent r) w
     \<and> only_answers (handleGetQueryStats mem_store E s ctx r) (absent r) w
     \<and> only_answers (handleStopQuery mem_store E s ctx r) (absent r) w
     \<and> only_answers (handleDownloadResult mem_store E s fuel ctx r) (Some (absent r)) w
     \<and> only_answers (rpc_GetQueryStatus mem_store E secs s ctx (rq_id r)) (Inl rpc_absent) w
     \<and> only_answers (rpc_GetQueryStats mem_store E s ctx (rq_id r)) (Inl rpc_absent) w
     \<and> only_answers (rpc_StopQuery mem_store E s ctx (rq_id r)) (Inl rpc_absent) w
     \<and> only_answers (rpc_DownloadResult send mem_store E s fuel ctx (rq_id r) offset limit) (Some ([], Some rpc_absent)) w
     \<and> only_answers (rpc_WatchQuery send mem_store E s ctx (rq_id r) rounds) ([], Some (Some rpc_absent)) w"
proof -
  note out = authorized_outsider [OF assms(1) assms(2) [rule_format]]
  obtain off cnt rg where win: "win = (off, cnt, rg)" by (cases win)
  have e: "writeError r e = absent r" "connectError e = rpc_absent" if "e \<in> {ErrNotFound, NotFoundError ''query'' (rq_id r)}" for e
    using that by (auto simp: writeError_def classify_def absent_def connectError_def rpc_absent_def)
  show ?thesis
    unfolding only_answers_def handleGetQueryStatus_def handleGetQueryStats_def handleStopQuery_def handleDownloadResult_def
      rpc_GetQueryStatus_def rpc_GetQueryStats_def rpc_StopQuery_def rpc_DownloadResult_def rpc_WatchQuery_def
      GetQueryStatus_def GetQueryStats_def svc_StopQuery_def DownloadResult_def WatchQuery_def if_not_P [OF assms(3)] assms(4) win
      sum.case prod.case wp_bind
    by (intro conjI; rule out; simp add: e; blast)
qed

text \<open>
  C18. Two ways to the same bytes. For a result that is in place, a REST request with a given offset and limit and no
  range, and a gRPC request with the same offset and limit whose messages can all be sent, end without an error;
  the body of the one is the chunks of the other put together, none of them empty, and both are the
  bytes of the result from the offset on, cut off at the limit if there is one.
\<close>

theorem downloads_agree:
  assumes "downloadable E s ctx (rq_id r) w ref store h rest d" and "rq_id r \<noteq> []" and "rq_Range r = []"
    and "query_count (rq_offset r) = Some off" and "query_count (rq_limit r) = Some cnt" and "length (rest d) < fuel"
  defines "part \<equiv> (if cnt > 0 then take (nat cnt) (drop (nat off) (rest d)) else drop (nat off) (rest d))"
  shows "wp (handleDownloadResult mem_store E s fuel ctx r) (\<lambda>resp w'. resp =
       Some \<lparr>rp_status = 200, rp_headers = [(''Content-Type'', content_type (ref_Format ref))], rp_body = Bytes part\<rparr>) w
     \<and> wp (rpc_DownloadResult (\<lambda>k. None) mem_store E s fuel ctx (rq_id r) off cnt)
         (\<lambda>out w'. \<exists>cs. out = Some (cs, None) \<and> concat cs = part \<and> [] \<notin> set cs) w"
proof -
  let ?sec = "if off > 0 \<or> cnt > 0 then Some (newSectionReadCloser off cnt) else None"
  have D: "alone E" "works (rs_Read store h) rest" using assms(1) by (auto simp: downloadable_def)
  have nn: "0 \<le> off" "0 \<le> cnt" using assms(4,5) by (auto simp: query_count_def split: if_splits option.splits)
  then have u: "unread rest ?sec d = part"
    by (auto simp: part_def unread_def section_rest_def newSectionReadCloser_def Let_def)
  have "length part < fuel" using assms(6) by (auto simp: part_def)
  then have f: "length (rest (wd_data (w\<lparr>wd_tick := k, wd_data := d\<rparr>))) < fuel"
      "length (unread rest ?sec (wd_data (w\<lparr>wd_tick := k, wd_data := d\<rparr>))) < fuel" for k
    using assms(6) u by simp_all
  note close = wp_data alone_others [OF D(1)]
  have win: "download_window r = Inr (off, cnt, None)" by (simp add: download_window_def assms(3-5))
  have hd: "download_head r ref None = Inr (200, [(''Content-Type'', content_type (ref_Format ref))])"
    by (simp add: download_head_def Let_def)
  have "wp (handleDownloadResult mem_store E s fuel ctx r) (\<lambda>resp w'. resp =
       Some \<lparr>rp_status = 200, rp_headers = [(''Content-Type'', content_type (ref_Format ref))], rp_body = Bytes part\<rparr>) w"
    unfolding handleDownloadResult_def if_not_P [OF assms(2)] win sum.case prod.case wp_bind
    apply (rule DownloadResult_alone [OF assms(1)])
    apply (simp only: sum.case prod.case download.simps hd wp_bind)
    apply (rule wp_mono [OF copy_body_works [OF D f]])
    using u by (auto simp: close split: prod.splits)
  moreover have "wp (rpc_DownloadResult (\<lambda>k. None) mem_store E s fuel ctx (rq_id r) off cnt)
         (\<lambda>out w'. \<exists>cs. out = Some (cs, None) \<and> concat cs = part \<and> [] \<notin> set cs) w"
    unfolding rpc_DownloadResult_def wp_bind
    apply (rule DownloadResult_alone [OF assms(1)])
    apply (simp only: sum.case download.simps wp_bind)
    apply (rule wp_mono [OF stream_chunks_works [OF D f]])
    using u by (auto simp: close split: prod.splits)
  ultimately show ?thesis by blast
qed

theorem downloads_agree_witness:
  "let r = sample_request\<lparr>rq_Range := [], rq_offset := ''2'', rq_limit := ''5''\<rparr> in
   wp (handleDownloadResult mem_store served_env open_service 20 None r) (\<lambda>resp w'. resp =
       Some \<lparr>rp_status = 200, rp_headers = [(''Content-Type'', content_type (ref_Format served_ref))], rp_body = Bytes ''cdefg''\<rparr>) served_world
   \<and> wp (rpc_DownloadResult (\<lambda>k. None) mem_store served_env open_service 20 None ''q1'' 2 5)
         (\<lambda>out w'. \<exists>cs. out = Some (cs, None) \<and> concat cs = ''cdefg'' \<and> [] \<notin> set cs) served_world"
proof -
  let ?r = "sample_request\<lparr>rq_Range := [], rq_offset := ''2'', rq_limit := ''5''\<rparr>"
  have i: "rq_id ?r = ''q1''" "rq_Range ?r = []" by (simp_all add: sample_request_def)
  have q: "query_count (rq_offset ?r) = Some 2" "query_count (rq_limit ?r) = Some 5" by code_simp+
  show ?thesis using downloads_agree [OF served [folded i(1)] _ i(2) q, of 20] by (simp add: Let_def i(1))
qed

theorem scopes_agree_witness:
  "let a = \<lparr>au_tokens = [\<lparr>tk_value = ''secret'', tk_subject = ''alice'', tk_scopes = [ScopeWrite]\<rparr>]\<rparr>;
       r = sample_request\<lparr>rq_Authorization := ''Bearer secret''\<rparr> in
   require_all (Some a) [ScopeRead, ScopeWrite] r None = Inr (Some \<lparr>id_Subject = ''alice'', id_Scopes = [ScopeWrite]\<rparr>)"
proof -
  let ?rt = "route_of ''POST'' ''/v1/queries'' [ScopeRead, ScopeWrite] False Start"
  let ?r = "sample_request\<lparr>rq_Authorization := ''Bearer secret''\<rparr>"
  let ?a = "\<lparr>au_tokens = [\<lparr>tk_value = ''secret'', tk_subject = ''alice'', tk_scopes = [ScopeWrite]\<rparr>]\<rparr>"
  have rt: "?rt \<in> set (all_routes False)" "procedure_of (rt_endpoint ?rt) = Some ''StartQuery''" "rt_scopes ?rt = [ScopeRead, ScopeWrite]"
    by (simp_all add: all_routes_def setupRoutes_def Let_def route_of_def procedure_of_def)
  have c: "credential ?r = BearerToken (rq_Authorization ?r)" by code_simp
  have "check ?a (rq_Authorization ?r) (''dbbridge.v1.QueryService'' @ CHR ''/'' # ''StartQuery'') = Inr \<lparr>id_Subject = ''alice'', id_Scopes = [ScopeWrite]\<rparr>"
    by code_simp
  with scopes_agree [OF rt(1,2) c, where a = ?a and ctx = None and svc = "''dbbridge.v1.QueryService''"] show ?thesis by (simp add: Let_def rt(3) WithIdentity_def)
qed

theorem outsider_cannot_tell_witness:
  "outsider open_service (Some \<lparr>id_Subject = ''bob'', id_Scopes = [ScopeWrite]\<rparr>) served_record
   \<and> only_answers (handleDownloadResult mem_store served_env open_service 20 (Some \<lparr>id_Subject = ''bob'', id_Scopes = [ScopeWrite]\<rparr>) sample_request)
       (Some (absent sample_request)) served_world"
proof -
  let ?ctx = "Some \<lparr>id_Subject = ''bob'', id_Scopes = [ScopeWrite]\<rparr>"
  have o: "outsider open_service ?ctx served_record"
    by (simp add: outsider_def FromContext_def IsAdmin_def scope_defs served_record_def sample_record_def)
  have m: "mget (mm_queries (wd_meta served_world)) (rq_id sample_request) = Some served_record"
    by (simp add: served_stored sample_request_def)
  have w: "download_window sample_request = Inr (4, 96, Some (4, 99))" by code_simp
  have a: "alone served_env" by (simp add: served_env_def alone_def sample_env_def)
  have "rq_id sample_request \<noteq> []" by (simp add: sample_request_def)
  from outsider_cannot_tell [OF a _ this w, of served_world open_service ?ctx id 20 "\<lambda>n. None" 0 0 "[]"] o m show ?thesis by simp
qed

end
